(* ===== verification/Prelude.thy ===== *)
theory Prelude
  imports
    Main
    "HOL-Library.Word"
    "HOL-Library.Char_ord"
    "HOL-Library.List_Lexorder"
    "HOL-Library.Product_Lexorder"
begin

text \<open>
  What every component shares: Rust's machine integers as words of their width, panics and
  \<open>Result\<close> values as datatypes, the two overflow behaviours of a Rust build (a development
  build panics, a release build wraps), the formatting of numbers in error messages, and the
  collections of hints the component theories extend.
\<close>

named_theorems rust_defs "unfolding of the functions translated from the Rust sources"
named_theorems rust_inv "operations keep their component's invariant"

section \<open>Machine types\<close>

type_synonym u8 = "8 word"
type_synonym u32 = "32 word"
type_synonym u64 = "64 word"
type_synonym i32 = "32 word"
type_synonym bytes = "8 word list"

text \<open>
  A \<^verbatim>\<open>[u8; 16]\<close> is a byte list, whose length the program checks where a slice
  becomes an array (\<^verbatim>\<open>parse_uuid_16\<close>) and never looks at again. Rust orders arrays
  lexicographically, as \<open>List_Lexorder\<close> orders lists.
\<close>

type_synonym bytes16 = "8 word list"

section \<open>Panics and results\<close>

datatype panic =
    Arith_Overflow
  | Assertion_Failed string
  | Expect_Failed string

datatype 'a exec = Panic panic | Ret 'a

datatype ('e, 'a) result = Err 'e | Ok 'a

primrec exec_bind :: "'a exec \<Rightarrow> ('a \<Rightarrow> 'b exec) \<Rightarrow> 'b exec" where
  "exec_bind (Panic p) f = Panic p"
| "exec_bind (Ret a) f = f a"

primrec result_bind :: "('e, 'a) result \<Rightarrow> ('a \<Rightarrow> ('e, 'b) result) \<Rightarrow> ('e, 'b) result" where
  "result_bind (Err e) f = Err e"
| "result_bind (Ok a) f = f a"

primrec map_err :: "('e \<Rightarrow> 'f) \<Rightarrow> ('e, 'a) result \<Rightarrow> ('f, 'a) result" where
  "map_err f (Err e) = Err (f e)"
| "map_err f (Ok a) = Ok a"

primrec result_map :: "('a \<Rightarrow> 'b) \<Rightarrow> ('e, 'a) result \<Rightarrow> ('e, 'b) result" where
  "result_map f (Err e) = Err e"
| "result_map f (Ok a) = Ok (f a)"

primrec ok_or :: "'e \<Rightarrow> 'a option \<Rightarrow> ('e, 'a) result" where
  "ok_or e None = Err e"
| "ok_or e (Some a) = Ok a"

primrec is_ok :: "('e, 'a) result \<Rightarrow> bool" where
  "is_ok (Err e) = False"
| "is_ok (Ok a) = True"

primrec is_ret :: "'a exec \<Rightarrow> bool" where
  "is_ret (Panic p) = False"
| "is_ret (Ret a) = True"

primrec expect :: "string \<Rightarrow> 'a option \<Rightarrow> 'a exec" where
  "expect msg None = Panic (Expect_Failed msg)"
| "expect msg (Some a) = Ret a"

definition assert_then :: "bool \<Rightarrow> string \<Rightarrow> 'a exec \<Rightarrow> 'a exec" where
  "assert_then c msg k = (if c then k else Panic (Assertion_Failed msg))"

text \<open>\<^verbatim>\<open>unwrap\<close> of a result and \<^verbatim>\<open>assert!\<close>, as the test code uses them.\<close>

primrec unwrap :: "('e, 'a) result \<Rightarrow> 'a exec" where
  "unwrap (Err e) = Panic (Expect_Failed ''called `Result::unwrap()` on an `Err` value'')"
| "unwrap (Ok a) = Ret a"

definition check :: "bool \<Rightarrow> unit exec" where
  "check c = assert_then c ''assertion failed'' (Ret ())"

fun exec_fold :: "('b \<Rightarrow> 'a \<Rightarrow> 'a exec) \<Rightarrow> 'b list \<Rightarrow> 'a \<Rightarrow> 'a exec" where
  "exec_fold f [] a = Ret a"
| "exec_fold f (x # xs) a = exec_bind (f x a) (exec_fold f xs)"

text \<open>A loop that pushes results and returns at the first error.\<close>

primrec collect_results :: "('e, 'a) result list \<Rightarrow> ('e, 'a list) result" where
  "collect_results [] = Ok []"
| "collect_results (r # rs) = result_bind r (\<lambda>a. result_bind (collect_results rs) (\<lambda>as. Ok (a # as)))"

lemma collect_results_Ok [simp]: "collect_results (map Ok xs) = Ok xs"
  by (induction xs) auto

text \<open>
  Code that threads a state and may return early with an error: the changes made before the
  error stay, as those made through a \<^verbatim>\<open>&mut\<close> do.
\<close>

type_synonym ('s, 'e, 'a) st_result = "'s \<Rightarrow> 's \<times> ('e, 'a) result"

definition st_bind ::
  "('s, 'e, 'a) st_result \<Rightarrow> ('a \<Rightarrow> ('s, 'e, 'b) st_result) \<Rightarrow> ('s, 'e, 'b) st_result" where
  "st_bind m f s =
     (case m s of
        (s', Err e) \<Rightarrow> (s', Err e)
      | (s', Ok a) \<Rightarrow> f a s')"

definition st_lift :: "('e, 'a) result \<Rightarrow> ('s, 'e, 'a) st_result" where
  "st_lift r s = (s, r)"

text \<open>\<^verbatim>\<open>.context(msg)\<close> on the outcome of a call that changes the state.\<close>

definition st_context :: "'e \<Rightarrow> ('s \<Rightarrow> 's \<times> 'a option) \<Rightarrow> ('s, 'e, 'a) st_result" where
  "st_context msg m s = (case m s of (s', x) \<Rightarrow> (s', ok_or msg x))"

lemma st_lift_bind [simp]:
  "st_bind (st_lift (Err e)) f s = (s, Err e)"
  "st_bind (st_lift (Ok a)) f s = f a s"
  by (simp_all add: st_bind_def st_lift_def)

lemma st_bind_context:
  "st_bind (st_context msg m) f s =
     (case m s of (s', None) \<Rightarrow> (s', Err msg) | (s', Some a) \<Rightarrow> f a s')"
  by (simp add: st_bind_def st_context_def split: prod.splits option.splits)

lemma exec_bind_eq_Ret [simp]:
  "exec_bind m f = Ret b \<longleftrightarrow> (\<exists>a. m = Ret a \<and> f a = Ret b)"
  by (cases m) auto

lemma exec_bind_eq_Panic:
  "exec_bind m f = Panic p \<longleftrightarrow> m = Panic p \<or> (\<exists>a. m = Ret a \<and> f a = Panic p)"
  by (cases m) auto

lemma result_bind_eq_Ok [simp]:
  "result_bind m f = Ok b \<longleftrightarrow> (\<exists>a. m = Ok a \<and> f a = Ok b)"
  by (cases m) auto

lemma is_ret_iff: "is_ret m \<longleftrightarrow> (\<exists>a. m = Ret a)"
  by (cases m) auto

lemma result_bind_eq_Err:
  "result_bind m f = Err e \<longleftrightarrow> m = Err e \<or> (\<exists>a. m = Ok a \<and> f a = Err e)"
  by (cases m) auto

lemma ok_or_eq [simp]:
  "ok_or e x = Err e' \<longleftrightarrow> x = None \<and> e' = e"
  "ok_or e x = Ok a \<longleftrightarrow> x = Some a"
  by (cases x; auto)+

lemma assert_then_eq_Ret [simp]: "assert_then c msg k = Ret a \<longleftrightarrow> c \<and> k = Ret a"
  by (simp add: assert_then_def)

lemma assert_then_True [simp]: "assert_then True msg k = k"
  by (simp add: assert_then_def)

lemma assert_then_False [simp]: "assert_then False msg k = Panic (Assertion_Failed msg)"
  by (simp add: assert_then_def)

lemma check_eq_Ret [simp]: "check c = Ret () \<longleftrightarrow> c"
  by (simp add: check_def)

lemma exec_bind_check [simp]: "exec_bind (check c) f = Ret x \<longleftrightarrow> c \<and> f () = Ret x"
  by (auto simp: check_def)

lemma unwrap_eq_Ret [simp]: "unwrap r = Ret a \<longleftrightarrow> r = Ok a"
  by (cases r) auto

lemma expect_eq_Ret [simp]: "expect msg x = Ret a \<longleftrightarrow> x = Some a"
  by (cases x) auto

lemma expect_eq_Panic [simp]:
  "expect msg x = Panic p \<longleftrightarrow> x = None \<and> p = Expect_Failed msg"
  by (cases x) auto

section \<open>Integer arithmetic of a Rust build\<close>

text \<open>
  \<open>Checked\<close> is a build with overflow checks (the development profile), \<open>Wrapping\<close> one
  without (the release profile; the workspace sets neither explicitly).
\<close>

datatype overflow = Checked | Wrapping

definition checked_add :: "'a::len word \<Rightarrow> 'a word \<Rightarrow> 'a word option" where
  "checked_add x y = (if unat x + unat y < 2 ^ LENGTH('a) then Some (x + y) else None)"

definition add_ovf :: "overflow \<Rightarrow> 'a::len word \<Rightarrow> 'a word \<Rightarrow> 'a word exec" where
  "add_ovf m x y =
     (case checked_add x y of
        Some z \<Rightarrow> Ret z
      | None \<Rightarrow> (case m of Checked \<Rightarrow> Panic Arith_Overflow | Wrapping \<Rightarrow> Ret (x + y)))"

definition u32_try_from :: "nat \<Rightarrow> u32 option" where
  "u32_try_from n = (if n < 2 ^ 32 then Some (of_nat n) else None)"

definition u64_try_from :: "nat \<Rightarrow> u64 option" where
  "u64_try_from n = (if n < 2 ^ 64 then Some (of_nat n) else None)"

lemma unat_add_no_overflow:
  fixes x y :: "'a::len word"
  assumes "unat x + unat y < 2 ^ LENGTH('a)"
  shows "unat (x + y) = unat x + unat y"
  using assms by (simp add: unat_word_ariths)

lemma checked_add_SomeD:
  fixes x y :: "'a::len word"
  assumes "checked_add x y = Some z"
  shows "z = x + y" "unat z = unat x + unat y" "unat x + unat y < 2 ^ LENGTH('a)"
  using assms by (auto simp: checked_add_def unat_add_no_overflow split: if_splits)

lemma checked_add_eq_None:
  fixes x y :: "'a::len word"
  shows "checked_add x y = None \<longleftrightarrow> 2 ^ LENGTH('a) \<le> unat x + unat y"
  by (simp add: checked_add_def not_less)

lemma checked_add_1_gt: "checked_add x (1 :: 'a::len word) = Some z \<Longrightarrow> x < z"
  by (drule checked_add_SomeD(2)) (simp add: word_less_nat_alt)

lemma add_ovf_Checked_Ret [simp]:
  "add_ovf Checked x y = Ret z \<longleftrightarrow> checked_add x y = Some z"
  by (simp add: add_ovf_def split: option.splits)

lemma add_ovf_Checked:
  fixes x y :: "'a::len word"
  shows "add_ovf Checked x y =
    (if unat x + unat y < 2 ^ LENGTH('a) then Ret (x + y) else Panic Arith_Overflow)"
  by (simp add: add_ovf_def checked_add_def)

lemma add_ovf_Wrapping [simp]: "add_ovf Wrapping x y = Ret (x + y)"
  by (auto simp: add_ovf_def checked_add_def)

lemma add_ovf_fits:
  fixes x y :: "'a::len word"
  shows "unat x + unat y < 2 ^ LENGTH('a) \<Longrightarrow> add_ovf m x y = Ret (x + y)"
  by (simp add: add_ovf_def checked_add_def)

lemma add_ovf_RetD: "add_ovf m x y = Ret z \<Longrightarrow> z = x + y"
  by (cases m) (auto dest: checked_add_SomeD)

lemma try_from_SomeD:
  "u32_try_from n = Some w \<Longrightarrow> unat w = n"
  "u64_try_from n = Some v \<Longrightarrow> unat v = n"
  by (auto simp: u32_try_from_def u64_try_from_def unat_of_nat split: if_splits)

lemma try_from_fits:
  "n < 2 ^ 32 \<Longrightarrow> \<exists>w. u32_try_from n = Some w"
  "n < 2 ^ 64 \<Longrightarrow> \<exists>v. u64_try_from n = Some v"
  by (simp_all add: u32_try_from_def u64_try_from_def)

lemma word_max_iff_overflow:
  fixes x :: "'a::len word"
  shows "2 ^ LENGTH('a) \<le> unat x + 1 \<longleftrightarrow> x = - 1"
proof
  assume le: "2 ^ LENGTH('a) \<le> unat x + 1"
  have "unat x < 2 ^ LENGTH('a)" by simp
  then have "unat x = 2 ^ LENGTH('a) - 1" using le by linarith
  then have "unat x = unat (- 1 :: 'a word)"
    by (simp add: unsigned_minus_1_eq_mask mask_eq_exp_minus_1)
  then show "x = - 1" by (simp add: word_unat_eq_iff)
next
  assume "x = - 1"
  then show "2 ^ LENGTH('a) \<le> unat x + 1"
    by (simp add: unsigned_minus_1_eq_mask mask_eq_exp_minus_1)
qed

lemma checked_add_1_None [simp]:
  "checked_add x (1 :: 'a::len word) = None \<longleftrightarrow> x = - 1"
  using word_max_iff_overflow [of x] by (simp add: checked_add_eq_None)

lemma word_plus_1_gt_iff: "x < x + (1 :: 'a::len word) \<longleftrightarrow> x \<noteq> - 1"
proof (cases "x = - 1")
  case False
  then obtain z where "checked_add x 1 = Some z"
    by (cases "checked_add x 1") auto
  then show ?thesis using False checked_add_1_gt checked_add_SomeD(1) by blast
qed simp

lemma uint_max: "uint (max x y) = max (uint x) (uint (y :: 'a::len word))"
  by (simp add: max_def word_le_def)

lemma replicate_less_replicate [simp]:
  "replicate n x < replicate n y \<longleftrightarrow> 0 < n \<and> x < (y :: 'a::linorder)"
  by (induction n) auto

section \<open>Formatting\<close>

text \<open>The decimal rendering of an unsigned integer by Rust's \<^verbatim>\<open>{}\<close>.\<close>

definition digit_char :: "nat \<Rightarrow> char" where
  "digit_char d = ''0123456789'' ! d"

fun show_nat :: "nat \<Rightarrow> string" where
  "show_nat n = (if n < 10 then [digit_char n] else show_nat (n div 10) @ [digit_char (n mod 10)])"

declare show_nat.simps [simp del]

lemma show_nat_not_Nil [simp]: "show_nat n \<noteq> []"
  by (subst show_nat.simps) simp

section \<open>Big-endian bytes\<close>

definition be_nat :: "bytes \<Rightarrow> nat" where
  "be_nat bs = foldl (\<lambda>n b. n * 256 + unat b) 0 bs"

text \<open>Rust's \<^verbatim>\<open>u32::to_be_bytes\<close>.\<close>

definition u32_to_be_bytes :: "u32 \<Rightarrow> bytes" where
  "u32_to_be_bytes w =
     [ucast (drop_bit 24 w), ucast (drop_bit 16 w), ucast (drop_bit 8 w), ucast w]"

lemma be_nat_snoc: "be_nat (bs @ [b]) = be_nat bs * 256 + unat b"
  by (simp add: be_nat_def)

lemma be_nat_bound: "be_nat bs < 256 ^ length bs"
proof (induction bs rule: rev_induct)
  case (snoc b bs)
  have "be_nat bs + 1 \<le> 256 ^ length bs" using snoc by simp
  then have "(be_nat bs + 1) * 256 \<le> 256 ^ length bs * 256" by (rule mult_le_mono1)
  moreover have "unat b < 2 ^ LENGTH(8)" by (rule unsigned_less)
  ultimately show ?case by (simp add: be_nat_snoc)
qed (simp add: be_nat_def)

lemma length_u32_to_be_bytes [simp]: "length (u32_to_be_bytes w) = 4"
  by (simp add: u32_to_be_bytes_def)

lemma be_nat_u32_to_be_bytes [simp]: "be_nat (u32_to_be_bytes w) = unat w"
proof -
  have digits: "n = ((n div 16777216 * 256 + n div 65536 mod 256) * 256 +
      n div 256 mod 256) * 256 + n mod 256" for n :: nat
  proof -
    have "n div 65536 = n div 256 div 256" "n div 16777216 = n div 65536 div 256"
      by (simp_all flip: div_mult2_eq)
    then show ?thesis by (metis div_mult_mod_eq)
  qed
  have "unat w < 2 ^ LENGTH(32)" by (rule unsigned_less)
  then have "unat w div 16777216 mod 256 = unat w div 16777216" by simp
  with digits [of "unat w"] show ?thesis
    by (simp add: be_nat_def u32_to_be_bytes_def unsigned_ucast_eq unat_drop_bit_eq drop_bit_eq_div take_bit_eq_mod unat_div_distrib)
qed

end
