(* ===== verification/Collections.thy ===== *)
theory Collections
  imports Prelude "HOL-Library.AList"
begin

text \<open>
  The collections of Rust's standard library the sources use, as executable lists.
  A \<^verbatim>\<open>HashMap\<close> is an association list with distinct keys, its order being one of the
  iteration orders the program may see; equality of hash maps (\<^verbatim>\<open>PartialEq\<close>) ignores
  it, and so does every result about them. A \<^verbatim>\<open>BTreeMap\<close> is an association list with
  strictly ascending keys, a \<^verbatim>\<open>BTreeSet\<close> a strictly ascending list: iteration is in
  key order and equality is that of the lists. The entry API
  (\<^verbatim>\<open>entry(k).or_insert(d)\<close>, then an update in place) is one operation, whose contract is
  the locale \<open>entry_map\<close>; the loops that merge two collections are proved once in it.
\<close>

section \<open>HashMap\<close>

type_synonym ('k, 'v) hashmap = "('k \<times> 'v) list"

definition hm_ok :: "('k, 'v) hashmap \<Rightarrow> bool" where
  "hm_ok m \<longleftrightarrow> distinct (map fst m)"

definition hm_insert :: "'k \<Rightarrow> 'v \<Rightarrow> ('k, 'v) hashmap \<Rightarrow> ('k, 'v) hashmap" where
  "hm_insert k v m = AList.update k v m"

definition hm_remove :: "'k \<Rightarrow> ('k, 'v) hashmap \<Rightarrow> ('k, 'v) hashmap" where
  "hm_remove k m = AList.delete k m"

definition entry_or :: "'k \<Rightarrow> 'v \<Rightarrow> ('k \<times> 'v) list \<Rightarrow> 'v" where
  "entry_or k d m = (case map_of m k of None \<Rightarrow> d | Some v \<Rightarrow> v)"

definition hm_upsert :: "'k \<Rightarrow> 'v \<Rightarrow> ('v \<Rightarrow> 'v) \<Rightarrow> ('k, 'v) hashmap \<Rightarrow> ('k, 'v) hashmap" where
  "hm_upsert k d g m = hm_insert k (g (entry_or k d m)) m"

definition hm_eq :: "('v \<Rightarrow> 'v \<Rightarrow> bool) \<Rightarrow> ('k, 'v) hashmap \<Rightarrow> ('k, 'v) hashmap \<Rightarrow> bool" where
  "hm_eq veq m n \<longleftrightarrow>
     length m = length n \<and>
     (\<forall>(k, v) \<in> set m. case map_of n k of None \<Rightarrow> False | Some w \<Rightarrow> veq v w)"

lemma hm_ok_Nil [simp]: "hm_ok []"
  by (simp add: hm_ok_def)

lemma hm_ok_insert [simp]: "hm_ok m \<Longrightarrow> hm_ok (hm_insert k v m)"
  by (simp add: hm_ok_def hm_insert_def distinct_update)

lemma hm_ok_remove [simp]: "hm_ok m \<Longrightarrow> hm_ok (hm_remove k m)"
  by (simp add: hm_ok_def hm_remove_def distinct_delete)

lemma map_of_hm_insert [simp]: "map_of (hm_insert k v m) = (map_of m)(k \<mapsto> v)"
  by (simp add: hm_insert_def update_conv')

lemma map_of_hm_remove [simp]: "map_of (hm_remove k m) = (map_of m)(k := None)"
  by (simp add: hm_remove_def delete_conv')

lemma hm_card_dom: "hm_ok m \<Longrightarrow> card (dom (map_of m)) = length m"
  by (metis distinct_card dom_map_of_conv_image_fst hm_ok_def length_map list.set_map)

lemma hm_eq_iff:
  assumes "hm_ok m" "hm_ok n"
  shows "hm_eq (=) m n \<longleftrightarrow> map_of m = map_of n"
proof
  assume eq: "hm_eq (=) m n"
  have "map_of n k = Some v" if "map_of m k = Some v" for k v
    using eq map_of_SomeD [OF that] by (auto simp: hm_eq_def split: option.splits)
  then have sub: "map_of m \<subseteq>\<^sub>m map_of n"
    by (auto simp: map_le_def dom_def)
  have "dom (map_of m) = dom (map_of n)"
    using eq map_le_implies_dom_le [OF sub] assms
    by (intro card_subset_eq) (auto simp: hm_eq_def finite_dom_map_of hm_card_dom)
  then show "map_of m = map_of n"
    using sub by (intro map_le_antisym) (auto simp: map_le_def)
next
  assume eq: "map_of m = map_of n"
  have "length m = length n"
    using arg_cong [OF eq, of "\<lambda>f. card (dom f)"] assms
    by (simp add: hm_card_dom)
  then show "hm_eq (=) m n"
    using assms(1)
    by (auto simp: hm_eq_def hm_ok_def map_of_is_SomeI simp flip: eq split: option.splits
        dest: eq_key_imp_eq_value)
qed

section \<open>BTreeMap\<close>

type_synonym ('k, 'v) btreemap = "('k \<times> 'v) list"

definition bt_ok :: "('k::linorder, 'v) btreemap \<Rightarrow> bool" where
  "bt_ok m \<longleftrightarrow> sorted_wrt (<) (map fst m)"

fun bt_insert :: "'k::linorder \<Rightarrow> 'v \<Rightarrow> ('k, 'v) btreemap \<Rightarrow> ('k, 'v) btreemap" where
  "bt_insert k v [] = [(k, v)]"
| "bt_insert k v ((k', v') # m) =
     (if k < k' then (k, v) # (k', v') # m
      else if k = k' then (k, v) # m
      else (k', v') # bt_insert k v m)"

definition bt_upsert ::
  "'k::linorder \<Rightarrow> 'v \<Rightarrow> ('v \<Rightarrow> 'v) \<Rightarrow> ('k, 'v) btreemap \<Rightarrow> ('k, 'v) btreemap" where
  "bt_upsert k d g m = bt_insert k (g (entry_or k d m)) m"

definition bt_after :: "'k::linorder \<Rightarrow> ('k, 'v) btreemap \<Rightarrow> ('k, 'v) btreemap" where
  "bt_after k m = filter (\<lambda>(k', v). k < k') m"

lemma bt_ok_Nil [simp]: "bt_ok []"
  by (simp add: bt_ok_def)

lemma bt_ok_Cons: "bt_ok ((k, v) # m) \<longleftrightarrow> (\<forall>k' \<in> fst ` set m. k < k') \<and> bt_ok m"
  by (auto simp: bt_ok_def)

lemma bt_ok_distinct: "bt_ok m \<Longrightarrow> distinct (map fst m)"
  by (simp add: bt_ok_def strict_sorted_iff)

lemma map_of_bt_insert [simp]: "map_of (bt_insert k v m) = (map_of m)(k \<mapsto> v)"
  by (induction m) (auto simp: fun_eq_iff)

lemma keys_bt_insert [simp]: "fst ` set (bt_insert k v m) = insert k (fst ` set m)"
  by (simp flip: dom_map_of_conv_image_fst)

lemma bt_ok_insert [simp]: "bt_ok m \<Longrightarrow> bt_ok (bt_insert k v m)"
proof (induction m)
  case (Cons e m)
  then show ?case
    by (cases e) (auto simp: bt_ok_Cons simp del: ball_simps image_iff intro: less_trans)
qed (simp add: bt_ok_Cons)

lemma bt_ok_after [simp]: "bt_ok m \<Longrightarrow> bt_ok (bt_after k m)"
  by (induction m) (auto simp: bt_ok_Cons bt_after_def)

lemma set_bt_after: "set (bt_after k m) = {(k', v) \<in> set m. k < k'}"
  by (auto simp: bt_after_def)

lemma map_of_bt_after: "map_of (bt_after k m) h = (if k < h then map_of m h else None)"
  by (induction m) (auto simp: bt_after_def)

lemma bt_notin_less: "bt_ok ((k, v) # m) \<Longrightarrow> k' \<le> k \<Longrightarrow> map_of m k' = None"
  by (auto simp: bt_ok_Cons map_of_eq_None_iff)

lemma map_of_keys_self:
  "distinct (map fst m) \<Longrightarrow> map (\<lambda>k. (k, the (map_of m k))) (map fst m) = m"
  unfolding map_map by (rule map_idI) auto

text \<open>Two ordered maps with the same content are the same list.\<close>

lemma bt_ext:
  assumes "bt_ok m" "bt_ok n" "map_of m = map_of n"
  shows "m = n"
proof -
  have "map fst m = map fst n"
    using assms by (intro strict_sorted_equal)
      (auto simp: bt_ok_def simp flip: dom_map_of_conv_image_fst)
  then show ?thesis
    using assms by (metis bt_ok_distinct map_of_keys_self)
qed

section \<open>BTreeSet\<close>

definition bs_ok :: "'a::linorder list \<Rightarrow> bool" where
  "bs_ok s \<longleftrightarrow> sorted_wrt (<) s"

definition bs_insert :: "'a::linorder \<Rightarrow> 'a list \<Rightarrow> 'a list" where
  "bs_insert x s = insort_insert x s"

lemma bs_ok_Nil [simp]: "bs_ok []"
  by (simp add: bs_ok_def)

lemma set_bs_insert [simp]: "set (bs_insert x s) = insert x (set s)"
  by (simp add: bs_insert_def set_insort_insert)

lemma bs_ok_insert [simp]: "bs_ok s \<Longrightarrow> bs_ok (bs_insert x s)"
  by (simp add: bs_ok_def bs_insert_def strict_sorted_iff sorted_insort_insert distinct_insort_insert)

lemma bs_ext: "bs_ok s \<Longrightarrow> bs_ok t \<Longrightarrow> set s = set t \<Longrightarrow> s = t"
  by (auto simp: bs_ok_def intro: strict_sorted_equal)

lemma set_fold_bs_insert [simp]: "set (fold bs_insert xs s) = set xs \<union> set s"
  by (induction xs arbitrary: s) auto

lemma bs_ok_fold_insert [simp]: "bs_ok s \<Longrightarrow> bs_ok (fold bs_insert xs s)"
  by (induction xs arbitrary: s) auto

section \<open>The entry API as an interface\<close>

locale entry_map =
  fixes get :: "'m \<Rightarrow> 'k \<Rightarrow> 'v option"
    and upsert :: "'k \<Rightarrow> 'v \<Rightarrow> ('v \<Rightarrow> 'v) \<Rightarrow> 'm \<Rightarrow> 'm"
    and ok :: "'m \<Rightarrow> bool"
  assumes get_upsert: "ok m \<Longrightarrow>
      get (upsert k d g m) k' =
        (if k' = k then Some (g (case get m k of None \<Rightarrow> d | Some v \<Rightarrow> v)) else get m k')"
    and ok_upsert: "ok m \<Longrightarrow> ok (upsert k d g m)"
begin

lemma ok_merge_loop: "ok m \<Longrightarrow> ok (fold (\<lambda>(k, w). upsert k d (g w)) es m)"
  by (induction es arbitrary: m) (auto simp: ok_upsert)

lemma get_merge_loop:
  assumes "ok m" "distinct (map fst es)"
  shows "get (fold (\<lambda>(k, w). upsert k d (g w)) es m) k =
    (case map_of es k of
       None \<Rightarrow> get m k
     | Some w \<Rightarrow> Some (g w (case get m k of None \<Rightarrow> d | Some v \<Rightarrow> v)))"
  using assms
proof (induction es arbitrary: m)
  case (Cons e es)
  obtain k' w' where e: "e = (k', w')" by (cases e)
  have "map_of es k' = None"
    using Cons.prems e by (simp add: map_of_eq_None_iff)
  then show ?case
    using Cons.IH [OF ok_upsert] Cons.prems
    by (auto simp: e get_upsert split: option.splits)
qed simp

end

interpretation hm: entry_map "map_of :: ('k \<times> 'v) list \<Rightarrow> 'k \<Rightarrow> 'v option" hm_upsert hm_ok
  by unfold_locales (auto simp: hm_upsert_def entry_or_def)

interpretation bt: entry_map "map_of :: ('k::linorder \<times> 'v) list \<Rightarrow> 'k \<Rightarrow> 'v option" bt_upsert bt_ok
  by unfold_locales (auto simp: bt_upsert_def entry_or_def)

section \<open>Joining two maps pointwise\<close>

text \<open>The content of a map after a merge loop, as a function of the two contents.\<close>

definition map_join :: "('v \<Rightarrow> 'v \<Rightarrow> 'v) \<Rightarrow> ('k \<rightharpoonup> 'v) \<Rightarrow> ('k \<rightharpoonup> 'v) \<Rightarrow> 'k \<rightharpoonup> 'v" where
  "map_join f m n k =
     (case m k of
        None \<Rightarrow> n k
      | Some v \<Rightarrow> (case n k of None \<Rightarrow> Some v | Some w \<Rightarrow> Some (f v w)))"

lemma map_join_comm: "(\<And>v w. f v w = f w v) \<Longrightarrow> map_join f m n = map_join f n m"
  by (rule ext) (simp add: map_join_def split: option.splits)

lemma map_join_assoc:
  "(\<And>u v w. f (f u v) w = f u (f v w)) \<Longrightarrow>
   map_join f (map_join f l m) n = map_join f l (map_join f m n)"
  by (rule ext) (simp add: map_join_def split: option.splits)

lemma map_join_idem: "(\<And>v. f v v = v) \<Longrightarrow> map_join f m m = m"
  by (rule ext) (simp add: map_join_def split: option.splits)

lemma map_join_max:
  fixes l m n :: "'k \<rightharpoonup> 'v::linorder"
  shows "map_join max m n = map_join max n m"
    and "map_join max (map_join max l m) n = map_join max l (map_join max m n)"
    and "map_join max m m = m"
  by (rule map_join_comm map_join_assoc map_join_idem; simp add: ac_simps)+

lemma dom_map_join [simp]: "dom (map_join f m n) = dom m \<union> dom n"
  by (auto simp: map_join_def dom_def split: option.splits)

lemma hm_merge_loop:
  assumes "hm_ok m" "hm_ok n" "\<And>w. g w d = w"
  shows "map_of (fold (\<lambda>(k, w). hm_upsert k d (g w)) n m) = map_join (\<lambda>v w. g w v) (map_of m) (map_of n)"
  using assms by (auto simp: fun_eq_iff hm.get_merge_loop hm_ok_def map_join_def split: option.splits)

lemma bt_merge_loop:
  assumes "bt_ok m" "bt_ok n" "\<And>w. g w d = w"
  shows "map_of (fold (\<lambda>(k, w). bt_upsert k d (g w)) n m) = map_join (\<lambda>v w. g w v) (map_of m) (map_of n)"
  using assms
  by (auto simp: fun_eq_iff bt.get_merge_loop bt_ok_distinct map_join_def split: option.splits)

end
