(* ===== verification/Hlc.thy ===== *)
theory Hlc
  imports Prelude
begin

text \<open>
  The hybrid logical clock of \<^verbatim>\<open>crates/mercury-crdt/src/hlc.rs\<close>: the clock, its total
  order, \<^verbatim>\<open>now\<close>, \<^verbatim>\<open>tick\<close> and \<^verbatim>\<open>merge\<close>. The reading of the system clock is an
  argument (nanoseconds since the Unix epoch, any integer, so a clock may also run
  backwards), and the \<^verbatim>\<open>+ 1\<close> of \<^verbatim>\<open>merge\<close> depends on the overflow behaviour of the build.
\<close>

section \<open>The clock and its order\<close>

record hlc =
  wall_clock_ms :: u64
  counter :: u32
  node_id :: bytes16

text \<open>\<^verbatim>\<open>std::cmp::Ordering\<close>, with \<^verbatim>\<open>cmp\<close> on a totally ordered type and \<^verbatim>\<open>then\<close>.\<close>

datatype ordering = Less | Equal | Greater

definition cmp :: "'a::linorder \<Rightarrow> 'a \<Rightarrow> ordering" where
  "cmp a b = (if a < b then Less else if a = b then Equal else Greater)"

fun ordering_then :: "ordering \<Rightarrow> ordering \<Rightarrow> ordering" where
  "ordering_then Equal o2 = o2"
| "ordering_then o1 o2 = o1"

definition hlc_cmp :: "hlc \<Rightarrow> hlc \<Rightarrow> ordering" where
  "hlc_cmp a b =
     ordering_then
       (ordering_then (cmp (wall_clock_ms a) (wall_clock_ms b)) (cmp (counter a) (counter b)))
       (cmp (node_id a) (node_id b))"

text \<open>
  The order of the library's class \<open>linorder\<close>, on the fields in order, so that the sorted
  collections and their lemmas apply to clocks; \<open>hlc_cmp_order\<close> below relates it to the
  code's comparison.
\<close>

definition hlc_key :: "'a hlc_scheme \<Rightarrow> u64 \<times> u32 \<times> bytes16 \<times> 'a" where
  "hlc_key h = (wall_clock_ms h, counter h, node_id h, hlc.more h)"

lemma hlc_key_inject: "hlc_key a = hlc_key b \<longleftrightarrow> a = b"
  by (cases a; cases b) (auto simp: hlc_key_def)

instantiation hlc_ext :: (linorder) linorder
begin

definition less_eq_hlc_ext :: "'a hlc_scheme \<Rightarrow> 'a hlc_scheme \<Rightarrow> bool" where
  "less_eq_hlc_ext a b \<longleftrightarrow> hlc_key a \<le> hlc_key b"

definition less_hlc_ext :: "'a hlc_scheme \<Rightarrow> 'a hlc_scheme \<Rightarrow> bool" where
  "less_hlc_ext a b \<longleftrightarrow> hlc_key a < hlc_key b"

instance
  by standard (auto simp: less_eq_hlc_ext_def less_hlc_ext_def hlc_key_inject less_le_not_le)

end

lemma hlc_less_iff:
  fixes a b :: hlc
  shows "a < b \<longleftrightarrow>
    wall_clock_ms a < wall_clock_ms b \<or>
    wall_clock_ms a = wall_clock_ms b \<and>
      (counter a < counter b \<or> counter a = counter b \<and> node_id a < node_id b)"
  by (auto simp: less_hlc_ext_def hlc_key_def less_prod_def)

text \<open>The part of a clock that orders it before any node id is compared.\<close>

definition stamp :: "hlc \<Rightarrow> u64 \<times> u32" where
  "stamp h = (wall_clock_ms h, counter h)"

lemma stamp_less_imp: "stamp a < stamp b \<Longrightarrow> a < b"
  by (auto simp: stamp_def hlc_less_iff)

lemma stamp_less_iff:
  "stamp a < stamp b \<longleftrightarrow>
    wall_clock_ms a < wall_clock_ms b \<or>
    wall_clock_ms a = wall_clock_ms b \<and> counter a < counter b"
  by (auto simp: stamp_def)

lemma less_imp_stamp_le: "a < b \<Longrightarrow> stamp a \<le> stamp b"
  by (auto simp: stamp_def hlc_less_iff)

section \<open>Operations\<close>

definition system_time_ms :: "int \<Rightarrow> u64 exec" where
  "system_time_ms t =
     (if t < 0 then Panic (Expect_Failed ''system clock before epoch'')
      else expect ''system time overflows u64'' (u64_try_from (nat (t div 1000000))))"

definition hlc_now :: "int \<Rightarrow> bytes16 \<Rightarrow> hlc exec" where
  "hlc_now t node =
     exec_bind (system_time_ms t)
       (\<lambda>ms. Ret \<lparr>wall_clock_ms = ms, counter = 0, node_id = node\<rparr>)"

definition hlc_tick :: "int \<Rightarrow> hlc \<Rightarrow> hlc exec" where
  "hlc_tick t h =
     exec_bind (system_time_ms t) (\<lambda>now.
       if now > wall_clock_ms h
       then Ret (h\<lparr>wall_clock_ms := now, counter := 0\<rparr>)
       else exec_bind (expect ''HLC counter overflow'' (checked_add (counter h) 1))
              (\<lambda>c. Ret (h\<lparr>counter := c\<rparr>)))"

definition hlc_merge :: "overflow \<Rightarrow> int \<Rightarrow> hlc \<Rightarrow> hlc \<Rightarrow> hlc exec" where
  "hlc_merge m t h r =
     exec_bind (system_time_ms t) (\<lambda>now.
       let max_wall = max (max now (wall_clock_ms h)) (wall_clock_ms r) in
       exec_bind
         (if max_wall = wall_clock_ms h \<and> max_wall = wall_clock_ms r
          then add_ovf m (max (counter h) (counter r)) 1
          else if max_wall = wall_clock_ms h then add_ovf m (counter h) 1
          else if max_wall = wall_clock_ms r then add_ovf m (counter r) 1
          else Ret 0)
         (\<lambda>c. Ret (h\<lparr>counter := c, wall_clock_ms := max_wall\<rparr>)))"

lemmas [rust_defs] = system_time_ms_def hlc_now_def hlc_tick_def hlc_merge_def

lemma system_time_ms_Ret:
  "system_time_ms t = Ret now \<longleftrightarrow>
    0 \<le> t \<and> t div 1000000 < 2 ^ 64 \<and> now = of_nat (nat (t div 1000000))"
proof (cases "t < 0")
  case False
  then have "nat (t div 1000000) < 2 ^ 64 \<longleftrightarrow> t div 1000000 < 2 ^ 64"
    by (simp add: nat_less_iff pos_imp_zdiv_nonneg_iff)
  with False show ?thesis
    by (auto simp: system_time_ms_def u64_try_from_def)
qed (simp add: system_time_ms_def)

lemma unat_system_time: "system_time_ms t = Ret now \<Longrightarrow> uint now = t div 1000000"
  by (auto simp: system_time_ms_Ret uint_word_of_int take_bit_int_eq_self
      pos_imp_zdiv_nonneg_iff)

section \<open>Order\<close>

text \<open>
  The comparison of the code is a linear order consistent with equality: it answers Less,
  Equal or Greater exactly as the lexicographic order of wall clock, counter and node id.
\<close>

theorem hlc_cmp_order:
  "(hlc_cmp a b = Less \<longleftrightarrow> a < b) \<and> (hlc_cmp a b = Equal \<longleftrightarrow> a = b) \<and>
   (hlc_cmp a b = Greater \<longleftrightarrow> b < a)"
  by (auto simp: hlc_cmp_def cmp_def hlc_less_iff)


section \<open>Ticks and merges\<close>

lemma hlc_now_node: "hlc_now t i = Ret h \<Longrightarrow> node_id h = i"
  by (auto simp: hlc_now_def)

lemma hlc_tick_time: "hlc_tick t h = Ret h' \<Longrightarrow> \<exists>now. system_time_ms t = Ret now"
  by (auto simp: hlc_tick_def)

lemma hlc_tick_step:
  assumes "system_time_ms t = Ret now" "hlc_tick t h = Ret h'"
  shows "wall_clock_ms h' = max now (wall_clock_ms h) \<and> node_id h' = node_id h \<and>
    stamp h < stamp h'"
proof (cases "now > wall_clock_ms h")
  case True
  then show ?thesis using assms by (auto simp: hlc_tick_def stamp_less_iff max_def)
next
  case False
  then obtain c where "checked_add (counter h) 1 = Some c" "h' = h\<lparr>counter := c\<rparr>"
    using assms by (auto simp: hlc_tick_def)
  with False show ?thesis by (auto simp: stamp_less_iff max_def checked_add_1_gt)
qed

lemma hlc_merge_time: "hlc_merge m t h r = Ret h' \<Longrightarrow> \<exists>now. system_time_ms t = Ret now"
  by (auto simp: hlc_merge_def)

lemma hlc_merge_frame:
  assumes "system_time_ms t = Ret now" "hlc_merge m t h r = Ret h'"
  shows "wall_clock_ms h' = max (max now (wall_clock_ms h)) (wall_clock_ms r) \<and>
    node_id h' = node_id h"
  using assms by (auto simp: hlc_merge_def Let_def)

text \<open>
  What \<^verbatim>\<open>merge\<close> makes of the two counters, given the larger wall clock: the counter it
  increments, if any.
\<close>

definition merge_base :: "u64 \<Rightarrow> hlc \<Rightarrow> hlc \<Rightarrow> u32 option" where
  "merge_base mw h r =
     (if mw = wall_clock_ms h \<and> mw = wall_clock_ms r then Some (max (counter h) (counter r))
      else if mw = wall_clock_ms h then Some (counter h)
      else if mw = wall_clock_ms r then Some (counter r)
      else None)"

lemma hlc_merge_base:
  "hlc_merge m t h r =
     exec_bind (system_time_ms t) (\<lambda>now.
       let mw = max (max now (wall_clock_ms h)) (wall_clock_ms r) in
       exec_bind (case merge_base mw h r of None \<Rightarrow> Ret 0 | Some b \<Rightarrow> add_ovf m b 1)
         (\<lambda>c. Ret (h\<lparr>counter := c, wall_clock_ms := mw\<rparr>)))"
  by (cases "system_time_ms t") (auto simp: hlc_merge_def merge_base_def Let_def)

lemma merge_base_stamp:
  assumes "mw = max (max now (wall_clock_ms h)) (wall_clock_ms r)"
    and "h' = h\<lparr>counter := c, wall_clock_ms := mw\<rparr>"
  shows "stamp h < stamp h' \<and> stamp r < stamp h' \<longleftrightarrow>
    (case merge_base mw h r of None \<Rightarrow> True | Some b \<Rightarrow> b < c)"
proof -
  have "wall_clock_ms h \<le> mw" "wall_clock_ms r \<le> mw"
    by (simp_all add: assms(1) le_max_iff_disj)
  then show ?thesis
    by (auto simp: assms(2) merge_base_def stamp_less_iff)
qed

lemma hlc_merge_Checked_stamp:
  assumes "hlc_merge Checked t h r = Ret h'"
  shows "stamp h < stamp h' \<and> stamp r < stamp h'"
proof -
  obtain now where "system_time_ms t = Ret now"
    using assms by (auto dest: hlc_merge_time)
  then obtain mw c where mw: "mw = max (max now (wall_clock_ms h)) (wall_clock_ms r)"
    and h': "h' = h\<lparr>counter := c, wall_clock_ms := mw\<rparr>"
    and c: "(case merge_base mw h r of None \<Rightarrow> Ret 0 | Some b \<Rightarrow> add_ovf Checked b 1) = Ret c"
    using assms by (auto simp: hlc_merge_base Let_def)
  show ?thesis
    unfolding merge_base_stamp [OF mw h']
    using c by (auto split: option.splits dest: checked_add_1_gt)
qed

lemma hlc_tick_counter:
  assumes "hlc_tick t h = Ret h'"
  shows "unat (counter h') \<le> Suc (unat (counter h))"
proof -
  obtain now where now: "system_time_ms t = Ret now" using assms by (auto dest: hlc_tick_time)
  show ?thesis
  proof (cases "now > wall_clock_ms h")
    case False
    then obtain c where c: "checked_add (counter h) 1 = Some c" "h' = h\<lparr>counter := c\<rparr>"
      using assms now by (auto simp: hlc_tick_def)
    show ?thesis using checked_add_SomeD(2) [OF c(1)] c(2) by simp
  qed (use assms now in \<open>auto simp: hlc_tick_def\<close>)
qed

lemma hlc_now_counter: "hlc_now t i = Ret h \<Longrightarrow> counter h = 0"
  by (auto simp: hlc_now_def)

text \<open>Counters below the maximum do not wrap: both builds merge alike.\<close>

lemma hlc_merge_small:
  assumes "hlc_merge m t h r = Ret h'" "unat (counter h) \<le> n" "unat (counter r) \<le> n" "Suc n < 2 ^ 32"
  shows "hlc_merge Checked t h r = Ret h' \<and> unat (counter h') \<le> Suc n"
proof -
  obtain now where now: "system_time_ms t = Ret now"
    using assms(1) by (auto dest: hlc_merge_time)
  let ?mw = "max (max now (wall_clock_ms h)) (wall_clock_ms r)"
  have fits: "add_ovf k b 1 = Ret (b + 1)" "unat (b + 1) \<le> Suc n" if "merge_base ?mw h r = Some b" for b k
  proof -
    have "unat b \<le> n" using that assms(2,3) by (auto simp: merge_base_def max_def split: if_splits)
    then have small: "unat b + unat (1 :: u32) < 2 ^ LENGTH(32)" using assms(4) by simp
    show "add_ovf k b 1 = Ret (b + 1)" by (rule add_ovf_fits [OF small])
    show "unat (b + 1) \<le> Suc n" using unat_add_no_overflow [OF small] \<open>unat b \<le> n\<close> by simp
  qed
  show ?thesis
    using assms(1) fits by (cases "merge_base ?mw h r") (auto simp: hlc_merge_base now Let_def)
qed

section \<open>Correctness of a clock\<close>

text \<open>
  A tick that does not panic moves the clock strictly forward in the total order, keeps its
  node, and sets the wall clock to the later of the physical reading and the old value, so it
  never goes back even when the system clock does.
\<close>

theorem hlc_tick_advances:
  assumes "hlc_tick t h = Ret h'"
  shows "h < h' \<and> node_id h' = node_id h \<and>
    uint (wall_clock_ms h') = max (t div 1000000) (uint (wall_clock_ms h))"
proof -
  obtain now where now: "system_time_ms t = Ret now"
    using assms by (auto dest: hlc_tick_time)
  show ?thesis
    using hlc_tick_step [OF now assms] unat_system_time [OF now] stamp_less_imp
    by (simp add: uint_max)
qed

theorem hlc_tick_advances_witness:
  "let h = \<lparr>wall_clock_ms = 7, counter = 3, node_id = replicate 16 1\<rparr>;
       h' = \<lparr>wall_clock_ms = 7, counter = 4, node_id = replicate 16 1\<rparr>
   in hlc_tick 5000000 h = Ret h' \<and> h < h' \<and> node_id h' = node_id h"
proof -
  let ?h = "\<lparr>wall_clock_ms = 7, counter = 3, node_id = replicate 16 1\<rparr>"
  let ?h' = "\<lparr>wall_clock_ms = 7, counter = 4, node_id = replicate 16 1\<rparr>"
  have "hlc_tick 5000000 ?h = Ret ?h'"
    by (simp add: hlc_tick_def system_time_ms_def u64_try_from_def checked_add_def)
  from hlc_tick_advances [OF this] this show ?thesis by (simp add: Let_def)
qed

text \<open>
  C35. A tick returns exactly when the system clock can be read (not before the epoch, within 64
  bits of milliseconds) and either time has moved on or the logical counter is below its
  maximum; every other call panics.
\<close>

theorem hlc_tick_returns:
  "(\<exists>h'. hlc_tick t h = Ret h') \<longleftrightarrow>
    0 \<le> t \<and> t div 1000000 < 2 ^ 64 \<and>
    \<not> (t div 1000000 \<le> uint (wall_clock_ms h) \<and> counter h = - 1)"
proof (cases "\<exists>now. system_time_ms t = Ret now")
  case True
  then obtain now where now: "system_time_ms t = Ret now" by blast
  have gt: "now > wall_clock_ms h \<longleftrightarrow> uint (wall_clock_ms h) < t div 1000000"
    using unat_system_time [OF now] by (simp add: word_less_def)
  have "counter h = - 1 \<longleftrightarrow> checked_add (counter h) 1 = None" by simp
  then have "(\<exists>h'. hlc_tick t h = Ret h') \<longleftrightarrow> now > wall_clock_ms h \<or> counter h \<noteq> - 1"
    by (cases "checked_add (counter h) 1") (auto simp: hlc_tick_def now)
  with gt now show ?thesis by (auto simp: system_time_ms_Ret not_less)
next
  case False
  then show ?thesis by (auto simp: system_time_ms_Ret dest!: hlc_tick_time)
qed

text \<open>
  In a build with overflow checks, merging a received clock that does not panic gives a
  clock strictly after both the local and the remote one, at the local node, whose wall clock
  is the latest of the three readings.
\<close>

theorem hlc_merge_dominates:
  assumes "hlc_merge Checked t h r = Ret h'"
  shows "h < h' \<and> r < h' \<and> node_id h' = node_id h \<and>
    uint (wall_clock_ms h') =
      max (t div 1000000) (max (uint (wall_clock_ms h)) (uint (wall_clock_ms r)))"
proof -
  obtain now where now: "system_time_ms t = Ret now"
    using assms by (auto dest: hlc_merge_time)
  show ?thesis
    using hlc_merge_frame [OF now assms] hlc_merge_Checked_stamp [OF assms]
      unat_system_time [OF now] stamp_less_imp
    by (simp add: uint_max max.assoc)
qed

theorem hlc_merge_dominates_witness:
  "let h = \<lparr>wall_clock_ms = 7, counter = 3, node_id = replicate 16 1\<rparr>;
       r = \<lparr>wall_clock_ms = 9, counter = 5, node_id = replicate 16 2\<rparr>;
       h' = \<lparr>wall_clock_ms = 9, counter = 6, node_id = replicate 16 1\<rparr>
   in hlc_merge Checked 8000000 h r = Ret h' \<and> h < h' \<and> r < h'"
proof -
  let ?h = "\<lparr>wall_clock_ms = 7, counter = 3, node_id = replicate 16 1\<rparr>"
  let ?r = "\<lparr>wall_clock_ms = 9, counter = 5, node_id = replicate 16 2\<rparr>"
  let ?h' = "\<lparr>wall_clock_ms = 9, counter = 6, node_id = replicate 16 1\<rparr>"
  have "hlc_merge Checked 8000000 ?h ?r = Ret ?h'"
    by (simp add: hlc_merge_def system_time_ms_def u64_try_from_def add_ovf_def checked_add_def)
  from hlc_merge_dominates [OF this] this show ?thesis by (simp add: Let_def)
qed

lemma merge_base_wraps:
  assumes "merge_base mw h r = Some (- 1)"
    and "wall_clock_ms h' = mw" "counter h' = 0"
  shows "h' < h \<or> h' < r"
  using assms by (auto simp: merge_base_def hlc_less_iff max_def word_gt_0 split: if_splits)

text \<open>
  C22. In a build without overflow checks, \<^verbatim>\<open>merge\<close> never panics on the counter, and its
  result is after both clocks exactly when the checked build would have returned the same
  clock: at the maximal counter it wraps to zero and the clock goes back in the total order
  (\<^verbatim>\<open>tick\<close> guards the same increment with \<^verbatim>\<open>checked_add\<close>).
\<close>

theorem hlc_merge_release:
  assumes "hlc_merge Wrapping t h r = Ret h'"
  shows "h < h' \<and> r < h' \<longleftrightarrow> hlc_merge Checked t h r = Ret h'"
proof
  assume after: "h < h' \<and> r < h'"
  obtain now where now: "system_time_ms t = Ret now"
    using assms by (auto dest: hlc_merge_time)
  let ?mw = "max (max now (wall_clock_ms h)) (wall_clock_ms r)"
  have h': "h' = h\<lparr>counter := (case merge_base ?mw h r of None \<Rightarrow> 0 | Some b \<Rightarrow> b + 1),
      wall_clock_ms := ?mw\<rparr>"
    using assms now by (auto simp: hlc_merge_base Let_def split: option.splits)
  have "merge_base ?mw h r \<noteq> Some (- 1)"
    using merge_base_wraps [of ?mw h r h'] after by (auto simp: h' split: option.splits)
  then have "add_ovf Checked b 1 = Ret (b + 1)" if "merge_base ?mw h r = Some b" for b
    using that by (cases "checked_add b 1") (auto dest: checked_add_SomeD(1))
  then show "hlc_merge Checked t h r = Ret h'"
    using now by (auto simp: hlc_merge_base Let_def h' split: option.splits)
qed (auto dest: hlc_merge_Checked_stamp stamp_less_imp)

theorem hlc_merge_release_witness:
  "let h = \<lparr>wall_clock_ms = 9, counter = 0xFFFFFFFF, node_id = replicate 16 1\<rparr>;
       r = \<lparr>wall_clock_ms = 7, counter = 5, node_id = replicate 16 2\<rparr>;
       h' = \<lparr>wall_clock_ms = 9, counter = 0, node_id = replicate 16 1\<rparr>
   in hlc_merge Wrapping 8000000 h r = Ret h' \<and> h' < h \<and> hlc_merge Checked 8000000 h r \<noteq> Ret h'"
proof -
  let ?h = "\<lparr>wall_clock_ms = 9, counter = 0xFFFFFFFF, node_id = replicate 16 1\<rparr>"
  let ?r = "\<lparr>wall_clock_ms = 7, counter = 5, node_id = replicate 16 2\<rparr>"
  let ?h' = "\<lparr>wall_clock_ms = 9, counter = 0, node_id = replicate 16 1\<rparr>"
  have 1: "hlc_merge Wrapping 8000000 ?h ?r = Ret ?h'"
    by (simp add: hlc_merge_def system_time_ms_def u64_try_from_def)
  have 2: "?h' < ?h" by (simp add: hlc_less_iff)
  then have "\<not> ?h < ?h'" by (rule less_not_sym)
  with hlc_merge_release [OF 1] have "hlc_merge Checked 8000000 ?h ?r \<noteq> Ret ?h'" by blast
  with 1 2 show ?thesis by (simp add: Let_def)
qed

end
