(* ===== verification/Hlc_Cluster.thy ===== *)
theory Hlc_Cluster
  imports Hlc
begin

text \<open>
  A cluster of devices that stamp their events with the clock of \<open>Hlc\<close>: every device owns
  one clock under its own node id (\<^verbatim>\<open>Hlc::now\<close>), a local event or a send ticks it and
  records the clock it reached, a receive merges the clock carried by an earlier event. The
  physical readings are arbitrary at every step. Happens-before is defined on the recorded
  events without looking at their clocks; the results say that the clocks respect it, that no
  two events share a clock, and how far the logical time may run.
\<close>

section \<open>Events and steps\<close>

record event =
  ev_node :: bytes16
  ev_time :: hlc
  ev_from :: "nat option"

record cluster =
  clocks :: "bytes16 \<Rightarrow> hlc"
  trace :: "event list"
  max_reading :: u64

definition init_cluster :: "cluster \<Rightarrow> bool" where
  "init_cluster w \<longleftrightarrow>
     trace w = [] \<and>
     (\<forall>i. \<exists>t. hlc_now t i = Ret (clocks w i) \<and> wall_clock_ms (clocks w i) \<le> max_reading w)"

definition record_event :: "bytes16 \<Rightarrow> hlc \<Rightarrow> nat option \<Rightarrow> u64 \<Rightarrow> cluster \<Rightarrow> cluster" where
  "record_event i h src now w =
     w\<lparr>clocks := (clocks w)(i := h),
       trace := trace w @ [\<lparr>ev_node = i, ev_time = h, ev_from = src\<rparr>],
       max_reading := max (max_reading w) now\<rparr>"

inductive cluster_step :: "overflow \<Rightarrow> cluster \<Rightarrow> cluster \<Rightarrow> bool" for m where
  local_event:
    "system_time_ms t = Ret now \<Longrightarrow> hlc_tick t (clocks w i) = Ret h \<Longrightarrow>
     cluster_step m w (record_event i h None now w)"
| receive_event:
    "system_time_ms t = Ret now \<Longrightarrow> k < length (trace w) \<Longrightarrow>
     hlc_merge m t (clocks w i) (ev_time (trace w ! k)) = Ret h \<Longrightarrow>
     cluster_step m w (record_event i h (Some k) now w)"

inductive cluster_reachable :: "overflow \<Rightarrow> cluster \<Rightarrow> bool" for m where
  cluster_init: "init_cluster w \<Longrightarrow> cluster_reachable m w"
| cluster_next: "cluster_reachable m w \<Longrightarrow> cluster_step m w w' \<Longrightarrow> cluster_reachable m w'"

inductive happens_before :: "event list \<Rightarrow> nat \<Rightarrow> nat \<Rightarrow> bool" for tr where
  program_order:
    "a < b \<Longrightarrow> b < length tr \<Longrightarrow> ev_node (tr ! a) = ev_node (tr ! b) \<Longrightarrow> happens_before tr a b"
| message_order:
    "b < length tr \<Longrightarrow> ev_from (tr ! b) = Some a \<Longrightarrow> happens_before tr a b"
| causal_trans:
    "happens_before tr a b \<Longrightarrow> happens_before tr b c \<Longrightarrow> happens_before tr a c"

section \<open>The invariant\<close>

definition events_ok :: "cluster \<Rightarrow> bool" where
  "events_ok w \<longleftrightarrow>
     (\<forall>e \<in> set (trace w). node_id (ev_time e) = ev_node e \<and> ev_time e \<le> clocks w (ev_node e))"

definition causal_ok :: "event list \<Rightarrow> bool" where
  "causal_ok tr \<longleftrightarrow>
     (\<forall>b < length tr. \<forall>a. (a < b \<and> ev_node (tr ! a) = ev_node (tr ! b) \<or> ev_from (tr ! b) = Some a)
        \<longrightarrow> a < b \<and> ev_time (tr ! a) < ev_time (tr ! b))"

definition cluster_inv :: "cluster \<Rightarrow> bool" where
  "cluster_inv w \<longleftrightarrow> (\<forall>i. node_id (clocks w i) = i) \<and> events_ok w \<and> causal_ok (trace w)"

lemma causal_ok_snoc:
  "causal_ok (tr @ [e]) \<longleftrightarrow> causal_ok tr \<and>
     (\<forall>a. (a < length tr \<and> ev_node (tr ! a) = ev_node e \<or> ev_from e = Some a)
        \<longrightarrow> a < length tr \<and> ev_time (tr ! a) < ev_time e)"
  by (auto simp: causal_ok_def nth_append less_Suc_eq) (metis less_irrefl less_trans)+

text \<open>
  The one step of the invariant proof: an event stamped with a clock after the device's own
  and, for a receive, after the clock received.
\<close>

lemma record_event_inv:
  assumes inv: "cluster_inv w" and h: "clocks w i < h" "node_id h = i"
    and src: "\<And>k. src = Some k \<Longrightarrow> k < length (trace w) \<and> ev_time (trace w ! k) < h"
  shows "cluster_inv (record_event i h src now w)"
proof -
  have old: "ev_time e \<le> clocks w (ev_node e)" "node_id (ev_time e) = ev_node e"
    if "e \<in> set (trace w)" for e
    using inv that by (auto simp: cluster_inv_def events_ok_def)
  have new: "ev_time e < h" if "e \<in> set (trace w)" "ev_node e = i" for e
    using old(1) [OF that(1)] that(2) h(1) by auto
  have "events_ok (record_event i h src now w)"
    using old new h by (auto simp: events_ok_def record_event_def intro: less_imp_le)
  moreover have "causal_ok (trace (record_event i h src now w))"
    using inv src new by (auto simp: cluster_inv_def record_event_def causal_ok_snoc)
  ultimately show ?thesis
    using inv h by (auto simp: cluster_inv_def record_event_def)
qed

lemma cluster_step_inv:
  assumes "cluster_step Checked w w'" "cluster_inv w"
  shows "cluster_inv w'"
proof -
  have node: "node_id (clocks w i) = i" for i
    using assms(2) by (simp add: cluster_inv_def)
  from assms(1) show ?thesis
  proof (cases rule: cluster_step.cases)
    case (local_event t now i h)
    then show ?thesis
      using hlc_tick_step [OF local_event(2,3)] node
      by (auto intro!: record_event_inv [OF assms(2)] stamp_less_imp)
  next
    case (receive_event t now k i h)
    then show ?thesis
      using hlc_merge_Checked_stamp [OF receive_event(4)] hlc_merge_frame [OF receive_event(2,4)] node
      by (auto intro!: record_event_inv [OF assms(2)] stamp_less_imp)
  qed
qed

lemma cluster_init_inv: "init_cluster w \<Longrightarrow> cluster_inv w"
proof -
  assume init: "init_cluster w"
  then have "node_id (clocks w i) = i" for i
    by (auto simp: init_cluster_def intro: hlc_now_node)
  then show ?thesis
    using init by (simp add: cluster_inv_def init_cluster_def events_ok_def causal_ok_def)
qed

lemma cluster_reachable_inv: "cluster_reachable Checked w \<Longrightarrow> cluster_inv w"
  by (induction rule: cluster_reachable.induct) (auto intro: cluster_init_inv cluster_step_inv)

section \<open>Builds without overflow checks\<close>

text \<open>
  A counter grows by at most one with an event, so in a run of fewer than \<open>2 ^ 32\<close> events no
  merge wraps, and the run of a release build is one of the checked build.
\<close>

abbreviation no_wrap :: "overflow \<Rightarrow> cluster \<Rightarrow> bool" where
  "no_wrap m w \<equiv> m = Checked \<or> length (trace w) < 2 ^ 32"

definition counters_ok :: "cluster \<Rightarrow> bool" where
  "counters_ok w \<longleftrightarrow>
     (\<forall>i. unat (counter (clocks w i)) \<le> length (trace w)) \<and>
     (\<forall>e \<in> set (trace w). unat (counter (ev_time e)) \<le> length (trace w))"

lemma record_event_counters:
  "counters_ok w \<Longrightarrow> unat (counter h) \<le> Suc (length (trace w)) \<Longrightarrow> counters_ok (record_event i h src now w)"
  by (auto simp: counters_ok_def record_event_def le_Suc_eq)

lemma length_trace_step: "cluster_step m w w' \<Longrightarrow> length (trace w') = Suc (length (trace w))"
  by (induction rule: cluster_step.induct) (simp_all add: record_event_def)

lemma short_step_checked:
  assumes "cluster_step m w w'" "counters_ok w" "Suc (length (trace w)) < 2 ^ 32"
  shows "cluster_step Checked w w' \<and> counters_ok w'"
  using assms(1)
proof (cases rule: cluster_step.cases)
  case (local_event t now i h)
  have "unat (counter h) \<le> Suc (length (trace w))"
    using hlc_tick_counter [OF local_event(3)] assms(2) by (auto simp: counters_ok_def intro: order_trans)
  then show ?thesis
    using local_event cluster_step.local_event record_event_counters [OF assms(2)] by blast
next
  case (receive_event t now k i h)
  have old: "unat (counter (clocks w i)) \<le> length (trace w)"
    "unat (counter (ev_time (trace w ! k))) \<le> length (trace w)"
    using assms(2) receive_event(3) by (auto simp: counters_ok_def)
  from hlc_merge_small [OF receive_event(4) old assms(3)]
  show ?thesis
    using receive_event cluster_step.receive_event record_event_counters [OF assms(2)] by blast
qed

lemma init_counters: "init_cluster w \<Longrightarrow> counters_ok w"
proof -
  assume init: "init_cluster w"
  then have "counter (clocks w i) = 0" for i by (auto simp: init_cluster_def intro: hlc_now_counter)
  with init show ?thesis by (simp add: counters_ok_def init_cluster_def)
qed

lemma short_run_checked:
  assumes "cluster_reachable m w" "no_wrap m w"
  shows "cluster_reachable Checked w"
proof -
  have "length (trace w) < 2 ^ 32 \<longrightarrow> cluster_reachable Checked w \<and> counters_ok w"
    using assms(1)
  proof (induction rule: cluster_reachable.induct)
    case (cluster_next w w')
    then show ?case
      using short_step_checked [OF cluster_next(2)] length_trace_step [OF cluster_next(2)]
      by (auto intro: cluster_reachable.cluster_next)
  qed (auto intro: cluster_reachable.cluster_init init_counters)
  with assms show ?thesis by blast
qed

section \<open>Causality, uniqueness and drift\<close>

lemma causal_ok_happens_before:
  assumes "happens_before tr a b" "causal_ok tr"
  shows "a < b \<and> b < length tr \<and> ev_time (tr ! a) < ev_time (tr ! b)"
  using assms by (induction rule: happens_before.induct) (auto simp: causal_ok_def)

lemma cluster_times_distinct:
  assumes inv: "cluster_inv w"
  shows "distinct (map ev_time (trace w))"
proof -
  have "ev_time (trace w ! a) \<noteq> ev_time (trace w ! b)" if "a < b" "b < length (trace w)" for a b
  proof (cases "ev_node (trace w ! a) = ev_node (trace w ! b)")
    case True
    then show ?thesis using inv that by (fastforce simp: cluster_inv_def causal_ok_def)
  next
    case False
    have "node_id (ev_time (trace w ! k)) = ev_node (trace w ! k)" if "k < length (trace w)" for k
      using inv that by (auto simp: cluster_inv_def events_ok_def)
    then show ?thesis using False that by (metis less_trans)
  qed
  then show ?thesis
    by (simp add: distinct_conv_nth) (metis linorder_neqE_nat)
qed

definition drift_ok :: "cluster \<Rightarrow> bool" where
  "drift_ok w \<longleftrightarrow>
     (\<forall>i. wall_clock_ms (clocks w i) \<le> max_reading w) \<and>
     (\<forall>e \<in> set (trace w). wall_clock_ms (ev_time e) \<le> max_reading w)"

lemma record_event_drift:
  "drift_ok w \<Longrightarrow> wall_clock_ms h \<le> max (max_reading w) now \<Longrightarrow>
   drift_ok (record_event i h src now w)"
  by (auto simp: drift_ok_def record_event_def le_max_iff_disj)

lemma cluster_step_drift:
  assumes "cluster_step m w w'" "drift_ok w"
  shows "drift_ok w'"
proof -
  have bound: "wall_clock_ms (clocks w i) \<le> max_reading w" for i
    using assms(2) by (simp add: drift_ok_def)
  from assms(1) show ?thesis
  proof (cases rule: cluster_step.cases)
    case (local_event t now i h)
    then show ?thesis
      using hlc_tick_step [OF local_event(2,3)] bound [of i]
      by (auto simp: le_max_iff_disj intro!: record_event_drift [OF assms(2)])
  next
    case (receive_event t now k i h)
    then have "wall_clock_ms (ev_time (trace w ! k)) \<le> max_reading w"
      using assms(2) by (simp add: drift_ok_def)
    then show ?thesis
      using receive_event hlc_merge_frame [OF receive_event(2,4)] bound [of i]
      by (auto simp: le_max_iff_disj intro!: record_event_drift [OF assms(2)])
  qed
qed

lemma init_drift: "init_cluster w \<Longrightarrow> drift_ok w"
  by (auto simp: init_cluster_def drift_ok_def)

text \<open>A run of two devices, for the witnesses: a send, and its receipt under a slower clock.\<close>

definition example_run :: cluster where
  "example_run =
     record_event (replicate 16 2) \<lparr>wall_clock_ms = 5, counter = 1, node_id = replicate 16 2\<rparr> (Some 0) 3
       (record_event (replicate 16 1) \<lparr>wall_clock_ms = 5, counter = 0, node_id = replicate 16 1\<rparr> None 5
         \<lparr>clocks = (\<lambda>i. \<lparr>wall_clock_ms = 0, counter = 0, node_id = i\<rparr>), trace = [], max_reading = 0\<rparr>)"

lemma example_run_reachable: "cluster_reachable m example_run"
proof -
  let ?w0 = "\<lparr>clocks = (\<lambda>i. \<lparr>wall_clock_ms = 0, counter = 0, node_id = i\<rparr>), trace = [],
      max_reading = 0\<rparr>"
  let ?h1 = "\<lparr>wall_clock_ms = 5, counter = 0, node_id = replicate 16 1\<rparr>"
  have "init_cluster ?w0"
    by (auto simp: init_cluster_def hlc_now_def system_time_ms_def u64_try_from_def
        intro!: exI [of _ 0])
  moreover have "cluster_step m ?w0 (record_event (replicate 16 1) ?h1 None 5 ?w0)"
    by (rule local_event [of 5000000])
      (simp_all add: hlc_tick_def system_time_ms_def u64_try_from_def)
  moreover have "cluster_step m (record_event (replicate 16 1) ?h1 None 5 ?w0) example_run"
    unfolding example_run_def
    by (rule receive_event [of 3000000])
      (cases m; simp add: record_event_def hlc_merge_def system_time_ms_def u64_try_from_def
        checked_add_def)+
  ultimately show ?thesis by (blast intro: cluster_reachable.intros)
qed

lemma example_run_trace:
  "trace example_run =
     [\<lparr>ev_node = replicate 16 1,
        ev_time = \<lparr>wall_clock_ms = 5, counter = 0, node_id = replicate 16 1\<rparr>, ev_from = None\<rparr>,
      \<lparr>ev_node = replicate 16 2,
        ev_time = \<lparr>wall_clock_ms = 5, counter = 1, node_id = replicate 16 2\<rparr>, ev_from = Some 0\<rparr>]"
  by (simp add: example_run_def record_event_def)

text \<open>
  C1. Clocks respect causality: in every run of a cluster built with overflow checks, and in
  every run of a release build of fewer than \<open>2 ^ 32\<close> events (any devices, any interleaving,
  any physical clock readings), an event that happens before another carries a smaller clock, so
  ordering messages by clock never puts an answer before its question.
\<close>

theorem hlc_respects_causality:
  assumes "cluster_reachable m w" "no_wrap m w" "happens_before (trace w) a b"
  shows "hlc_cmp (ev_time (trace w ! a)) (ev_time (trace w ! b)) = Less"
  using causal_ok_happens_before [OF assms(3)] cluster_reachable_inv [OF short_run_checked [OF assms(1,2)]]
  by (simp add: cluster_inv_def hlc_cmp_order)

theorem hlc_respects_causality_witness:
  "cluster_reachable Wrapping example_run \<and> happens_before (trace example_run) 0 1 \<and>
   hlc_cmp (ev_time (trace example_run ! 0)) (ev_time (trace example_run ! 1)) = Less"
proof -
  have "happens_before (trace example_run) 0 1"
    by (rule message_order) (simp_all add: example_run_trace)
  with hlc_respects_causality [OF example_run_reachable _ this, of Wrapping] example_run_reachable
  show ?thesis by (simp add: example_run_trace)
qed

text \<open>
  C18. No two events of a run carry the same clock, on one device or across devices, so that a
  clock is a unique key of its message in the log: in every run of a build with overflow checks,
  and in every run of a release build of fewer than \<open>2 ^ 32\<close> events.
\<close>

theorem hlc_timestamps_unique:
  assumes "cluster_reachable m w" "no_wrap m w"
  shows "distinct (map ev_time (trace w))"
  by (rule cluster_times_distinct [OF cluster_reachable_inv [OF short_run_checked [OF assms]]])

theorem hlc_timestamps_unique_witness:
  "cluster_reachable Wrapping example_run \<and> distinct (map ev_time (trace example_run)) \<and>
   length (trace example_run) = 2"
  using hlc_timestamps_unique [OF example_run_reachable, of Wrapping] example_run_reachable
  by (simp add: example_run_trace)

text \<open>
  C36. Logical time never runs ahead of the physical clocks: in every run, in either build, the
  wall clock of every device is at most the largest physical reading taken so far by any of
  them.
\<close>

theorem hlc_bounded_drift:
  assumes "cluster_reachable m w"
  shows "wall_clock_ms (clocks w i) \<le> max_reading w"
proof -
  have "drift_ok w"
    using assms
    by (induction rule: cluster_reachable.induct) (auto intro: init_drift cluster_step_drift)
  then show ?thesis by (simp add: drift_ok_def)
qed

theorem hlc_bounded_drift_witness:
  "cluster_reachable Wrapping example_run \<and>
   wall_clock_ms (clocks example_run (replicate 16 2)) \<le> 5 \<and> max_reading example_run = 5"
proof -
  have "max_reading example_run = 5"
    by (simp add: example_run_def record_event_def)
  with hlc_bounded_drift [OF example_run_reachable, of "replicate 16 2"] example_run_reachable
  show ?thesis by simp
qed

end
