(* ===== verification/Mergeable.thy ===== *)
theory Mergeable
  imports Prelude
begin

text \<open>
  The trait \<^verbatim>\<open>Mergeable\<close> of \<^verbatim>\<open>crates/mercury-crdt/src/traits.rs\<close> as a locale:
  a merge, the type's \<^verbatim>\<open>PartialEq\<close>, and the states the laws are claimed for, with the
  three laws of the trait's comment as assumptions. Its consequence is convergence: replicas
  that have merged the same set of states, in any order, with any duplicates and through any
  intermediaries, are equal. The second locale states the laws through an abstract value of the
  state (the data type's specification), and gives the first.
\<close>

section \<open>The trait\<close>

text \<open>A replica that merges the states it receives, one after the other.\<close>

definition merge_all :: "('s \<Rightarrow> 's \<Rightarrow> 's) \<Rightarrow> 's \<Rightarrow> 's list \<Rightarrow> 's" where
  "merge_all merge s xs = fold (\<lambda>x s. merge s x) xs s"

locale mergeable =
  fixes merge :: "'s \<Rightarrow> 's \<Rightarrow> 's"
    and eq :: "'s \<Rightarrow> 's \<Rightarrow> bool"
    and good :: "'s \<Rightarrow> bool"
  assumes eq_refl: "good a \<Longrightarrow> eq a a"
    and eq_sym: "eq a b \<Longrightarrow> good a \<Longrightarrow> good b \<Longrightarrow> eq b a"
    and eq_trans: "eq a b \<Longrightarrow> eq b c \<Longrightarrow> good a \<Longrightarrow> good b \<Longrightarrow> good c \<Longrightarrow> eq a c"
    and merge_good: "good a \<Longrightarrow> good b \<Longrightarrow> good (merge a b)"
    and merge_cong: "eq a a' \<Longrightarrow> eq b b' \<Longrightarrow> good a \<Longrightarrow> good a' \<Longrightarrow> good b \<Longrightarrow> good b' \<Longrightarrow>
      eq (merge a b) (merge a' b')"
    and commutative: "good a \<Longrightarrow> good b \<Longrightarrow> eq (merge a b) (merge b a)"
    and associative: "good a \<Longrightarrow> good b \<Longrightarrow> good c \<Longrightarrow>
      eq (merge (merge a b) c) (merge a (merge b c))"
    and idempotent: "good a \<Longrightarrow> eq (merge a a) a"
begin

lemma merge_all_good:
  "good s \<Longrightarrow> \<forall>x \<in> set xs. good x \<Longrightarrow> good (fold (\<lambda>x s. merge s x) xs s)"
  by (induction xs arbitrary: s) (auto simp: merge_good)

lemma merge_all_cong:
  "eq s t \<Longrightarrow> good s \<Longrightarrow> good t \<Longrightarrow> \<forall>x \<in> set xs. good x \<Longrightarrow>
   eq (fold (\<lambda>x s. merge s x) xs s) (fold (\<lambda>x s. merge s x) xs t)"
  by (induction xs arbitrary: s t) (auto simp: merge_good merge_cong eq_refl)

text \<open>The later replica \<open>s\<close> knows everything in \<open>x\<close>.\<close>

definition absorbs :: "'s \<Rightarrow> 's \<Rightarrow> bool" where
  "absorbs s x \<longleftrightarrow> eq (merge s x) s"

lemma absorbs_refl: "good a \<Longrightarrow> absorbs a a"
  by (simp add: absorbs_def idempotent)

lemma absorbs_merge_right:
  assumes "good a" "good b"
  shows "absorbs (merge a b) b"
  unfolding absorbs_def
  using assms by (meson associative eq_refl eq_trans idempotent merge_cong merge_good)

lemma absorbs_merge_left:
  assumes "absorbs a x" "good a" "good b" "good x"
  shows "absorbs (merge a b) x"
proof -
  have "eq (merge (merge a b) x) (merge a (merge x b))"
    using assms by (meson associative commutative eq_refl eq_trans merge_cong merge_good)
  moreover have "eq (merge a (merge x b)) (merge (merge a x) b)"
    using assms by (meson associative eq_sym merge_good)
  moreover have "eq (merge (merge a x) b) (merge a b)"
    using assms by (meson absorbs_def eq_refl merge_cong merge_good)
  ultimately show ?thesis
    unfolding absorbs_def using assms by (meson eq_trans merge_good)
qed

lemma absorbs_merge_all:
  assumes "good s" "\<forall>y \<in> set xs. good y" "good x" "x \<in> set xs \<or> absorbs s x"
  shows "absorbs (fold (\<lambda>x s. merge s x) xs s) x"
  using assms
proof (induction xs arbitrary: s)
  case (Cons y xs)
  then have "x \<in> set xs \<or> absorbs (merge s y) x"
    using absorbs_merge_right absorbs_merge_left by auto
  with Cons show ?case by (simp add: merge_good)
qed simp

lemma absorbs_all_merge_all:
  assumes "good t" "good s" "absorbs t s" "\<forall>x \<in> set xs. good x \<and> absorbs t x"
  shows "absorbs t (fold (\<lambda>x s. merge s x) xs s)"
  using assms
proof (induction xs arbitrary: s)
  case (Cons y xs)
  have "absorbs t (merge s y)"
  proof -
    have "eq (merge t (merge s y)) (merge (merge t s) y)"
      using Cons.prems by (simp add: associative eq_sym merge_good)
    moreover have "eq (merge (merge t s) y) (merge t y)"
      using Cons.prems by (simp add: absorbs_def eq_refl merge_cong merge_good)
    moreover have "eq (merge t y) t"
      using Cons.prems by (simp add: absorbs_def)
    ultimately show ?thesis
      unfolding absorbs_def using Cons.prems by (meson eq_trans merge_good list.set_intros(1))
  qed
  with Cons show ?case by (simp add: merge_good)
qed simp

lemma absorbs_antisym:
  assumes "absorbs a b" "absorbs b a" "good a" "good b"
  shows "eq a b"
  using assms unfolding absorbs_def by (meson commutative eq_sym eq_trans merge_good)

text \<open>
  Strong eventual consistency: replicas that started from \<open>s\<close> and \<open>t\<close> and have between
  them seen the same states are equal.
\<close>

lemma convergence:
  assumes "\<forall>x \<in> set (s # xs). good x" "\<forall>x \<in> set (t # ys). good x"
    and "set (s # xs) = set (t # ys)"
  shows "eq (merge_all merge s xs) (merge_all merge t ys)"
  unfolding merge_all_def
proof (rule absorbs_antisym)
  let ?a = "fold (\<lambda>x s. merge s x) xs s" and ?b = "fold (\<lambda>x s. merge s x) ys t"
  show ga: "good ?a" and gb: "good ?b"
    using assms by (simp_all add: merge_all_good)
  have a: "absorbs ?a x" if "x \<in> set (s # xs)" for x
    using assms(1) that by (intro absorbs_merge_all) (auto simp: absorbs_refl)
  have b: "absorbs ?b x" if "x \<in> set (t # ys)" for x
    using assms(2) that by (intro absorbs_merge_all) (auto simp: absorbs_refl)
  show "absorbs ?a ?b"
    using a ga assms by (intro absorbs_all_merge_all) auto
  show "absorbs ?b ?a"
    using b gb assms by (intro absorbs_all_merge_all) auto
qed

end

section \<open>The laws through an abstract value\<close>

locale mergeable_view =
  fixes merge :: "'s \<Rightarrow> 's \<Rightarrow> 's"
    and eq :: "'s \<Rightarrow> 's \<Rightarrow> bool"
    and good :: "'s \<Rightarrow> bool"
    and view :: "'s \<Rightarrow> 'v"
    and join :: "'v \<Rightarrow> 'v \<Rightarrow> 'v"
  assumes eq_view: "good a \<Longrightarrow> good b \<Longrightarrow> eq a b \<longleftrightarrow> view a = view b"
    and view_merge: "good a \<Longrightarrow> good b \<Longrightarrow> view (merge a b) = join (view a) (view b)"
    and good_merge: "good a \<Longrightarrow> good b \<Longrightarrow> good (merge a b)"
    and join_comm: "good a \<Longrightarrow> good b \<Longrightarrow> join (view a) (view b) = join (view b) (view a)"
    and join_assoc: "good a \<Longrightarrow> good b \<Longrightarrow> good c \<Longrightarrow>
      join (join (view a) (view b)) (view c) = join (view a) (join (view b) (view c))"
    and join_idem: "good a \<Longrightarrow> join (view a) (view a) = view a"

sublocale mergeable_view \<subseteq> mergeable merge eq good
  by unfold_locales
    (simp_all add: eq_view view_merge good_merge join_assoc join_idem, simp_all add: join_comm)

end
