(* ===== verification/Gcounter.thy ===== *)
theory Gcounter
  imports Collections Mergeable
begin

text \<open>
  The grow-only counter of \<^verbatim>\<open>crates/mercury-crdt/src/gcounter.rs\<close>: one slot per node in
  a \<^verbatim>\<open>BTreeMap\<close>, \<^verbatim>\<open>increment\<close> on the own slot, \<^verbatim>\<open>value\<close> as the sum
  and \<^verbatim>\<open>merge\<close> as the maximum per slot; the convergence of replicas, and a system of
  replicas that increment and gossip, in which no increment is lost or counted twice.
\<close>

section \<open>Operations\<close>

record gcounter =
  gc_counts :: "(bytes16, u64) btreemap"

definition gc_new :: gcounter where
  "gc_new = \<lparr>gc_counts = []\<rparr>"

definition gc_default :: gcounter where
  "gc_default = gc_new"

definition gc_increment :: "overflow \<Rightarrow> bytes16 \<Rightarrow> gcounter \<Rightarrow> gcounter exec" where
  "gc_increment m node c =
     exec_bind (add_ovf m (entry_or node 0 (gc_counts c)) 1)
       (\<lambda>n. Ret (c\<lparr>gc_counts := bt_insert node n (gc_counts c)\<rparr>))"

definition gc_value :: "overflow \<Rightarrow> gcounter \<Rightarrow> u64 exec" where
  "gc_value m c = exec_fold (\<lambda>n acc. add_ovf m acc n) (map snd (gc_counts c)) 0"

definition gc_merge :: "gcounter \<Rightarrow> gcounter \<Rightarrow> gcounter" where
  "gc_merge self other =
     self\<lparr>gc_counts :=
       fold (\<lambda>(node, count). bt_upsert node 0 (\<lambda>entry. max entry count))
         (gc_counts other) (gc_counts self)\<rparr>"

lemmas [rust_defs] = gc_new_def gc_default_def gc_increment_def gc_value_def gc_merge_def

definition gc_ok :: "gcounter \<Rightarrow> bool" where
  "gc_ok c \<longleftrightarrow> bt_ok (gc_counts c)"

lemma gc_ok_new [rust_inv]: "gc_ok gc_new"
  by (simp add: gc_ok_def gc_new_def)

lemma gc_ok_increment [rust_inv]: "gc_increment m node c = Ret c' \<Longrightarrow> gc_ok c \<Longrightarrow> gc_ok c'"
  by (auto simp: gc_ok_def gc_increment_def)

lemma gc_ok_merge [rust_inv]: "gc_ok a \<Longrightarrow> gc_ok (gc_merge a b)"
  by (simp add: gc_ok_def gc_merge_def bt.ok_merge_loop [where g = "\<lambda>w e. max e w"])

lemma map_of_gc_merge:
  "gc_ok a \<Longrightarrow> gc_ok b \<Longrightarrow>
   map_of (gc_counts (gc_merge a b)) = map_join max (map_of (gc_counts a)) (map_of (gc_counts b))"
  by (simp add: gc_ok_def gc_merge_def bt_merge_loop [where g = "\<lambda>w e. max e w"])

lemma gc_ext: "gc_ok a \<Longrightarrow> gc_ok b \<Longrightarrow> a = b \<longleftrightarrow> map_of (gc_counts a) = map_of (gc_counts b)"
  by (auto simp: gc_ok_def intro!: gcounter.equality intro: bt_ext)

interpretation gc: mergeable_view gc_merge "(=)" gc_ok "\<lambda>c. map_of (gc_counts c)" "map_join max"
  by unfold_locales
    (simp_all add: gc_ext map_of_gc_merge rust_inv map_join_max(2,3), rule map_join_max(1))

section \<open>Slots and totals\<close>

definition gc_slot :: "gcounter \<Rightarrow> bytes16 \<Rightarrow> nat" where
  "gc_slot c n = unat (entry_or n 0 (gc_counts c))"

definition gc_total :: "gcounter \<Rightarrow> nat" where
  "gc_total c = sum_list (map (unat \<circ> snd) (gc_counts c))"

lemma gc_slot_merge:
  "gc_ok a \<Longrightarrow> gc_ok b \<Longrightarrow> gc_slot (gc_merge a b) n = max (gc_slot a n) (gc_slot b n)"
  by (auto simp: gc_slot_def entry_or_def map_of_gc_merge map_join_def max_def word_le_nat_alt
      split: option.splits)

lemma gc_slot_increment:
  "gc_increment Checked node c = Ret c' \<Longrightarrow>
   gc_slot c' n = (if n = node then Suc (gc_slot c n) else gc_slot c n)"
  by (auto simp: gc_increment_def gc_slot_def entry_or_def dest!: checked_add_SomeD(2))

lemma gc_slot_absent: "n \<notin> fst ` set (gc_counts c) \<Longrightarrow> gc_slot c n = 0"
  using map_of_eq_None_iff [of "gc_counts c" n] by (simp add: gc_slot_def entry_or_def)

lemma gc_total_eq:
  assumes "gc_ok c" "finite A" "fst ` set (gc_counts c) \<subseteq> A"
  shows "gc_total c = (\<Sum>n\<in>A. gc_slot c n)"
proof -
  have d: "distinct (map fst (gc_counts c))"
    using assms(1) by (simp add: gc_ok_def bt_ok_distinct)
  have "gc_total c = (\<Sum>e\<leftarrow>gc_counts c. gc_slot c (fst e))"
    unfolding gc_total_def
    using d by (intro arg_cong [where f = sum_list] map_cong) (auto simp: gc_slot_def entry_or_def)
  also have "\<dots> = (\<Sum>n\<in>fst ` set (gc_counts c). gc_slot c n)"
    using sum_list_distinct_conv_sum_set [OF d, of "gc_slot c"] by (simp add: comp_def)
  also have "\<dots> = (\<Sum>n\<in>A. gc_slot c n)"
    using assms(2,3)
    by (intro sum.mono_neutral_left) (auto intro: gc_slot_absent)
  finally show ?thesis .
qed

lemma gc_total_slots: "gc_ok c \<Longrightarrow> gc_total c = (\<Sum>n\<in>fst ` set (gc_counts c). gc_slot c n)"
  by (rule gc_total_eq) auto

text \<open>The sum loop of \<^verbatim>\<open>value\<close>, from any accumulator.\<close>

lemma sum_loop_Checked:
  "exec_fold (\<lambda>n acc. add_ovf Checked acc n) ns acc =
     (if unat acc + sum_list (map unat ns) < 2 ^ 64
      then Ret (of_nat (unat acc + sum_list (map unat ns))) else Panic Arith_Overflow)"
  for acc :: u64
proof (induction ns arbitrary: acc)
  case (Cons n ns)
  show ?case
    using Cons.IH [of "acc + n"] unat_add_no_overflow [of acc n]
    by (auto simp: add_ovf_Checked add.assoc)
next
  case Nil
  show ?case using unsigned_less [of acc, where 'a = nat] by simp
qed

lemma sum_loop_Wrapping:
  "exec_fold (\<lambda>n acc. add_ovf Wrapping acc n) ns acc = Ret (acc + of_nat (sum_list (map unat ns)))"
  for acc :: u64
  by (induction ns arbitrary: acc) (simp_all add: add.assoc)

section \<open>Correctness of the counter\<close>

text \<open>Two replicas' states, for the witnesses.\<close>

definition gc_example_a :: gcounter where
  "gc_example_a = \<lparr>gc_counts = [(replicate 16 1, 2), (replicate 16 2, 1)]\<rparr>"

definition gc_example_b :: gcounter where
  "gc_example_b = \<lparr>gc_counts = [(replicate 16 1, 1), (replicate 16 3, 4)]\<rparr>"

lemma gc_examples_ok: "gc_ok gc_example_a" "gc_ok gc_example_b"
  by (simp_all add: gc_ok_def bt_ok_def gc_example_a_def gc_example_b_def)

text \<open>
  \<^verbatim>\<open>value\<close> is the sum of all slots: a checked build returns it when it fits 64 bits
  and panics otherwise, a release build returns it modulo \<open>2 ^ 64\<close>.
\<close>

theorem gc_value_spec:
  "gc_value Checked c =
     (if gc_total c < 2 ^ 64 then Ret (of_nat (gc_total c)) else Panic Arith_Overflow) \<and>
   gc_value Wrapping c = Ret (of_nat (gc_total c))"
  by (simp add: gc_value_def gc_total_def sum_loop_Checked sum_loop_Wrapping
      del: add_ovf_Wrapping)

text \<open>
  An increment that returns adds exactly one to the total and touches only the node's own
  slot; in a checked build it returns exactly when that slot is below the maximum.
\<close>

theorem gc_increment_spec:
  assumes "gc_ok c"
  shows "(\<forall>c'. gc_increment Checked node c = Ret c' \<longrightarrow>
      gc_ok c' \<and> gc_total c' = Suc (gc_total c) \<and>
      (\<forall>n. gc_slot c' n = (if n = node then Suc (gc_slot c n) else gc_slot c n))) \<and>
    ((\<exists>c'. gc_increment Checked node c = Ret c') \<longleftrightarrow> gc_slot c node < 2 ^ 64 - 1)"
proof (intro conjI allI impI)
  fix c' assume inc: "gc_increment Checked node c = Ret c'"
  show ok: "gc_ok c'" using inc assms by (rule rust_inv)
  show slot: "gc_slot c' n = (if n = node then Suc (gc_slot c n) else gc_slot c n)" for n
    using inc by (rule gc_slot_increment)
  let ?A = "insert node (fst ` set (gc_counts c))"
  have keys: "fst ` set (gc_counts c') = ?A"
  proof -
    obtain v where "c' = c\<lparr>gc_counts := bt_insert node v (gc_counts c)\<rparr>"
      using inc by (auto simp: gc_increment_def)
    then show ?thesis by simp
  qed
  have "gc_total c' = (\<Sum>n\<in>?A. gc_slot c' n)"
    using ok by (simp add: gc_total_slots keys)
  also have "\<dots> = (\<Sum>n\<in>?A. gc_slot c n + (if n = node then 1 else 0))"
    by (rule sum.cong) (auto simp: slot)
  also have "\<dots> = (\<Sum>n\<in>?A. gc_slot c n) + 1"
    by (simp add: sum.distrib)
  also have "(\<Sum>n\<in>?A. gc_slot c n) = gc_total c"
    using assms by (intro gc_total_eq [symmetric]) auto
  finally show "gc_total c' = Suc (gc_total c)" by simp
next
  show "(\<exists>c'. gc_increment Checked node c = Ret c') \<longleftrightarrow> gc_slot c node < 2 ^ 64 - 1"
    by (simp add: gc_increment_def gc_slot_def checked_add_def less_diff_conv) 
qed

theorem gc_increment_spec_witness:
  "gc_increment Checked (replicate 16 3) gc_example_a =
     Ret \<lparr>gc_counts = [(replicate 16 1, 2), (replicate 16 2, 1), (replicate 16 3, 1)]\<rparr> \<and>
   gc_total \<lparr>gc_counts = [(replicate 16 1, 2), (replicate 16 2, 1), (replicate 16 3, 1)]\<rparr> =
     Suc (gc_total gc_example_a)"
proof -
  have "gc_increment Checked (replicate 16 3) gc_example_a =
     Ret \<lparr>gc_counts = [(replicate 16 1, 2), (replicate 16 2, 1), (replicate 16 3, 1)]\<rparr>"
    by (simp add: gc_increment_def gc_example_a_def entry_or_def add_ovf_def checked_add_def)
  with gc_increment_spec [OF gc_examples_ok(1), of "replicate 16 3"] show ?thesis by blast
qed

text \<open>
  Merging takes the maximum of every slot, so a replica's knowledge of any node only grows.
\<close>

theorem gc_merge_slotwise:
  assumes "gc_ok a" "gc_ok b"
  shows "gc_ok (gc_merge a b) \<and> gc_slot (gc_merge a b) n = max (gc_slot a n) (gc_slot b n)"
  using assms by (simp add: rust_inv gc_slot_merge)

theorem gc_merge_slotwise_witness:
  "gc_merge gc_example_a gc_example_b =
     \<lparr>gc_counts = [(replicate 16 1, 2), (replicate 16 2, 1), (replicate 16 3, 4)]\<rparr> \<and>
   gc_slot (gc_merge gc_example_a gc_example_b) (replicate 16 1) =
     max (gc_slot gc_example_a (replicate 16 1)) (gc_slot gc_example_b (replicate 16 1))"
proof
  show "gc_merge gc_example_a gc_example_b =
     \<lparr>gc_counts = [(replicate 16 1, 2), (replicate 16 2, 1), (replicate 16 3, 4)]\<rparr>"
    by (simp add: gc_merge_def gc_example_a_def gc_example_b_def bt_upsert_def entry_or_def)
qed (use gc_merge_slotwise [OF gc_examples_ok] in blast)

text \<open>
  The laws of the trait: on well-formed counters merge is commutative, associative and
  idempotent, up to \<^verbatim>\<open>==\<close>.
\<close>

theorem gc_merge_laws:
  assumes "gc_ok a" "gc_ok b" "gc_ok c"
  shows "gc_merge a b = gc_merge b a \<and>
    gc_merge (gc_merge a b) c = gc_merge a (gc_merge b c) \<and> gc_merge a a = a"
  using assms gc.commutative gc.associative gc.idempotent by simp

theorem gc_merge_laws_witness:
  "gc_merge gc_example_a gc_example_b = gc_merge gc_example_b gc_example_a \<and>
   gc_example_a \<noteq> gc_example_b"
  using gc_merge_laws [OF gc_examples_ok gc_examples_ok(1)]
  by (simp add: gc_example_a_def gc_example_b_def)

text \<open>
  Strong eventual consistency: replicas that have seen the same set of counters, in any
  order and with any duplicates, hold the same counter.
\<close>

theorem gc_convergence:
  assumes "\<forall>x \<in> set (s # xs). gc_ok x" "\<forall>x \<in> set (t # ys). gc_ok x"
    and "set (s # xs) = set (t # ys)"
  shows "merge_all gc_merge s xs = merge_all gc_merge t ys"
  using assms by (rule gc.convergence)

theorem gc_convergence_witness:
  "merge_all gc_merge gc_example_a [gc_new, gc_example_b, gc_example_b] =
   merge_all gc_merge gc_example_b [gc_example_a, gc_new]"
  by (rule gc_convergence) (auto simp: gc_examples_ok gc_ok_new)

section \<open>A system of replicas\<close>

lemma gc_increment_builds:
  "gc_increment Checked node c = Ret c' \<longleftrightarrow>
    gc_increment Wrapping node c = Ret c' \<and> gc_slot c node < 2 ^ 64 - 1"
  by (cases "checked_add (entry_or node 0 (gc_counts c)) 1")
    (auto simp: gc_increment_def gc_slot_def checked_add_def split: if_splits)

text \<open>
  Every node increments the counter under its own id, publishes its state, and merges any state
  published so far, at any time and any number of times. \<open>gc_incs\<close> counts the increments
  that have really happened. An increment that would take a slot past \<open>2 ^ 64 - 1\<close> is not a
  step (a checked build panics on it); below that both builds increment alike
  (\<open>gc_increment_builds\<close>).
\<close>

record gc_system =
  gc_replica :: "bytes16 \<Rightarrow> gcounter"
  gc_sent :: "gcounter set"
  gc_incs :: "bytes16 \<Rightarrow> nat"

inductive gc_step :: "gc_system \<Rightarrow> gc_system \<Rightarrow> bool" where
  gc_do_increment:
    "gc_increment Checked i (gc_replica s i) = Ret c \<Longrightarrow>
     gc_step s (s\<lparr>gc_replica := (gc_replica s)(i := c),
                 gc_incs := (gc_incs s)(i := Suc (gc_incs s i))\<rparr>)"
| gc_publish: "gc_step s (s\<lparr>gc_sent := insert (gc_replica s i) (gc_sent s)\<rparr>)"
| gc_deliver:
    "c \<in> gc_sent s \<Longrightarrow>
     gc_step s (s\<lparr>gc_replica := (gc_replica s)(i := gc_merge (gc_replica s i) c)\<rparr>)"

inductive gc_reachable :: "gc_system \<Rightarrow> bool" where
  gc_start: "gc_reachable \<lparr>gc_replica = (\<lambda>_. gc_new), gc_sent = {}, gc_incs = (\<lambda>_. 0)\<rparr>"
| gc_next: "gc_reachable s \<Longrightarrow> gc_step s s' \<Longrightarrow> gc_reachable s'"

definition gc_sound :: "gc_system \<Rightarrow> gcounter \<Rightarrow> bool" where
  "gc_sound s c \<longleftrightarrow> gc_ok c \<and> (\<forall>n. gc_slot c n \<le> gc_incs s n)"

definition gc_inv :: "gc_system \<Rightarrow> bool" where
  "gc_inv s \<longleftrightarrow>
     (\<forall>c \<in> gc_sent s. gc_sound s c) \<and>
     (\<forall>i. gc_sound s (gc_replica s i) \<and> gc_slot (gc_replica s i) i = gc_incs s i)"

lemma gc_sound_merge: "gc_sound s a \<Longrightarrow> gc_sound s b \<Longrightarrow> gc_sound s (gc_merge a b)"
  by (simp add: gc_sound_def rust_inv gc_slot_merge)

lemma gc_slot_new [simp]: "gc_slot gc_new n = 0"
  by (simp add: gc_slot_def gc_new_def entry_or_def)

lemma gc_step_inv: "gc_step s s' \<Longrightarrow> gc_inv s \<Longrightarrow> gc_inv s'"
proof (induction rule: gc_step.induct)
  case (gc_do_increment i s c)
  then show ?case
    using gc_slot_increment [OF gc_do_increment(1)] gc_ok_increment [OF gc_do_increment(1)]
    by (auto simp: gc_inv_def gc_sound_def le_SucI)
next
  case (gc_publish s i)
  then show ?case by (auto simp: gc_inv_def gc_sound_def)
next
  case (gc_deliver c s i)
  then have "gc_sound s (gc_merge (gc_replica s i) c)"
    by (auto simp: gc_inv_def intro: gc_sound_merge)
  moreover have "gc_slot c i \<le> gc_incs s i" "gc_slot (gc_replica s i) i = gc_incs s i"
    using gc_deliver by (auto simp: gc_inv_def gc_sound_def)
  then have "gc_slot (gc_merge (gc_replica s i) c) i = gc_incs s i"
    using gc_deliver by (simp add: gc_inv_def gc_sound_def gc_slot_merge)
  ultimately show ?case
    using gc_deliver by (auto simp: gc_inv_def gc_sound_def)
qed

lemma gc_start_inv: "gc_inv \<lparr>gc_replica = (\<lambda>_. gc_new), gc_sent = {}, gc_incs = (\<lambda>_. 0)\<rparr>"
  by (simp add: gc_inv_def gc_sound_def gc_ok_new)

lemma gc_reachable_inv: "gc_reachable s \<Longrightarrow> gc_inv s"
  by (induction rule: gc_reachable.induct) (auto intro: gc_start_inv gc_step_inv)


text \<open>
  A run for the witnesses: node 1 increments and publishes, node 2 merges the published state
  and increments.
\<close>

definition gc_example_system :: gc_system where
  "gc_example_system =
     \<lparr>gc_replica =
        (\<lambda>_. gc_new)
          (replicate 16 1 := \<lparr>gc_counts = [(replicate 16 1, 1)]\<rparr>,
           replicate 16 2 := \<lparr>gc_counts = [(replicate 16 1, 1), (replicate 16 2, 1)]\<rparr>),
      gc_sent = {\<lparr>gc_counts = [(replicate 16 1, 1)]\<rparr>},
      gc_incs = (\<lambda>_. 0)(replicate 16 1 := 1, replicate 16 2 := 1)\<rparr>"

lemma gc_example_reachable: "gc_reachable gc_example_system"
proof -
  let ?c1 = "\<lparr>gc_counts = [(replicate 16 1, 1)]\<rparr>"
  let ?c2 = "\<lparr>gc_counts = [(replicate 16 1, 1), (replicate 16 2, 1)]\<rparr>"
  let ?s0 = "\<lparr>gc_replica = (\<lambda>_. gc_new), gc_sent = {}, gc_incs = (\<lambda>_. 0)\<rparr>"
  let ?s1 = "\<lparr>gc_replica = (\<lambda>_. gc_new)(replicate 16 1 := ?c1), gc_sent = {},
    gc_incs = (\<lambda>_. 0)(replicate 16 1 := 1)\<rparr>"
  let ?s2 = "?s1\<lparr>gc_sent := {?c1}\<rparr>"
  let ?s3 = "?s2\<lparr>gc_replica := (gc_replica ?s2)(replicate 16 2 := ?c1)\<rparr>"
  have s1: "gc_step ?s0 ?s1"
    using gc_do_increment [of "replicate 16 1" ?s0 ?c1]
    by (simp add: gc_increment_def gc_new_def entry_or_def add_ovf_Checked)
  have s2: "gc_step ?s1 ?s2"
    using gc_publish [of ?s1 "replicate 16 1"] by simp
  have s3: "gc_step ?s2 ?s3"
    using gc_deliver [of ?c1 ?s2 "replicate 16 2"]
    by (simp add: gc_merge_def gc_new_def bt_upsert_def entry_or_def)
  have s4: "gc_step ?s3 gc_example_system"
    using gc_do_increment [of "replicate 16 2" ?s3 ?c2]
    by (simp add: gc_increment_def entry_or_def add_ovf_Checked gc_example_system_def
        fun_upd_def cong: if_cong)
  show ?thesis
    by (rule gc_next [OF gc_next [OF gc_next [OF gc_next [OF gc_start s1] s2] s3] s4])
qed

lemma gc_example_absorbed:
  "gc_merge (gc_replica gc_example_system (replicate 16 2)) (gc_replica gc_example_system j) =
   gc_replica gc_example_system (replicate 16 2)"
  by (simp add: gc_example_system_def gc_merge_def gc_new_def bt_upsert_def entry_or_def)

text \<open>
  In every run, no replica ever counts an increment that did not happen, and each counts all
  of its own: a slot is at most the node's true number of increments, with equality at home.
\<close>

theorem gc_never_overcounts:
  assumes "gc_reachable s"
  shows "gc_slot (gc_replica s i) n \<le> gc_incs s n \<and> gc_slot (gc_replica s i) i = gc_incs s i"
  using gc_reachable_inv [OF assms] by (simp add: gc_inv_def gc_sound_def)

theorem gc_never_overcounts_witness:
  "gc_reachable gc_example_system \<and>
   gc_slot (gc_replica gc_example_system (replicate 16 2)) (replicate 16 1) \<le> 1"
  using gc_never_overcounts [OF gc_example_reachable, of "replicate 16 2" "replicate 16 1"]
    gc_example_reachable
  by (simp add: gc_example_system_def)

text \<open>
  No increment is lost: a replica that has merged the current state of every other replica
  counts exactly the increments of the whole system, so \<^verbatim>\<open>value\<close> is their number.
\<close>

theorem gc_counts_every_increment:
  assumes "gc_reachable s" "\<forall>j. gc_merge (gc_replica s i) (gc_replica s j) = gc_replica s i"
  shows "gc_total (gc_replica s i) = (\<Sum>n | gc_incs s n > 0. gc_incs s n)"
proof -
  let ?c = "gc_replica s i"
  have inv: "gc_inv s" by (rule gc_reachable_inv [OF assms(1)])
  have slot: "gc_slot ?c n = gc_incs s n" for n
  proof (rule antisym)
    have "gc_incs s n = gc_slot (gc_replica s n) n"
      using inv by (simp add: gc_inv_def)
    also have "\<dots> \<le> gc_slot (gc_merge ?c (gc_replica s n)) n"
      using inv by (simp add: gc_inv_def gc_sound_def gc_slot_merge)
    also have "\<dots> = gc_slot ?c n" using assms(2) by simp
    finally show "gc_incs s n \<le> gc_slot ?c n" .
  qed (use inv in \<open>simp add: gc_inv_def gc_sound_def\<close>)
  have ok: "gc_ok ?c" using inv by (simp add: gc_inv_def gc_sound_def)
  have sub: "{n. gc_incs s n > 0} \<subseteq> fst ` set (gc_counts ?c)"
    using gc_slot_absent [of _ ?c] by (fastforce simp: slot)
  have "gc_total ?c = (\<Sum>n\<in>fst ` set (gc_counts ?c). gc_incs s n)"
    by (simp add: gc_total_slots [OF ok] slot)
  also have "\<dots> = (\<Sum>n | gc_incs s n > 0. gc_incs s n)"
    using sub by (intro sum.mono_neutral_right) auto
  finally show ?thesis .
qed

theorem gc_counts_every_increment_witness:
  "gc_total (gc_replica gc_example_system (replicate 16 2)) =
     (\<Sum>n | gc_incs gc_example_system n > 0. gc_incs gc_example_system n) \<and>
   gc_total (gc_replica gc_example_system (replicate 16 2)) = 2"
proof
  show "gc_total (gc_replica gc_example_system (replicate 16 2)) =
     (\<Sum>n | gc_incs gc_example_system n > 0. gc_incs gc_example_system n)"
    by (rule gc_counts_every_increment) (simp_all add: gc_example_reachable gc_example_absorbed)
qed (simp add: gc_example_system_def gc_total_def)

end
