(* ===== verification/Lww_Register.thy ===== *)
theory Lww_Register
  imports Hlc Mergeable
begin

text \<open>
  The last-writer-wins register of \<^verbatim>\<open>crates/mercury-crdt/src/lww_register.rs\<close>. A clock
  that is used for one write only determines the value, which is what the laws need:
  \<open>lww_written W\<close> says that the register holds the value \<open>W\<close> assigns to its clock.
\<close>

section \<open>Operations\<close>

record 'a lww_register =
  lww_value :: 'a
  lww_timestamp :: hlc

definition lww_new :: "'a \<Rightarrow> hlc \<Rightarrow> 'a lww_register" where
  "lww_new v t = \<lparr>lww_value = v, lww_timestamp = t\<rparr>"

definition lww_set :: "'a \<Rightarrow> hlc \<Rightarrow> 'a lww_register \<Rightarrow> 'a lww_register" where
  "lww_set v t self =
     (if t > lww_timestamp self then self\<lparr>lww_value := v, lww_timestamp := t\<rparr> else self)"

definition lww_get :: "'a lww_register \<Rightarrow> 'a" where
  "lww_get self = lww_value self"

definition lww_get_timestamp :: "'a lww_register \<Rightarrow> hlc" where
  "lww_get_timestamp self = lww_timestamp self"

definition lww_merge :: "'a lww_register \<Rightarrow> 'a lww_register \<Rightarrow> 'a lww_register" where
  "lww_merge self other =
     (if lww_timestamp other > lww_timestamp self
      then self\<lparr>lww_value := lww_value other, lww_timestamp := lww_timestamp other\<rparr>
      else self)"

lemmas [rust_defs] = lww_new_def lww_set_def lww_get_def lww_get_timestamp_def lww_merge_def

definition lww_written :: "(hlc \<Rightarrow> 'a) \<Rightarrow> 'a lww_register \<Rightarrow> bool" where
  "lww_written W r \<longleftrightarrow> lww_value r = W (lww_timestamp r)"

lemma lww_ext: "lww_written W a \<Longrightarrow> lww_written W b \<Longrightarrow> a = b \<longleftrightarrow> lww_timestamp a = lww_timestamp b"
  by (cases a; cases b) (auto simp: lww_written_def)

lemma lww_timestamp_merge [simp]:
  "lww_timestamp (lww_merge a b) = max (lww_timestamp a) (lww_timestamp b)"
  by (auto simp: lww_merge_def max_def)

lemma lww_written_merge [rust_inv]:
  "lww_written W a \<Longrightarrow> lww_written W b \<Longrightarrow> lww_written W (lww_merge a b)"
  by (simp add: lww_written_def lww_merge_def)

interpretation lww: mergeable_view lww_merge "(=)" "lww_written W" lww_timestamp max for W
  by unfold_locales (simp_all add: rust_inv ac_simps lww_ext)

section \<open>Correctness\<close>

text \<open>
  C29. Merge is associative and idempotent on all registers, and commutative exactly for pairs
  that do not hold different values under the same clock: there each side keeps its own value.
\<close>

theorem lww_merge_laws:
  "lww_merge (lww_merge a b) c = lww_merge a (lww_merge b c) \<and> lww_merge a a = a \<and>
   (lww_merge a b = lww_merge b a \<longleftrightarrow>
     \<not> (lww_timestamp a = lww_timestamp b \<and> lww_value a \<noteq> lww_value b))"
  by (cases a; cases b; cases c) (auto simp: lww_merge_def)

text \<open>
  A write is the merge of the register holding it alone: it takes effect when its clock is
  strictly newer, and a stale or repeated write leaves the register unchanged.
\<close>

theorem lww_set_is_merge:
  "lww_set v t r = lww_merge r (lww_new v t) \<and>
   lww_get (lww_set v t r) = (if lww_timestamp r < t then v else lww_get r) \<and>
   lww_set w t (lww_set v t r) = lww_set v t r"
  by (simp add: lww_set_def lww_merge_def lww_new_def lww_get_def)

lemma lww_merge_all_timestamp:
  "lww_timestamp (merge_all lww_merge s xs) = Max (lww_timestamp ` set (s # xs))"
proof (induction xs arbitrary: s)
  case (Cons x xs)
  then show ?case
    by (cases "xs = []") (simp_all add: merge_all_def Max_insert ac_simps)
qed (simp add: merge_all_def)

text \<open>
  C28. Last writer wins: when every clock stands for one write, a replica that has merged any
  list of registers, in any order and with duplicates, holds the write with the largest clock.
\<close>

theorem lww_last_writer_wins:
  assumes "\<forall>x \<in> set (s # xs). lww_written W x"
    and "T = Max (lww_timestamp ` set (s # xs))"
  shows "merge_all lww_merge s xs = \<lparr>lww_value = W T, lww_timestamp = T\<rparr>"
proof -
  have "lww_written W (merge_all lww_merge s xs)"
    unfolding merge_all_def using assms(1) by (intro lww.merge_all_good) auto
  then show ?thesis
    using lww_merge_all_timestamp [of s xs] assms(2)
    by (cases "merge_all lww_merge s xs") (simp add: lww_written_def)
qed

theorem lww_last_writer_wins_witness:
  "let h1 = \<lparr>wall_clock_ms = 5, counter = 0, node_id = replicate 16 1\<rparr>;
       h2 = \<lparr>wall_clock_ms = 5, counter = 1, node_id = replicate 16 1\<rparr>;
       W = (\<lambda>t. if t = h1 then ''old'' else ''new'')
   in merge_all lww_merge (lww_new ''new'' h2) [lww_new ''old'' h1] = lww_new ''new'' h2"
proof -
  let ?h1 = "\<lparr>wall_clock_ms = 5, counter = 0, node_id = replicate 16 1\<rparr>"
  let ?h2 = "\<lparr>wall_clock_ms = 5, counter = 1, node_id = replicate 16 1\<rparr>"
  have lt: "?h1 < ?h2" by (simp add: hlc_less_iff)
  show ?thesis
    using lww_last_writer_wins [of "lww_new ''new'' ?h2" "[lww_new ''old'' ?h1]"
        "\<lambda>t. if t = ?h1 then ''old'' else ''new''" ?h2] lt
    by (simp add: lww_written_def lww_new_def Let_def max_def)
qed

end
