(* ===== verification/Ids.thy ===== *)
theory Ids
  imports Prelude
begin

text \<open>
  The identifiers of \<^verbatim>\<open>crates/mercury-core/src/ids.rs\<close>: five distinct types over sixteen
  bytes, so that an id of one kind cannot stand where another is expected; three of them are
  made by the macro \<^verbatim>\<open>uuid_id!\<close>. The crates \<^verbatim>\<open>uuid\<close> and \<^verbatim>\<open>ulid\<close> behind
  them are parameters: their text form and its parser (\<open>id_text\<close>), the timestamp of a ULID,
  and the sixteen bytes a new id draws, which are an argument. The order of message ids is the
  derived one, the order of the ULIDs' 128 bits, which is the lexicographic order of the bytes.
\<close>

section \<open>The types and their operations\<close>

datatype tenant_id = Tenant_Id bytes16
datatype message_id = Message_Id bytes16
datatype channel_id = Channel_Id bytes16
datatype user_id = User_Id bytes16
datatype device_id = Device_Id bytes16

text \<open>The text form of a crate's sixteen-byte ids, and its parser.\<close>

record 'e id_text =
  it_fmt :: "bytes16 \<Rightarrow> string"
  it_from_str :: "string \<Rightarrow> ('e, bytes16) result"

definition tenant_id_new :: "bytes16 \<Rightarrow> tenant_id" where
  "tenant_id_new fresh = Tenant_Id fresh"

definition tenant_id_from_bytes :: "bytes16 \<Rightarrow> tenant_id" where
  "tenant_id_from_bytes b = Tenant_Id b"

fun tenant_id_as_bytes :: "tenant_id \<Rightarrow> bytes16" where
  "tenant_id_as_bytes (Tenant_Id b) = b"

definition tenant_id_default :: "bytes16 \<Rightarrow> tenant_id" where
  "tenant_id_default fresh = tenant_id_new fresh"

fun tenant_id_fmt :: "'e id_text \<Rightarrow> tenant_id \<Rightarrow> string" where
  "tenant_id_fmt crate (Tenant_Id b) = it_fmt crate b"

definition tenant_id_from_str :: "'e id_text \<Rightarrow> string \<Rightarrow> ('e, tenant_id) result" where
  "tenant_id_from_str crate s = result_map Tenant_Id (it_from_str crate s)"

definition message_id_new :: "bytes16 \<Rightarrow> message_id" where
  "message_id_new fresh = Message_Id fresh"

definition message_id_from_bytes :: "bytes16 \<Rightarrow> message_id" where
  "message_id_from_bytes b = Message_Id b"

fun message_id_as_bytes :: "message_id \<Rightarrow> bytes16" where
  "message_id_as_bytes (Message_Id b) = b"

fun message_id_timestamp_ms :: "(bytes16 \<Rightarrow> u64) \<Rightarrow> message_id \<Rightarrow> u64" where
  "message_id_timestamp_ms ulid_timestamp (Message_Id b) = ulid_timestamp b"

definition message_id_default :: "bytes16 \<Rightarrow> message_id" where
  "message_id_default fresh = message_id_new fresh"

fun message_id_fmt :: "'e id_text \<Rightarrow> message_id \<Rightarrow> string" where
  "message_id_fmt crate (Message_Id b) = it_fmt crate b"

definition message_id_from_str :: "'e id_text \<Rightarrow> string \<Rightarrow> ('e, message_id) result" where
  "message_id_from_str crate s = result_map Message_Id (it_from_str crate s)"

definition channel_id_new :: "bytes16 \<Rightarrow> channel_id" where
  "channel_id_new fresh = Channel_Id fresh"

definition channel_id_from_bytes :: "bytes16 \<Rightarrow> channel_id" where
  "channel_id_from_bytes b = Channel_Id b"

fun channel_id_as_bytes :: "channel_id \<Rightarrow> bytes16" where
  "channel_id_as_bytes (Channel_Id b) = b"

definition channel_id_default :: "bytes16 \<Rightarrow> channel_id" where
  "channel_id_default fresh = channel_id_new fresh"

fun channel_id_fmt :: "'e id_text \<Rightarrow> channel_id \<Rightarrow> string" where
  "channel_id_fmt crate (Channel_Id b) = it_fmt crate b"

definition channel_id_from_str :: "'e id_text \<Rightarrow> string \<Rightarrow> ('e, channel_id) result" where
  "channel_id_from_str crate s = result_map Channel_Id (it_from_str crate s)"

definition user_id_new :: "bytes16 \<Rightarrow> user_id" where
  "user_id_new fresh = User_Id fresh"

definition user_id_from_bytes :: "bytes16 \<Rightarrow> user_id" where
  "user_id_from_bytes b = User_Id b"

fun user_id_as_bytes :: "user_id \<Rightarrow> bytes16" where
  "user_id_as_bytes (User_Id b) = b"

definition user_id_default :: "bytes16 \<Rightarrow> user_id" where
  "user_id_default fresh = user_id_new fresh"

fun user_id_fmt :: "'e id_text \<Rightarrow> user_id \<Rightarrow> string" where
  "user_id_fmt crate (User_Id b) = it_fmt crate b"

definition user_id_from_str :: "'e id_text \<Rightarrow> string \<Rightarrow> ('e, user_id) result" where
  "user_id_from_str crate s = result_map User_Id (it_from_str crate s)"

definition device_id_new :: "bytes16 \<Rightarrow> device_id" where
  "device_id_new fresh = Device_Id fresh"

definition device_id_from_bytes :: "bytes16 \<Rightarrow> device_id" where
  "device_id_from_bytes b = Device_Id b"

fun device_id_as_bytes :: "device_id \<Rightarrow> bytes16" where
  "device_id_as_bytes (Device_Id b) = b"

definition device_id_default :: "bytes16 \<Rightarrow> device_id" where
  "device_id_default fresh = device_id_new fresh"

fun device_id_fmt :: "'e id_text \<Rightarrow> device_id \<Rightarrow> string" where
  "device_id_fmt crate (Device_Id b) = it_fmt crate b"

definition device_id_from_str :: "'e id_text \<Rightarrow> string \<Rightarrow> ('e, device_id) result" where
  "device_id_from_str crate s = result_map Device_Id (it_from_str crate s)"

lemmas id_defs [rust_defs] =
  tenant_id_new_def tenant_id_from_bytes_def tenant_id_default_def tenant_id_from_str_def
  message_id_new_def message_id_from_bytes_def message_id_default_def message_id_from_str_def
  channel_id_new_def channel_id_from_bytes_def channel_id_default_def channel_id_from_str_def
  user_id_new_def user_id_from_bytes_def user_id_default_def user_id_from_str_def
  device_id_new_def device_id_from_bytes_def device_id_default_def device_id_from_str_def

section \<open>The order of message ids\<close>

text \<open>The derived comparisons of the id type compare its one field, an array of 16 bytes.\<close>

definition message_id_le :: "message_id \<Rightarrow> message_id \<Rightarrow> bool" where
  "message_id_le a b \<longleftrightarrow> message_id_as_bytes a \<le> message_id_as_bytes b"

definition message_id_lt :: "message_id \<Rightarrow> message_id \<Rightarrow> bool" where
  "message_id_lt a b \<longleftrightarrow> message_id_as_bytes a < message_id_as_bytes b"

instantiation message_id :: linorder
begin

definition less_eq_message_id :: "message_id \<Rightarrow> message_id \<Rightarrow> bool" where
  "less_eq_message_id = message_id_le"

definition less_message_id :: "message_id \<Rightarrow> message_id \<Rightarrow> bool" where
  "less_message_id = message_id_lt"

instance
proof
  fix a b :: message_id
  show "a \<le> b \<Longrightarrow> b \<le> a \<Longrightarrow> a = b"
    by (cases a; cases b) (simp add: less_eq_message_id_def message_id_le_def)
qed (auto simp: less_eq_message_id_def less_message_id_def message_id_le_def message_id_lt_def)

end

lemma less_message_id_simps [simp]:
  "Message_Id a \<le> Message_Id b \<longleftrightarrow> a \<le> b" "Message_Id a < Message_Id b \<longleftrightarrow> a < b"
  by (simp_all add: less_eq_message_id_def less_message_id_def message_id_le_def message_id_lt_def)

text \<open>On byte strings of one length the lexicographic order is that of the big-endian values.\<close>

lemma be_nat_Cons: "be_nat (b # bs) = unat b * 256 ^ length bs + be_nat bs"
proof (induction bs rule: rev_induct)
  case (snoc c bs)
  have "be_nat (b # bs @ [c]) = be_nat (b # bs) * 256 + unat c"
    using be_nat_snoc [of "b # bs" c] by simp
  then show ?case using snoc by (simp add: be_nat_snoc algebra_simps)
qed (simp add: be_nat_def)

lemma be_nat_less_iff: "length as = length bs \<Longrightarrow> as < bs \<longleftrightarrow> be_nat as < be_nat bs"
proof (induction as bs rule: list_induct2)
  case (Cons a as b bs)
  let ?B = "256 ^ length bs"
  have bounds: "be_nat as < ?B" "be_nat bs < ?B"
    using be_nat_bound [of as] be_nat_bound [of bs] Cons.hyps by simp_all
  have step: "unat x * ?B + m < unat y * ?B + n" if "x < y" "m < ?B" for x y :: u8 and m n
  proof -
    have "unat x * ?B + m < Suc (unat x) * ?B" using that(2) by simp
    also have "\<dots> \<le> unat y * ?B" using that(1) by (intro mult_le_mono1) (simp add: word_less_nat_alt Suc_le_eq)
    finally show ?thesis by linarith
  qed
  show ?case
    using Cons step [of a b "be_nat as" "be_nat bs"] step [of b a "be_nat bs" "be_nat as"] bounds
    by (cases a b rule: linorder_cases) (auto simp: be_nat_Cons)
qed simp

lemma take_mono: "as \<le> bs \<Longrightarrow> take n as \<le> take n (bs :: 'a::linorder list)"
proof (induction n arbitrary: as bs)
  case (Suc n)
  then show ?case by (cases as; cases bs) auto
qed simp

section \<open>Correctness\<close>

text \<open>
  Ids survive their text and byte forms: when the crate's parser reads back what it prints,
  \<^verbatim>\<open>from_str\<close> after \<^verbatim>\<open>to_string\<close> gives every kind of id back, and so does
  \<^verbatim>\<open>from_bytes\<close> after \<^verbatim>\<open>as_bytes\<close>; a text the crate refuses is refused with the
  crate's own error, and a new id carries exactly the bytes drawn for it.
\<close>

theorem id_roundtrips:
  assumes "\<And>b. length b = 16 \<Longrightarrow> it_from_str uuid (it_fmt uuid b) = Ok b"
    and "\<And>b. length b = 16 \<Longrightarrow> it_from_str ulid (it_fmt ulid b) = Ok b"
    and "length (tenant_id_as_bytes t) = 16" "length (message_id_as_bytes m) = 16"
      "length (channel_id_as_bytes c) = 16" "length (user_id_as_bytes u) = 16"
      "length (device_id_as_bytes d) = 16"
  shows "tenant_id_from_str uuid (tenant_id_fmt uuid t) = Ok t \<and>
    message_id_from_str ulid (message_id_fmt ulid m) = Ok m \<and>
    channel_id_from_str uuid (channel_id_fmt uuid c) = Ok c \<and>
    user_id_from_str uuid (user_id_fmt uuid u) = Ok u \<and>
    device_id_from_str uuid (device_id_fmt uuid d) = Ok d \<and>
    tenant_id_from_bytes (tenant_id_as_bytes t) = t \<and>
    message_id_from_bytes (message_id_as_bytes m) = m \<and>
    channel_id_from_bytes (channel_id_as_bytes c) = c \<and>
    user_id_from_bytes (user_id_as_bytes u) = u \<and>
    device_id_from_bytes (device_id_as_bytes d) = d \<and>
    (tenant_id_from_str uuid s = Err e \<longleftrightarrow> it_from_str uuid s = Err e) \<and>
    message_id_as_bytes (message_id_default fresh) = fresh"
  using assms by (cases t; cases m; cases c; cases u; cases d; cases "it_from_str uuid s")
    (simp_all add: id_defs)

text \<open>
  A text form for the witness: the sixteen bytes as characters, refused at any other length.
\<close>

definition char_text :: "string id_text" where
  "char_text =
     \<lparr>it_fmt = map (\<lambda>b. char_of (unat b)),
      it_from_str = (\<lambda>s. if length s = 16 then Ok (map (\<lambda>c. of_nat (of_char c)) s)
        else Err ''invalid length'')\<rparr>"

lemma char_text_roundtrip: "length b = 16 \<Longrightarrow> it_from_str char_text (it_fmt char_text b) = Ok b"
proof -
  have "of_nat (of_char (char_of (unat x))) = x" for x :: u8
  proof -
    have "unat x < 2 ^ LENGTH(8)" by (rule unsigned_less)
    then show ?thesis by simp
  qed
  then show "length b = 16 \<Longrightarrow> it_from_str char_text (it_fmt char_text b) = Ok b"
    by (simp add: char_text_def comp_def)
qed

theorem id_roundtrips_witness:
  "tenant_id_from_str char_text (tenant_id_fmt char_text (Tenant_Id (replicate 16 65))) =
     Ok (Tenant_Id (replicate 16 65)) \<and>
   tenant_id_from_str char_text ''abc'' = Err ''invalid length''"
  using id_roundtrips [of char_text char_text "Tenant_Id (replicate 16 65)"
      "Message_Id (replicate 16 1)" "Channel_Id (replicate 16 2)" "User_Id (replicate 16 3)"
      "Device_Id (replicate 16 4)" "''abc''" "''invalid length''"]
  by (simp add: char_text_roundtrip) (simp add: char_text_def)

text \<open>The derived order against a ULID's timestamp, the value of its first six bytes.\<close>

lemma message_id_order:
  assumes "\<And>b. length b = 16 \<Longrightarrow> unat (ulid_timestamp b) = be_nat (take 6 b)"
    and "length (message_id_as_bytes a) = 16" "length (message_id_as_bytes b) = 16"
  shows "(message_id_timestamp_ms ulid_timestamp a < message_id_timestamp_ms ulid_timestamp b \<longrightarrow> a < b) \<and>
    (a \<le> b \<longrightarrow> message_id_timestamp_ms ulid_timestamp a \<le> message_id_timestamp_ms ulid_timestamp b) \<and>
    (message_id_timestamp_ms ulid_timestamp a = message_id_timestamp_ms ulid_timestamp b \<longrightarrow>
      (a < b \<longleftrightarrow> drop 6 (message_id_as_bytes a) < drop 6 (message_id_as_bytes b)))"
proof -
  obtain x y where ab: "a = Message_Id x" "b = Message_Id y" by (cases a; cases b)
  have len: "length x = 16" "length y = 16" using assms(2,3) ab by simp_all
  have ts: "message_id_timestamp_ms ulid_timestamp a < message_id_timestamp_ms ulid_timestamp b \<longleftrightarrow>
      take 6 x < take 6 y" if "a = Message_Id x" "b = Message_Id y" "length x = 16" "length y = 16" for a b x y
    using that be_nat_less_iff [of "take 6 x" "take 6 y"] by (simp add: word_less_nat_alt assms(1))
  have eq: "message_id_timestamp_ms ulid_timestamp a = message_id_timestamp_ms ulid_timestamp b \<longleftrightarrow>
      take 6 x = take 6 y"
    using ts [OF ab len] ts [OF ab(2,1) len(2,1)] by (metis less_irrefl neqE)
  have mono: "x \<le> y \<Longrightarrow> take 6 x \<le> take 6 y" by (rule take_mono)
  have split: "x < y \<longleftrightarrow> drop 6 x < drop 6 y" if "take 6 x = take 6 y"
  proof -
    have "x = take 6 x @ drop 6 x" "y = take 6 x @ drop 6 y"
      using that append_take_drop_id [of 6 x] append_take_drop_id [of 6 y] by simp_all
    moreover have "us @ vs < us @ ws \<longleftrightarrow> vs < ws" for us vs ws :: bytes
      by (induction us) simp_all
    ultimately show ?thesis by metis
  qed
  have "y < x" if "take 6 y < take 6 x"
    using take_mono [of x y 6] that by (meson leD leI)
  moreover have "x < y" if "take 6 x < take 6 y"
    using take_mono [of y x 6] that by (meson leD leI)
  ultimately show ?thesis
    using ts [OF ab len] ts [OF ab(2,1) len(2,1)] eq split
    by (auto simp: ab not_less [symmetric])
qed

text \<open>The timestamp of a ULID, its first six bytes, for the witnesses.\<close>

definition ulid_prefix :: "bytes16 \<Rightarrow> u64" where
  "ulid_prefix b = of_nat (be_nat (take 6 b))"

lemma unat_ulid_prefix: "unat (ulid_prefix b) = be_nat (take 6 b)" "be_nat (take 6 b) < 2 ^ 48"
proof -
  have "be_nat (take 6 b) < 256 ^ length (take 6 b)" by (rule be_nat_bound)
  also have "(256::nat) ^ length (take 6 b) \<le> 256 ^ 6" by (intro power_increasing) simp_all
  finally show "be_nat (take 6 b) < 2 ^ 48" by simp
  then show "unat (ulid_prefix b) = be_nat (take 6 b)" by (simp add: ulid_prefix_def unat_of_nat)
qed

end
