(* ===== verification/Orset.thy ===== *)
theory Orset
  imports Collections Mergeable
begin

text \<open>
  The set CRDT of \<^verbatim>\<open>crates/mercury-crdt/src/orset.rs\<close>: elements mapped to the dots of
  their additions, and the next sequence number of every node. The value of a set is its
  content per element together with the sequence numbers (\<open>os_view\<close>), the membership
  interface its clients use is the locale \<open>observed_set\<close>, and the last section is a system
  of replicas in which no dot is ever issued twice.
\<close>

section \<open>Dots\<close>

record dot =
  dot_node :: bytes16
  dot_seq :: u64

definition dot_key :: "'a dot_scheme \<Rightarrow> bytes16 \<times> u64 \<times> 'a" where
  "dot_key d = (dot_node d, dot_seq d, dot.more d)"

lemma dot_key_inject: "dot_key a = dot_key b \<longleftrightarrow> a = b"
  by (cases a; cases b) (auto simp: dot_key_def)

instantiation dot_ext :: (linorder) linorder
begin

definition less_eq_dot_ext :: "'a dot_scheme \<Rightarrow> 'a dot_scheme \<Rightarrow> bool" where
  "less_eq_dot_ext a b \<longleftrightarrow> dot_key a \<le> dot_key b"

definition less_dot_ext :: "'a dot_scheme \<Rightarrow> 'a dot_scheme \<Rightarrow> bool" where
  "less_dot_ext a b \<longleftrightarrow> dot_key a < dot_key b"

instance
  by standard (auto simp: less_eq_dot_ext_def less_dot_ext_def dot_key_inject less_le_not_le)

end

section \<open>Operations\<close>

record 'a orset =
  os_entries :: "('a, dot list) hashmap"
  os_next_seq :: "(bytes16, u64) hashmap"

definition os_new :: "'a orset" where
  "os_new = \<lparr>os_entries = [], os_next_seq = []\<rparr>"

definition os_default :: "'a orset" where
  "os_default = os_new"

definition os_add :: "overflow \<Rightarrow> 'a \<Rightarrow> bytes16 \<Rightarrow> 'a orset \<Rightarrow> 'a orset exec" where
  "os_add m v node self =
     exec_bind (add_ovf m (entry_or node 0 (os_next_seq self)) 1) (\<lambda>seq.
       let d = \<lparr>dot_node = node, dot_seq = seq\<rparr> in
       Ret (self\<lparr>os_next_seq := hm_insert node seq (os_next_seq self),
                 os_entries := hm_upsert v [] (bs_insert d) (os_entries self)\<rparr>))"

definition os_remove :: "'a \<Rightarrow> 'a orset \<Rightarrow> 'a orset" where
  "os_remove v self = self\<lparr>os_entries := hm_remove v (os_entries self)\<rparr>"

definition os_contains :: "'a \<Rightarrow> 'a orset \<Rightarrow> bool" where
  "os_contains v self =
     (case map_of (os_entries self) v of None \<Rightarrow> False | Some dots \<Rightarrow> dots \<noteq> [])"

definition os_elements :: "'a orset \<Rightarrow> 'a list" where
  "os_elements self = map fst (filter (\<lambda>(_, dots). dots \<noteq> []) (os_entries self))"

definition os_len :: "'a orset \<Rightarrow> nat" where
  "os_len self = length (filter (\<lambda>dots. dots \<noteq> []) (map snd (os_entries self)))"

definition os_is_empty :: "'a orset \<Rightarrow> bool" where
  "os_is_empty self \<longleftrightarrow> os_len self = 0"

definition os_merge :: "'a orset \<Rightarrow> 'a orset \<Rightarrow> 'a orset" where
  "os_merge self other =
     self\<lparr>os_entries :=
            fold (\<lambda>(v, other_dots). hm_upsert v [] (\<lambda>dots. fold bs_insert other_dots dots))
              (os_entries other) (os_entries self),
          os_next_seq :=
            fold (\<lambda>(node, seq). hm_upsert node 0 (\<lambda>entry. max entry seq))
              (os_next_seq other) (os_next_seq self)\<rparr>"

definition os_eq :: "'a orset \<Rightarrow> 'a orset \<Rightarrow> bool" where
  "os_eq a b \<longleftrightarrow>
     hm_eq (=) (os_entries a) (os_entries b) \<and> hm_eq (=) (os_next_seq a) (os_next_seq b)"

lemmas [rust_defs] =
  os_new_def os_default_def os_add_def os_remove_def os_contains_def os_elements_def os_len_def
  os_is_empty_def os_merge_def os_eq_def

section \<open>Invariant and value\<close>

definition os_ok :: "'a orset \<Rightarrow> bool" where
  "os_ok s \<longleftrightarrow>
     hm_ok (os_entries s) \<and> hm_ok (os_next_seq s) \<and>
     (\<forall>v d. map_of (os_entries s) v = Some d \<longrightarrow> bs_ok d)"

definition os_dots :: "'a orset \<Rightarrow> 'a \<Rightarrow> dot set" where
  "os_dots s v = (case map_of (os_entries s) v of None \<Rightarrow> {} | Some d \<Rightarrow> set d)"

definition os_seq :: "'a orset \<Rightarrow> bytes16 \<Rightarrow> nat" where
  "os_seq s n = unat (entry_or n 0 (os_next_seq s))"

definition os_view :: "'a orset \<Rightarrow> ('a \<rightharpoonup> dot set) \<times> (bytes16 \<rightharpoonup> u64)" where
  "os_view s = (map_option set \<circ> map_of (os_entries s), map_of (os_next_seq s))"

definition os_join ::
  "('a \<rightharpoonup> dot set) \<times> (bytes16 \<rightharpoonup> u64) \<Rightarrow> ('a \<rightharpoonup> dot set) \<times> (bytes16 \<rightharpoonup> u64) \<Rightarrow>
   ('a \<rightharpoonup> dot set) \<times> (bytes16 \<rightharpoonup> u64)" where
  "os_join a b = (map_join (\<union>) (fst a) (fst b), map_join max (snd a) (snd b))"

lemma os_ok_new [rust_inv]: "os_ok os_new"
  by (simp add: os_ok_def os_new_def)

lemma os_seq_new [simp]: "os_seq os_new n = 0"
  by (simp add: os_seq_def os_new_def entry_or_def)

lemma os_ok_add [rust_inv]: "os_add m v node s = Ret s' \<Longrightarrow> os_ok s \<Longrightarrow> os_ok s'"
  by (auto simp: os_ok_def os_add_def Let_def hm.ok_upsert hm.get_upsert
      split: if_splits option.splits)

lemma os_ok_remove [rust_inv]: "os_ok s \<Longrightarrow> os_ok (os_remove v s)"
  by (auto simp: os_ok_def os_remove_def split: if_splits)

lemma fold_bs_insert_Nil [simp]: "bs_ok d \<Longrightarrow> fold bs_insert d [] = d"
  by (rule bs_ext) auto

lemma map_of_os_merge:
  assumes "os_ok a" "os_ok b"
  shows "map_of (os_entries (os_merge a b)) v =
      (case map_of (os_entries b) v of
         None \<Rightarrow> map_of (os_entries a) v
       | Some d \<Rightarrow> Some (fold bs_insert d (entry_or v [] (os_entries a))))"
    and "map_of (os_next_seq (os_merge a b)) = map_join max (map_of (os_next_seq a)) (map_of (os_next_seq b))"
  using assms
  by (auto simp: os_ok_def os_merge_def hm.get_merge_loop [where g = "\<lambda>d dots. fold bs_insert d dots"]
      hm_merge_loop [where g = "\<lambda>w e. max e w"] hm_ok_def entry_or_def split: option.splits)

lemma os_ok_merge [rust_inv]:
  assumes "os_ok a" "os_ok b"
  shows "os_ok (os_merge a b)"
  unfolding os_ok_def
proof (intro conjI allI impI)
  show "hm_ok (os_entries (os_merge a b))" "hm_ok (os_next_seq (os_merge a b))"
    using assms by (simp_all add: os_ok_def os_merge_def hm.ok_merge_loop
        [where g = "\<lambda>d dots. fold bs_insert d dots"] hm.ok_merge_loop [where g = "\<lambda>w e. max e w"])
next
  fix v d assume "map_of (os_entries (os_merge a b)) v = Some d"
  with assms show "bs_ok d"
    by (auto simp: map_of_os_merge os_ok_def entry_or_def split: option.splits)
qed

lemma os_view_merge: "os_ok a \<Longrightarrow> os_ok b \<Longrightarrow> os_view (os_merge a b) = os_join (os_view a) (os_view b)"
  by (auto simp: os_view_def os_join_def map_of_os_merge map_join_def fun_eq_iff entry_or_def
      split: option.splits)

lemma os_eq_view:
  assumes "os_ok a" "os_ok b"
  shows "os_eq a b \<longleftrightarrow> os_view a = os_view b"
proof -
  have "map_of (os_entries a) = map_of (os_entries b)"
    if "map_option set \<circ> map_of (os_entries a) = map_option set \<circ> map_of (os_entries b)"
  proof
    fix v
    have "map_option set (map_of (os_entries a) v) = map_option set (map_of (os_entries b) v)"
      using that by (metis comp_apply)
    then show "map_of (os_entries a) v = map_of (os_entries b) v"
      using assms by (cases "map_of (os_entries a) v"; cases "map_of (os_entries b) v")
        (auto simp: os_ok_def intro: bs_ext)
  qed
  then show ?thesis
    using assms by (auto simp: os_eq_def os_view_def os_ok_def hm_eq_iff)
qed

lemma os_join_laws:
  "os_join a b = os_join b a" "os_join (os_join a b) c = os_join a (os_join b c)" "os_join a a = a"
  by (simp_all add: os_join_def map_join_max(2,3) map_join_idem map_join_assoc Un_assoc)
    (simp add: map_join_max(1) map_join_comm Un_commute)

interpretation os: mergeable_view os_merge os_eq os_ok os_view os_join
  by unfold_locales (simp_all add: os_eq_view os_view_merge os_join_laws(2,3) rust_inv, rule os_join_laws(1))

section \<open>The membership interface\<close>

text \<open>
  What a client of the set (the reaction map) relies on: the set of members, how the operations
  change it, and that the elements are listed once each.
\<close>

locale observed_set =
  fixes member :: "'s \<Rightarrow> 'a set"
    and elements :: "'s \<Rightarrow> 'a list"
    and add :: "'a \<Rightarrow> bytes16 \<Rightarrow> 's \<Rightarrow> 's exec"
    and remove :: "'a \<Rightarrow> 's \<Rightarrow> 's"
    and merge :: "'s \<Rightarrow> 's \<Rightarrow> 's"
    and ok :: "'s \<Rightarrow> bool"
  assumes member_add: "ok s \<Longrightarrow> add v n s = Ret s' \<Longrightarrow> member s' = insert v (member s)"
    and member_remove: "ok s \<Longrightarrow> member (remove v s) = member s - {v}"
    and member_merge: "ok a \<Longrightarrow> ok b \<Longrightarrow> member (merge a b) = member a \<union> member b"
    and set_elements: "ok s \<Longrightarrow> set (elements s) = member s"
    and distinct_elements: "ok s \<Longrightarrow> distinct (elements s)"
    and ok_merge: "ok a \<Longrightarrow> ok b \<Longrightarrow> ok (merge a b)"
begin

lemma count_members: "ok s \<Longrightarrow> length (filter P (elements s)) = card {v \<in> member s. P v}"
  using distinct_card [of "filter P (elements s)"]
  by (simp add: distinct_elements set_elements)

lemma finite_members: "ok s \<Longrightarrow> finite (member s)"
  by (simp flip: set_elements)

lemma member_merge_all:
  assumes "ok s" "\<forall>x \<in> set xs. ok x"
  shows "member (merge_all merge s xs) = (\<Union>x \<in> set (s # xs). member x)"
  using assms unfolding merge_all_def
  by (induction xs arbitrary: s) (auto simp: member_merge ok_merge)

end

lemma os_contains_dots: "os_contains v s \<longleftrightarrow> os_dots s v \<noteq> {}"
  by (simp add: os_contains_def os_dots_def split: option.splits)

lemma os_dots_merge: "os_ok a \<Longrightarrow> os_ok b \<Longrightarrow> os_dots (os_merge a b) v = os_dots a v \<union> os_dots b v"
  by (auto simp: os_dots_def map_of_os_merge entry_or_def split: option.splits)

lemma os_dots_remove [simp]: "os_dots (os_remove v s) w = (if w = v then {} else os_dots s w)"
  by (simp add: os_dots_def os_remove_def)

lemma os_add_Ret:
  assumes "os_add m v node s = Ret s'"
  obtains seq where "add_ovf m (entry_or node 0 (os_next_seq s)) 1 = Ret seq"
    "map_of (os_next_seq s') = (map_of (os_next_seq s))(node \<mapsto> seq)"
    "\<And>w. os_dots s' w =
      (if w = v then insert \<lparr>dot_node = node, dot_seq = seq\<rparr> (os_dots s v) else os_dots s w)"
  using assms
  by (auto simp: os_add_def Let_def os_dots_def hm_upsert_def entry_or_def split: option.splits)

lemma set_os_elements: "os_ok s \<Longrightarrow> set (os_elements s) = {v. os_contains v s}"
proof -
  assume "os_ok s"
  then have iff: "(v, d) \<in> set (os_entries s) \<longleftrightarrow> map_of (os_entries s) v = Some d" for v d
    by (simp add: os_ok_def hm_ok_def map_of_eq_Some_iff)
  have "v \<in> set (os_elements s) \<longleftrightarrow> (\<exists>d. (v, d) \<in> set (os_entries s) \<and> d \<noteq> [])" for v
    by (force simp: os_elements_def)
  then show ?thesis
    by (auto simp: iff os_contains_def split: option.splits)
qed

lemma distinct_os_elements: "os_ok s \<Longrightarrow> distinct (os_elements s)"
  by (simp add: os_elements_def os_ok_def hm_ok_def distinct_map_filter)

interpretation os_set: observed_set "\<lambda>s. {v. os_contains v s}" os_elements "os_add m" os_remove
  os_merge os_ok for m
  by unfold_locales
    (auto simp: os_contains_dots os_dots_merge set_os_elements [unfolded os_contains_dots]
      distinct_os_elements rust_inv elim!: os_add_Ret split: if_splits)

lemma os_eq_contains:
  assumes "os_eq a b" "os_ok a" "os_ok b"
  shows "os_contains v a = os_contains v b"
proof -
  have "map_of (os_entries a) = map_of (os_entries b)"
    using assms by (simp add: os_eq_def os_ok_def hm_eq_iff)
  then show ?thesis by (simp add: os_contains_def)
qed

lemma os_eq_maps:
  "os_ok a \<Longrightarrow> os_ok b \<Longrightarrow> os_eq a b \<longleftrightarrow>
     map_of (os_entries a) = map_of (os_entries b) \<and> map_of (os_next_seq a) = map_of (os_next_seq b)"
  by (simp add: os_eq_def os_ok_def hm_eq_iff)

lemma os_remove_cong: "os_eq a b \<Longrightarrow> os_ok a \<Longrightarrow> os_ok b \<Longrightarrow> os_eq (os_remove v a) (os_remove v b)"
  by (auto simp: os_eq_maps os_ok_remove) (auto simp: os_remove_def fun_eq_iff)

lemma os_add_cong:
  assumes "os_eq a b" "os_ok a" "os_ok b"
  shows "case os_add m v n a of
      Panic p \<Rightarrow> os_add m v n b = Panic p
    | Ret a' \<Rightarrow> \<exists>b'. os_add m v n b = Ret b' \<and> os_eq a' b'"
proof -
  have maps: "map_of (os_entries a) = map_of (os_entries b)" "map_of (os_next_seq a) = map_of (os_next_seq b)"
    using assms by (simp_all add: os_eq_maps)
  have seq: "add_ovf m (entry_or n 0 (os_next_seq a)) 1 = add_ovf m (entry_or n 0 (os_next_seq b)) 1"
    by (simp add: entry_or_def maps)
  show ?thesis
  proof (cases "os_add m v n a")
    case (Panic p)
    then show ?thesis by (auto simp: os_add_def Let_def exec_bind_eq_Panic seq)
  next
    case (Ret a')
    then obtain b' where b': "os_add m v n b = Ret b'"
      by (auto simp: os_add_def Let_def seq)
    have "map_of (os_entries a') = map_of (os_entries b') \<and> map_of (os_next_seq a') = map_of (os_next_seq b')"
      using Ret b' by (auto simp: os_add_def Let_def seq maps hm_upsert_def entry_or_def)
    then show ?thesis
      using Ret b' os_eq_maps [OF os_ok_add [OF Ret assms(2)] os_ok_add [OF b' assms(3)]] by simp
  qed
qed

lemma os_len_members: "os_ok s \<Longrightarrow> os_len s = card {w. os_contains w s}"
  using os_set.count_members [of s "\<lambda>_. True"]
  by (simp add: os_len_def os_elements_def filter_map comp_def case_prod_beta)

lemma os_is_empty_members: "os_ok s \<Longrightarrow> os_is_empty s \<longleftrightarrow> (\<forall>w. \<not> os_contains w s)"
  using os_set.finite_members [of s] by (auto simp: os_is_empty_def os_len_members)

section \<open>Correctness\<close>

text \<open>Two replicas' sets, for the witnesses: both hold \<open>1\<close>, the second also \<open>2\<close>.\<close>

definition os_example_a :: "nat orset" where
  "os_example_a =
     \<lparr>os_entries = [(1, [\<lparr>dot_node = replicate 16 1, dot_seq = 1\<rparr>])],
      os_next_seq = [(replicate 16 1, 1)]\<rparr>"

definition os_example_b :: "nat orset" where
  "os_example_b =
     \<lparr>os_entries = [(2, [\<lparr>dot_node = replicate 16 2, dot_seq = 1\<rparr>]),
                    (1, [\<lparr>dot_node = replicate 16 2, dot_seq = 2\<rparr>])],
      os_next_seq = [(replicate 16 2, 2)]\<rparr>"

lemma os_examples_ok: "os_ok os_example_a" "os_ok os_example_b"
  by (auto simp: os_ok_def hm_ok_def bs_ok_def os_example_a_def os_example_b_def split: if_splits)

text \<open>
  On one replica the set behaves as a set: an addition that returns makes exactly its value
  a member, a removal exactly unmakes it, \<^verbatim>\<open>elements\<close> lists every member once, and
  \<^verbatim>\<open>len\<close> and \<^verbatim>\<open>is_empty\<close> count the members.
\<close>

theorem os_local_set:
  assumes "os_ok s"
  shows "(\<forall>s'. os_add m v node s = Ret s' \<longrightarrow>
      (\<forall>w. os_contains w s' \<longleftrightarrow> w = v \<or> os_contains w s)) \<and>
    (\<forall>w. os_contains w (os_remove v s) \<longleftrightarrow> w \<noteq> v \<and> os_contains w s) \<and>
    distinct (os_elements s) \<and> set (os_elements s) = {w. os_contains w s} \<and>
    os_len s = card {w. os_contains w s} \<and>
    (os_is_empty s \<longleftrightarrow> (\<forall>w. \<not> os_contains w s))"
  using os_set.member_add [OF assms, of m v node] os_set.member_remove [OF assms, of v]
    os_set.set_elements [OF assms] os_set.distinct_elements [OF assms]
  by (auto simp: os_len_members [OF assms] os_is_empty_members [OF assms])

theorem os_local_set_witness:
  "os_contains 2 (os_remove 1 os_example_b) \<and> \<not> os_contains 1 (os_remove 1 os_example_b) \<and>
   os_len os_example_b = 2"
  using os_local_set [OF os_examples_ok(2), of Checked 1 "replicate 16 2"]
  by (simp add: os_example_b_def os_contains_def os_len_def)

text \<open>
  The laws of the trait, up to \<^verbatim>\<open>==\<close> and so whatever the iteration order of the hash
  maps: merge is commutative, associative and idempotent on well-formed sets.
\<close>

theorem os_merge_laws:
  assumes "os_ok a" "os_ok b" "os_ok c"
  shows "os_eq (os_merge a b) (os_merge b a) \<and>
    os_eq (os_merge (os_merge a b) c) (os_merge a (os_merge b c)) \<and> os_eq (os_merge a a) a"
  using assms os.commutative os.associative os.idempotent by blast

theorem os_merge_laws_witness:
  "os_eq (os_merge os_example_a os_example_b) (os_merge os_example_b os_example_a) \<and>
   os_merge os_example_a os_example_b \<noteq> os_merge os_example_b os_example_a"
  using os_merge_laws [OF os_examples_ok os_examples_ok(1)]
  by (simp add: os_merge_def os_example_a_def os_example_b_def hm_upsert_def hm_insert_def
      entry_or_def bs_insert_def insort_insert_key_def less_eq_dot_ext_def dot_key_def)

text \<open>
  Strong eventual consistency: replicas that have merged the same sets, in any order and
  with any duplicates, are equal.
\<close>

theorem os_convergence:
  assumes "\<forall>x \<in> set (s # xs). os_ok x" "\<forall>x \<in> set (t # ys). os_ok x"
    and "set (s # xs) = set (t # ys)"
  shows "os_eq (merge_all os_merge s xs) (merge_all os_merge t ys)"
  using assms by (rule os.convergence)

theorem os_convergence_witness:
  "os_eq (merge_all os_merge os_example_a [os_new, os_example_b])
     (merge_all os_merge os_example_b [os_example_b, os_example_a, os_new])"
  by (rule os_convergence) (auto simp: os_examples_ok os_ok_new)

text \<open>
  After a merge a value is a member exactly when it was one on either side, with the union
  of the dots: concurrent additions survive a removal.
\<close>

theorem os_merge_union:
  assumes "os_ok a" "os_ok b"
  shows "os_dots (os_merge a b) v = os_dots a v \<union> os_dots b v \<and>
    (os_contains v (os_merge a b) \<longleftrightarrow> os_contains v a \<or> os_contains v b)"
  using assms by (auto simp: os_contains_dots os_dots_merge)

theorem os_merge_union_witness:
  "os_contains 1 (os_merge (os_remove 1 os_example_a) os_example_b) \<and>
   \<not> os_contains 1 (os_remove 1 os_example_a)"
  using os_merge_union [OF os_ok_remove [OF os_examples_ok(1), of 1] os_examples_ok(2), of 1]
  by (simp add: os_example_a_def os_example_b_def os_contains_def os_remove_def hm_remove_def)

text \<open>
  C21. A removal does not survive synchronisation: merging a replica that removed a value with
  any replica still holding it, even with the very state the removal had observed, gives the
  value back, and merging with the state before the removal restores that state entirely.
\<close>

theorem os_removal_undone:
  assumes "os_ok s" "os_ok b" "os_contains v b"
  shows "os_contains v (os_merge (os_remove v s) b) \<and> os_contains v (os_merge b (os_remove v s)) \<and>
    os_eq (os_merge (os_remove v s) s) s \<and> os_eq (os_merge s (os_remove v s)) s"
proof -
  let ?r = "os_remove v s"
  have r: "os_ok ?r" using assms(1) by (rule os_ok_remove)
  have entries: "map_join (\<union>) (fst (os_view ?r)) (fst (os_view s)) = fst (os_view s)"
    by (auto simp: os_view_def os_remove_def map_join_def fun_eq_iff split: option.splits)
  have seqs: "map_join max (snd (os_view ?r)) (snd (os_view s)) = snd (os_view s)"
    by (simp add: os_view_def os_remove_def map_join_max(3))
  have "os_view (os_merge ?r s) = os_view s"
    using r assms(1) entries seqs by (simp add: os_view_merge os_join_def prod_eq_iff)
  then have restored: "os_eq (os_merge ?r s) s"
    using r assms(1) by (simp add: os_eq_view os_ok_merge)
  then have "os_eq (os_merge s ?r) s"
    using r assms(1) by (meson os.commutative os.eq_trans os_ok_merge)
  then show ?thesis
    using restored assms r by (auto simp: os_contains_dots os_dots_merge)
qed

theorem os_removal_undone_witness:
  "\<not> os_contains 1 (os_remove 1 os_example_a) \<and>
   os_contains 1 (os_merge (os_remove 1 os_example_a) os_example_a)"
proof -
  have "os_contains 1 os_example_a" by (simp add: os_contains_def os_example_a_def)
  from os_removal_undone [OF os_examples_ok(1,1) this] show ?thesis
    by (simp add: os_contains_dots)
qed

end
