(* ===== verification/Orset_Replicas.thy ===== *)
theory Orset_Replicas
  imports Orset
begin

text \<open>
  Replicas of one set, each adding under its own node id: every addition, removal, publication
  and merge in any order, with states delivered late, repeatedly or never. \<open>osr_issued\<close>
  records the dot of every addition with its value. A dot is issued once only, because a
  replica's own sequence number is never behind what any other has seen of it, and removals
  keep the sequence numbers.
\<close>

section \<open>Steps\<close>

record 'a os_replicas =
  osr_state :: "bytes16 \<Rightarrow> 'a orset"
  osr_sent :: "'a orset set"
  osr_issued :: "(dot \<times> 'a) list"

definition own_dot :: "bytes16 \<Rightarrow> 'a orset \<Rightarrow> dot" where
  "own_dot i s = \<lparr>dot_node = i, dot_seq = entry_or i 0 (os_next_seq s)\<rparr>"

inductive osr_step :: "'a os_replicas \<Rightarrow> 'a os_replicas \<Rightarrow> bool" where
  osr_add:
    "os_add Checked v i (osr_state r i) = Ret s \<Longrightarrow>
     osr_step r (r\<lparr>osr_state := (osr_state r)(i := s),
                   osr_issued := (own_dot i s, v) # osr_issued r\<rparr>)"
| osr_remove:
    "osr_step r (r\<lparr>osr_state := (osr_state r)(i := os_remove v (osr_state r i))\<rparr>)"
| osr_publish: "osr_step r (r\<lparr>osr_sent := insert (osr_state r i) (osr_sent r)\<rparr>)"
| osr_deliver:
    "s \<in> osr_sent r \<Longrightarrow>
     osr_step r (r\<lparr>osr_state := (osr_state r)(i := os_merge (osr_state r i) s)\<rparr>)"

inductive osr_reachable :: "'a os_replicas \<Rightarrow> bool" where
  osr_start: "osr_reachable \<lparr>osr_state = (\<lambda>_. os_new), osr_sent = {}, osr_issued = []\<rparr>"
| osr_next: "osr_reachable r \<Longrightarrow> osr_step r r' \<Longrightarrow> osr_reachable r'"

section \<open>The invariant\<close>

text \<open>What every state in the system satisfies, relative to the additions made.\<close>

definition osr_sound :: "(bytes16 \<Rightarrow> nat) \<Rightarrow> (dot \<times> 'a) set \<Rightarrow> 'a orset \<Rightarrow> bool" where
  "osr_sound bound issued s \<longleftrightarrow>
     os_ok s \<and> (\<forall>n. os_seq s n \<le> bound n) \<and> (\<forall>v. os_dots s v \<subseteq> {d. (d, v) \<in> issued})"

definition osr_bound :: "'a os_replicas \<Rightarrow> bytes16 \<Rightarrow> nat" where
  "osr_bound r n = os_seq (osr_state r n) n"

definition osr_inv :: "'a os_replicas \<Rightarrow> bool" where
  "osr_inv r \<longleftrightarrow>
     (\<forall>s \<in> range (osr_state r) \<union> osr_sent r. osr_sound (osr_bound r) (set (osr_issued r)) s) \<and>
     (\<forall>d \<in> fst ` set (osr_issued r). unat (dot_seq d) \<le> osr_bound r (dot_node d)) \<and>
     distinct (map fst (osr_issued r))"

lemma osr_sound_mono:
  "osr_sound f I s \<Longrightarrow> (\<And>n. f n \<le> g n) \<Longrightarrow> I \<subseteq> J \<Longrightarrow> osr_sound g J s"
  by (fastforce simp: osr_sound_def intro: order_trans)

lemma os_seq_merge: "os_ok a \<Longrightarrow> os_ok b \<Longrightarrow> os_seq (os_merge a b) n = max (os_seq a n) (os_seq b n)"
  by (auto simp: os_seq_def entry_or_def map_of_os_merge map_join_def max_def word_le_nat_alt
      split: option.splits)

lemma os_dots_new [simp]: "os_dots os_new v = {}"
  by (simp add: os_dots_def os_new_def)

lemma os_seq_remove [simp]: "os_seq (os_remove v s) n = os_seq s n"
  by (simp add: os_seq_def os_remove_def)

lemma os_add_own_dot:
  assumes "os_add Checked v i s = Ret s'"
  shows "os_seq s' n = (if n = i then Suc (os_seq s n) else os_seq s n)"
    and "os_dots s' w = (if w = v then insert (own_dot i s') (os_dots s v) else os_dots s w)"
    and "unat (dot_seq (own_dot i s')) = Suc (os_seq s i)"
  using assms
  by (auto elim!: os_add_Ret dest!: checked_add_SomeD(2) simp: os_seq_def entry_or_def own_dot_def)

lemma osr_sound_merge:
  "osr_sound f I a \<Longrightarrow> osr_sound f I b \<Longrightarrow> osr_sound f I (os_merge a b)"
  by (auto simp: osr_sound_def os_ok_merge os_seq_merge os_dots_merge)

lemma osr_sound_remove: "osr_sound f I s \<Longrightarrow> osr_sound f I (os_remove v s)"
  by (auto simp: osr_sound_def os_ok_remove)

lemma osr_sound_add:
  assumes "osr_sound f I s" "os_add Checked v i s = Ret s'"
    and "\<And>n. f n \<le> g n" "Suc (os_seq s i) \<le> g i"
  shows "osr_sound g (insert (own_dot i s', v) I) s'"
  using assms os_ok_add [OF assms(2)] os_add_own_dot [OF assms(2)]
  by (auto simp: osr_sound_def split: if_splits intro: order.trans)

text \<open>Replacing one replica's state without changing the bounds or the record.\<close>

lemma osr_inv_replace:
  assumes "osr_inv r" "osr_sound (osr_bound r) (set (osr_issued r)) s"
    and "os_seq s i = osr_bound r i"
  shows "osr_inv (r\<lparr>osr_state := (osr_state r)(i := s)\<rparr>)"
proof -
  have "osr_bound (r\<lparr>osr_state := (osr_state r)(i := s)\<rparr>) = osr_bound r"
    using assms(3) by (auto simp: osr_bound_def fun_eq_iff)
  then show ?thesis
    using assms by (auto simp: osr_inv_def)
qed

lemma own_dot_fresh:
  assumes "osr_inv r" "os_add Checked v i (osr_state r i) = Ret s"
  shows "own_dot i s \<notin> fst ` set (osr_issued r)"
  using assms(1) os_add_own_dot(3) [OF assms(2)]
  by (fastforce simp: osr_inv_def osr_bound_def own_dot_def)

lemma osr_inv_add:
  assumes inv: "osr_inv r" and add: "os_add Checked v i (osr_state r i) = Ret s"
  shows "osr_inv (r\<lparr>osr_state := (osr_state r)(i := s),
                    osr_issued := (own_dot i s, v) # osr_issued r\<rparr>)"
proof -
  let ?r = "r\<lparr>osr_state := (osr_state r)(i := s), osr_issued := (own_dot i s, v) # osr_issued r\<rparr>"
  have bound: "osr_bound ?r n = (if n = i then Suc (osr_bound r n) else osr_bound r n)" for n
    by (simp add: osr_bound_def os_add_own_dot(1) [OF add])
  then have le: "osr_bound r n \<le> osr_bound ?r n" for n by simp
  have old: "osr_sound (osr_bound ?r) (set (osr_issued ?r)) t" if "t \<in> range (osr_state r) \<union> osr_sent r" for t
    using inv that le by (auto simp: osr_inv_def intro: osr_sound_mono)
  have "osr_sound (osr_bound r) (set (osr_issued r)) (osr_state r i)"
    using inv by (auto simp: osr_inv_def)
  moreover have top: "Suc (os_seq (osr_state r i) i) \<le> osr_bound ?r i"
    unfolding bound by (simp add: osr_bound_def)
  ultimately have "osr_sound (osr_bound ?r) (insert (own_dot i s, v) (set (osr_issued r))) s"
    using add le by (blast intro: osr_sound_add)
  moreover have "own_dot i s \<notin> fst ` set (osr_issued r)" by (rule own_dot_fresh [OF inv add])
  moreover have "unat (dot_seq (own_dot i s)) \<le> osr_bound ?r (dot_node (own_dot i s))"
    using os_add_own_dot(3) [OF add] top by (simp add: own_dot_def)
  ultimately show ?thesis
    using inv le old by (fastforce simp: osr_inv_def intro: order.trans split: if_splits)
qed

lemma osr_step_inv: "osr_step r r' \<Longrightarrow> osr_inv r \<Longrightarrow> osr_inv r'"
proof (induction rule: osr_step.induct)
  case (osr_add v r i s)
  then show ?case by (simp add: osr_inv_add)
next
  case (osr_remove r i v)
  then show ?case
    by (intro osr_inv_replace) (auto simp: osr_inv_def osr_bound_def intro: osr_sound_remove)
next
  case (osr_publish r i)
  have "osr_bound (r\<lparr>osr_sent := insert (osr_state r i) (osr_sent r)\<rparr>) = osr_bound r"
    by (simp add: osr_bound_def fun_eq_iff)
  with osr_publish show ?case by (auto simp: osr_inv_def)
next
  case (osr_deliver s r i)
  then have s: "osr_sound (osr_bound r) (set (osr_issued r)) s"
    and i: "osr_sound (osr_bound r) (set (osr_issued r)) (osr_state r i)"
    by (auto simp: osr_inv_def)
  moreover have "os_seq s i \<le> os_seq (osr_state r i) i"
    using s by (simp add: osr_sound_def osr_bound_def)
  ultimately have "os_seq (os_merge (osr_state r i) s) i = osr_bound r i"
    by (simp add: osr_sound_def os_seq_merge osr_bound_def)
  with s i osr_deliver show ?case
    by (intro osr_inv_replace osr_sound_merge)
qed

lemma osr_start_inv: "osr_inv \<lparr>osr_state = (\<lambda>_. os_new), osr_sent = {}, osr_issued = []\<rparr>"
  by (simp add: osr_inv_def osr_sound_def osr_bound_def os_ok_new)

lemma osr_reachable_inv: "osr_reachable r \<Longrightarrow> osr_inv r"
  by (induction rule: osr_reachable.induct) (auto intro: osr_start_inv osr_step_inv)

section \<open>Dots are unique\<close>

text \<open>
  C19. In every run no two additions anywhere get the same dot, not even after removals, and a
  dot found in any two replicas stands for the same value.
\<close>

theorem os_dots_unique:
  assumes "osr_reachable r"
  shows "distinct (map fst (osr_issued r)) \<and>
    (\<forall>i j v w d. d \<in> os_dots (osr_state r i) v \<and> d \<in> os_dots (osr_state r j) w \<longrightarrow> v = w)"
proof -
  have inv: "osr_inv r" by (rule osr_reachable_inv [OF assms])
  have "(d, v) \<in> set (osr_issued r)" if "d \<in> os_dots (osr_state r i) v" for i v d
    using inv that by (auto simp: osr_inv_def osr_sound_def)
  moreover have "distinct (map fst (osr_issued r))"
    using inv by (simp add: osr_inv_def)
  ultimately show ?thesis by (blast dest: eq_key_imp_eq_value)
qed

text \<open>A run for the witness: node 1 adds 7, removes it and adds it again.\<close>

definition osr_example :: "nat os_replicas" where
  "osr_example =
     \<lparr>osr_state = (\<lambda>_. os_new)(replicate 16 1 :=
         \<lparr>os_entries = [(7, [\<lparr>dot_node = replicate 16 1, dot_seq = 2\<rparr>])],
          os_next_seq = [(replicate 16 1, 2)]\<rparr>),
      osr_sent = {},
      osr_issued = [(\<lparr>dot_node = replicate 16 1, dot_seq = 2\<rparr>, 7),
                    (\<lparr>dot_node = replicate 16 1, dot_seq = 1\<rparr>, 7)]\<rparr>"

lemma osr_example_reachable: "osr_reachable osr_example"
proof -
  let ?A = "replicate 16 (1::u8)"
  let ?d1 = "\<lparr>dot_node = ?A, dot_seq = 1\<rparr>"
  let ?s1 = "\<lparr>os_entries = [(7::nat, [?d1])], os_next_seq = [(?A, 1)]\<rparr>"
  let ?s2 = "\<lparr>os_entries = [], os_next_seq = [(?A, 1)]\<rparr> :: nat orset"
  let ?s3 = "osr_state osr_example ?A"
  let ?r0 = "\<lparr>osr_state = (\<lambda>_. os_new), osr_sent = {}, osr_issued = []\<rparr> :: nat os_replicas"
  let ?r1 = "?r0\<lparr>osr_state := (osr_state ?r0)(?A := ?s1), osr_issued := [(?d1, 7)]\<rparr>"
  let ?r2 = "?r1\<lparr>osr_state := (osr_state ?r1)(?A := ?s2)\<rparr>"
  note ops = os_add_def os_remove_def os_new_def own_dot_def entry_or_def add_ovf_Checked
    hm_insert_def hm_upsert_def hm_remove_def bs_insert_def insort_insert_key_def
  have "osr_step ?r0 ?r1"
    using osr_add [of 7 ?A ?r0 ?s1] by (simp add: ops)
  moreover have "osr_step ?r1 ?r2"
    using osr_remove [of ?r1 ?A 7] by (simp add: ops)
  moreover have "osr_step ?r2 osr_example"
    using osr_add [of 7 ?A ?r2 ?s3] by (simp add: ops osr_example_def)
  ultimately show ?thesis
    using osr_next [OF osr_next [OF osr_next [OF osr_start]]] by blast
qed

theorem os_dots_unique_witness:
  "osr_reachable osr_example \<and> length (osr_issued osr_example) = 2 \<and>
   distinct (map fst (osr_issued osr_example))"
  using os_dots_unique [OF osr_example_reachable] osr_example_reachable
  by (simp add: osr_example_def)

end
