(* ===== verification/Reaction_Map.thy ===== *)
theory Reaction_Map
  imports Orset Ids "HOL-Library.Multiset"
begin

text \<open>
  Message reactions, \<^verbatim>\<open>crates/mercury-crdt/src/reaction_map.rs\<close>: a set CRDT of
  (user, emoji) pairs. The file is a client of the set: its lemmas use the membership interface
  \<open>observed_set\<close> and the laws of merge, never the set's representation. Emoji are Rust
  strings, their bytes a HOL string. A count is a \<^verbatim>\<open>usize\<close>, kept as a natural
  number: it never exceeds the number of elements in memory.
\<close>

section \<open>Operations\<close>

record reaction_map =
  rm_reactions :: "(user_id \<times> string) orset"

definition rm_new :: reaction_map where
  "rm_new = \<lparr>rm_reactions = os_new\<rparr>"

definition rm_default :: reaction_map where
  "rm_default = rm_new"

definition rm_add_reaction ::
  "overflow \<Rightarrow> user_id \<Rightarrow> string \<Rightarrow> bytes16 \<Rightarrow> reaction_map \<Rightarrow> reaction_map exec" where
  "rm_add_reaction m user emoji node_id self =
     exec_bind (os_add m (user, emoji) node_id (rm_reactions self)) (\<lambda>s.
       Ret (self\<lparr>rm_reactions := s\<rparr>))"

definition rm_remove_reaction :: "user_id \<Rightarrow> string \<Rightarrow> reaction_map \<Rightarrow> reaction_map" where
  "rm_remove_reaction user emoji self =
     self\<lparr>rm_reactions := os_remove (user, emoji) (rm_reactions self)\<rparr>"

definition rm_counts :: "reaction_map \<Rightarrow> (string, nat) btreemap" where
  "rm_counts self =
     fold (\<lambda>(_, emoji). bt_upsert emoji 0 Suc) (os_elements (rm_reactions self)) []"

definition rm_user_reactions :: "user_id \<Rightarrow> reaction_map \<Rightarrow> string list" where
  "rm_user_reactions user self =
     map snd (filter (\<lambda>(u, _). u = user) (os_elements (rm_reactions self)))"

definition rm_is_empty :: "reaction_map \<Rightarrow> bool" where
  "rm_is_empty self \<longleftrightarrow> os_is_empty (rm_reactions self)"

definition rm_merge :: "reaction_map \<Rightarrow> reaction_map \<Rightarrow> reaction_map" where
  "rm_merge self other = self\<lparr>rm_reactions := os_merge (rm_reactions self) (rm_reactions other)\<rparr>"

definition rm_eq :: "reaction_map \<Rightarrow> reaction_map \<Rightarrow> bool" where
  "rm_eq a b \<longleftrightarrow> os_eq (rm_reactions a) (rm_reactions b)"

lemmas [rust_defs] =
  rm_new_def rm_default_def rm_add_reaction_def rm_remove_reaction_def rm_counts_def rm_user_reactions_def
  rm_is_empty_def rm_merge_def rm_eq_def

section \<open>Invariant and value\<close>

definition rm_ok :: "reaction_map \<Rightarrow> bool" where
  "rm_ok r \<longleftrightarrow> os_ok (rm_reactions r)"

text \<open>The specification: who reacted with what.\<close>

definition reacted :: "reaction_map \<Rightarrow> user_id \<Rightarrow> string \<Rightarrow> bool" where
  "reacted r u e \<longleftrightarrow> os_contains (u, e) (rm_reactions r)"

definition reactors :: "reaction_map \<Rightarrow> string \<Rightarrow> user_id set" where
  "reactors r e = {u. reacted r u e}"

lemma mem_reactors: "u \<in> reactors r e \<longleftrightarrow> reacted r u e"
  by (simp add: reactors_def)

lemma rm_ok_ops [rust_inv]:
  "rm_ok rm_new"
  "rm_add_reaction m u e n r = Ret r' \<Longrightarrow> rm_ok r \<Longrightarrow> rm_ok r'"
  "rm_ok r \<Longrightarrow> rm_ok (rm_remove_reaction u e r)"
  "rm_ok r \<Longrightarrow> rm_ok r2 \<Longrightarrow> rm_ok (rm_merge r r2)"
  by (auto simp: rm_ok_def rm_new_def rm_add_reaction_def rm_remove_reaction_def rm_merge_def
      intro: rust_inv)

interpretation rm: mergeable rm_merge rm_eq rm_ok
  by unfold_locales
    (auto simp: rm_merge_def rm_eq_def rm_ok_def intro: os.eq_refl os.eq_sym os.eq_trans
      os.merge_good os.merge_cong os.commutative os.associative os.idempotent)

lemma reacted_new [simp]: "\<not> reacted rm_new u e"
  by (simp add: reacted_def rm_new_def os_new_def os_contains_def)

lemma reacted_add:
  "rm_add_reaction m u e n r = Ret r' \<Longrightarrow> rm_ok r \<Longrightarrow>
   reacted r' u' e' \<longleftrightarrow> (u', e') = (u, e) \<or> reacted r u' e'"
  using os_set.member_add [of "rm_reactions r" m "(u, e)" n "rm_reactions r'"]
  by (auto simp: rm_add_reaction_def rm_ok_def reacted_def set_eq_iff)

lemma reacted_remove:
  "rm_ok r \<Longrightarrow> reacted (rm_remove_reaction u e r) u' e' \<longleftrightarrow> (u', e') \<noteq> (u, e) \<and> reacted r u' e'"
  using os_set.member_remove [of "rm_reactions r" "(u, e)"]
  by (auto simp: rm_remove_reaction_def rm_ok_def reacted_def)

lemma reacted_merge:
  "rm_ok a \<Longrightarrow> rm_ok b \<Longrightarrow> reacted (rm_merge a b) u e \<longleftrightarrow> reacted a u e \<or> reacted b u e"
  using os_set.member_merge [of "rm_reactions a" "rm_reactions b"]
  by (auto simp: rm_merge_def rm_ok_def reacted_def)

lemma finite_reactors: "rm_ok r \<Longrightarrow> finite (reactors r e)"
  using finite_imageI [OF os_set.finite_members, of "rm_reactions r" fst]
  by (rule finite_subset [rotated]) (force simp: reactors_def reacted_def rm_ok_def)+

section \<open>Counting\<close>

lemma bt_ok_count_loop: "bt_ok m \<Longrightarrow> bt_ok (fold (\<lambda>(_, e). bt_upsert e 0 Suc) xs m)"
  by (induction xs arbitrary: m) (auto simp: bt.ok_upsert)

lemma map_of_count_loop:
  "bt_ok m \<Longrightarrow>
   map_of (fold (\<lambda>(_, e). bt_upsert e 0 Suc) xs m) e =
     (let n = length (filter (\<lambda>(_, e'). e' = e) xs) in
      if n = 0 then map_of m e else Some (entry_or e 0 m + n))"
  by (induction xs arbitrary: m)
    (auto simp: bt.ok_upsert bt.get_upsert entry_or_def Let_def split: option.splits)

lemma length_emoji_elements:
  assumes "rm_ok r"
  shows "length (filter (\<lambda>(_, e'). e' = e) (os_elements (rm_reactions r))) = card (reactors r e)"
proof -
  have "{v. os_contains v (rm_reactions r) \<and> (case v of (_, e') \<Rightarrow> e' = e)} =
      (\<lambda>u. (u, e)) ` reactors r e"
    by (auto simp: reactors_def reacted_def)
  then show ?thesis
    using os_set.count_members [of "rm_reactions r" "\<lambda>(_, e'). e' = e"] assms
    by (simp add: rm_ok_def card_image inj_on_def)
qed

lemma rm_counts_eq:
  assumes "rm_ok r"
  shows "map_of (rm_counts r) e =
    (if reactors r e = {} then None else Some (card (reactors r e)))"
  using assms finite_reactors [OF assms, of e]
  by (simp add: rm_counts_def map_of_count_loop length_emoji_elements entry_or_def Let_def)

lemma rm_counts_cong:
  assumes "rm_ok a" "rm_ok b" "\<And>u e. reacted a u e \<longleftrightarrow> reacted b u e"
  shows "rm_counts a = rm_counts b"
  using assms by (intro bt_ext)
    (auto simp: fun_eq_iff rm_counts_eq reactors_def rm_counts_def [THEN arg_cong [of _ _ bt_ok]]
      bt_ok_count_loop)

text \<open>The reactions of one user, each once.\<close>

lemma rm_user_reactions_distinct: "rm_ok r \<Longrightarrow> distinct (rm_user_reactions u r)"
proof -
  have "inj_on snd (set (filter (\<lambda>(u', _). u' = u) (os_elements (rm_reactions r))))"
    by (auto simp: inj_on_def)
  then show "rm_ok r \<Longrightarrow> distinct (rm_user_reactions u r)"
    using os_set.distinct_elements [of "rm_reactions r"]
    by (simp add: rm_user_reactions_def rm_ok_def distinct_map)
qed

lemma rm_user_reactions_set: "rm_ok r \<Longrightarrow> set (rm_user_reactions u r) = {e. reacted r u e}"
  using os_set.set_elements [of "rm_reactions r"]
  by (force simp: rm_user_reactions_def rm_ok_def reacted_def)

lemma rm_is_empty_reacted: "rm_ok r \<Longrightarrow> rm_is_empty r \<longleftrightarrow> (\<forall>u e. \<not> reacted r u e)"
  by (auto simp: rm_is_empty_def os_is_empty_members rm_ok_def reacted_def)

section \<open>Correctness\<close>

text \<open>Users 1 and 2 reacted with \<open>+1\<close>, user 1 also with \<open>ok\<close>; then user 2 alone.\<close>

definition rm_example :: reaction_map where
  "rm_example =
     \<lparr>rm_reactions =
       \<lparr>os_entries =
          [((User_Id [1], ''ok''), [\<lparr>dot_node = [9], dot_seq = 3\<rparr>]),
           ((User_Id [2], ''+1''), [\<lparr>dot_node = [9], dot_seq = 2\<rparr>]),
           ((User_Id [1], ''+1''), [\<lparr>dot_node = [9], dot_seq = 1\<rparr>])],
        os_next_seq = [([9], 3)]\<rparr>\<rparr>"

definition rm_example2 :: reaction_map where
  "rm_example2 =
     \<lparr>rm_reactions =
       \<lparr>os_entries = [((User_Id [2], ''+1''), [\<lparr>dot_node = [8], dot_seq = 1\<rparr>])],
        os_next_seq = [([8], 1)]\<rparr>\<rparr>"

lemma rm_examples_ok: "rm_ok rm_example" "rm_ok rm_example2"
  by (auto simp: rm_ok_def os_ok_def hm_ok_def bs_ok_def rm_example_def rm_example2_def split: if_splits)

lemma rm_example_reactors:
  "reactors rm_example ''+1'' = {User_Id [1], User_Id [2]}"
  "reactors rm_example2 ''+1'' = {User_Id [2]}"
  "reactors rm_example2 ''ok'' = {}"
  by (auto simp: reactors_def reacted_def os_contains_def rm_example_def rm_example2_def
      split: if_splits)

text \<open>
  C27. The iteration order of the hash map does not show: two reaction maps that are equal in Rust's
  sense, whatever the order of their entries, have the same counts, the same reactions of every
  user up to their order, are empty together, and stay equal under every operation; an addition
  panics on both or on neither.
\<close>

theorem rm_order_independent:
  assumes "rm_ok a" "rm_ok b" "rm_eq a b" "rm_ok c"
  shows "rm_counts a = rm_counts b \<and> mset (rm_user_reactions u a) = mset (rm_user_reactions u b) \<and>
    (rm_is_empty a \<longleftrightarrow> rm_is_empty b) \<and>
    rm_eq (rm_remove_reaction u e a) (rm_remove_reaction u e b) \<and>
    (case rm_add_reaction m u e n a of
       Panic p \<Rightarrow> rm_add_reaction m u e n b = Panic p
     | Ret a' \<Rightarrow> \<exists>b'. rm_add_reaction m u e n b = Ret b' \<and> rm_eq a' b') \<and>
    rm_eq (rm_merge a c) (rm_merge b c) \<and> rm_eq (rm_merge c a) (rm_merge c b)"
proof -
  have os: "os_ok (rm_reactions a)" "os_ok (rm_reactions b)" "os_eq (rm_reactions a) (rm_reactions b)"
    using assms by (simp_all add: rm_ok_def rm_eq_def)
  have same: "reacted a v x \<longleftrightarrow> reacted b v x" for v x
    using os by (simp add: reacted_def os_eq_contains)
  have counts: "rm_counts a = rm_counts b" by (rule rm_counts_cong [OF assms(1,2) same])
  note users = rm_user_reactions_distinct [OF assms(1)] rm_user_reactions_distinct [OF assms(2)]
    rm_user_reactions_set [OF assms(1)] rm_user_reactions_set [OF assms(2)]
  have mset: "mset (rm_user_reactions u a) = mset (rm_user_reactions u b)"
    by (simp add: users same flip: set_eq_iff_mset_eq_distinct)
  have empty: "rm_is_empty a \<longleftrightarrow> rm_is_empty b"
    using os by (simp add: rm_is_empty_def os_is_empty_members os_eq_contains)
  have add: "case rm_add_reaction m u e n a of
       Panic p \<Rightarrow> rm_add_reaction m u e n b = Panic p
     | Ret a' \<Rightarrow> \<exists>b'. rm_add_reaction m u e n b = Ret b' \<and> rm_eq a' b'"
    using os_add_cong [OF os(3,1,2), of m "(u, e)" n]
    by (cases "os_add m (u, e) n (rm_reactions a)") (auto simp: rm_add_reaction_def rm_eq_def)
  have remove: "rm_eq (rm_remove_reaction u e a) (rm_remove_reaction u e b)"
    using os_remove_cong [OF os(3,1,2)] by (simp add: rm_remove_reaction_def rm_eq_def)
  have "rm_eq (rm_merge a c) (rm_merge b c)" "rm_eq (rm_merge c a) (rm_merge c b)"
    using rm.merge_cong [of a b c c] rm.merge_cong [of c c a b] rm.eq_refl [of c] assms by simp_all
  with counts mset empty add remove show ?thesis by blast
qed

text \<open>The same reactions as in \<open>rm_example\<close>, held in another order.\<close>

definition rm_example_shuffled :: reaction_map where
  "rm_example_shuffled =
     rm_example\<lparr>rm_reactions := (rm_reactions rm_example)
       \<lparr>os_entries := rev (os_entries (rm_reactions rm_example))\<rparr>\<rparr>"

theorem rm_order_independent_witness:
  "rm_counts rm_example = rm_counts rm_example_shuffled \<and> rm_example \<noteq> rm_example_shuffled"
proof -
  have ok: "rm_ok rm_example_shuffled"
    by (auto simp: rm_ok_def os_ok_def hm_ok_def bs_ok_def rm_example_shuffled_def rm_example_def
        split: if_splits)
  have "rm_eq rm_example rm_example_shuffled"
    using rm_examples_ok(1) ok
    by (auto simp: rm_eq_def rm_ok_def os_eq_maps rm_example_shuffled_def rm_example_def fun_eq_iff)
  from rm_order_independent [OF rm_examples_ok(1) ok this rm_examples_ok(1)] show ?thesis
    by (simp add: rm_example_shuffled_def rm_example_def)
qed

text \<open>
  C25. The reaction counts are exact: \<^verbatim>\<open>counts\<close> is an ordered map whose keys are the
  emoji somebody reacted with and whose values are the numbers of distinct users that did, and
  \<^verbatim>\<open>user_reactions\<close> lists each emoji of a user once.
\<close>

theorem rm_counts_spec:
  assumes "rm_ok r"
  shows "bt_ok (rm_counts r) \<and>
    map_of (rm_counts r) e =
      (if reactors r e = {} then None else Some (card (reactors r e))) \<and>
    finite (reactors r e) \<and>
    distinct (rm_user_reactions u r) \<and> set (rm_user_reactions u r) = {e. reacted r u e} \<and>
    (rm_is_empty r \<longleftrightarrow> (\<forall>u e. \<not> reacted r u e))"
proof -
  note el = os_set.set_elements [of "rm_reactions r"] os_set.distinct_elements [of "rm_reactions r"]
  note rm_user_reactions_distinct [OF assms, of u] rm_user_reactions_set [OF assms, of u]
  moreover have "rm_is_empty r \<longleftrightarrow> (\<forall>u e. \<not> reacted r u e)"
    using el assms os_set.count_members [of "rm_reactions r" "\<lambda>_. True"]
    by (auto simp: rm_is_empty_def os_is_empty_members rm_ok_def reacted_def)
  ultimately show ?thesis
    using rm_counts_eq [OF assms] finite_reactors [OF assms]
    by (simp add: rm_counts_def bt_ok_count_loop)
qed

theorem rm_counts_spec_witness:
  "map_of (rm_counts rm_example) ''+1'' = Some 2 \<and> card (reactors rm_example ''+1'') = 2 \<and>
   set (rm_user_reactions (User_Id [1]) rm_example) = {''ok'', ''+1''}"
proof -
  have "{e. reacted rm_example (User_Id [1]) e} = {''ok'', ''+1''}"
    by (auto simp: reacted_def os_contains_def rm_example_def split: if_splits)
  then show ?thesis
    using rm_counts_spec [OF rm_examples_ok(1), of "''+1''" "User_Id [1]"]
    by (simp add: rm_example_reactors)
qed

text \<open>
  C26. One reaction per user and emoji: adding a reaction raises the emoji's count by one when
  the user had not reacted with it and leaves every count alone when they had; removing it is
  the exact inverse; no other emoji's count moves.
\<close>

theorem rm_one_reaction_per_user:
  assumes "rm_ok r" "rm_add_reaction m u e n r = Ret r'"
  shows "entry_or e 0 (rm_counts r') = entry_or e 0 (rm_counts r) + (if reacted r u e then 0 else 1) \<and>
    entry_or e 0 (rm_counts (rm_remove_reaction u e r')) + 1 = entry_or e 0 (rm_counts r') \<and>
    (\<forall>e'. e' \<noteq> e \<longrightarrow> entry_or e' 0 (rm_counts r') = entry_or e' 0 (rm_counts r)) \<and>
    (\<not> reacted r u e \<longrightarrow> rm_counts (rm_remove_reaction u e r') = rm_counts r)"
proof -
  have ok': "rm_ok r'" using assms rm_ok_ops(2) by blast
  have count: "entry_or x 0 (rm_counts s) = card (reactors s x)" if "rm_ok s" for s x
    using rm_counts_eq [OF that, of x] by (simp add: entry_or_def)
  note add = reacted_add [OF assms(2,1)] and rem = reacted_remove [OF ok']
  have "reactors r' e = insert u (reactors r e)"
    "reactors (rm_remove_reaction u e r') e = reactors r e - {u}"
    by (auto simp: reactors_def add rem)
  moreover have "reactors r' e' = reactors r e'" if "e' \<noteq> e" for e'
    using that by (auto simp: reactors_def add)
  moreover have "rm_counts (rm_remove_reaction u e r') = rm_counts r" if "\<not> reacted r u e"
    using that assms(1) ok' by (intro rm_counts_cong) (auto simp: add rem rm_ok_ops)
  ultimately show ?thesis
    using assms(1) ok' finite_reactors [OF assms(1), of e] card_Suc_Diff1 [of "reactors r e" u]
    by (auto simp: count rm_ok_ops card_insert_if mem_reactors)
qed

theorem rm_one_reaction_per_user_witness:
  "\<exists>r'. rm_add_reaction Checked (User_Id [1]) ''ok'' [8] rm_example2 = Ret r' \<and>
     entry_or ''ok'' 0 (rm_counts r') = 1 \<and>
     entry_or ''ok'' 0 (rm_counts (rm_remove_reaction (User_Id [1]) ''ok'' r')) = 0"
proof -
  obtain r' where r': "rm_add_reaction Checked (User_Id [1]) ''ok'' [8] rm_example2 = Ret r'"
    by (simp add: rm_add_reaction_def os_add_def rm_example2_def add_ovf_Checked entry_or_def Let_def)
  have "entry_or ''ok'' 0 (rm_counts rm_example2) = 0"
    using rm_counts_eq [OF rm_examples_ok(2), of "''ok''"]
    by (simp add: entry_or_def rm_example_reactors)
  then show ?thesis
    using rm_one_reaction_per_user [OF rm_examples_ok(2) r'] r' rm_example_reactors(3)
    by (auto simp flip: mem_reactors)
qed

text \<open>
  Replicas that have merged the same reaction maps, in any order, are equal and show the
  same counts; after a merge an emoji's reactors are the union of the two sides'.
\<close>

theorem rm_convergence:
  assumes "\<forall>x \<in> set (s # xs). rm_ok x" "\<forall>x \<in> set (t # ys). rm_ok x"
    and "set (s # xs) = set (t # ys)"
  shows "rm_eq (merge_all rm_merge s xs) (merge_all rm_merge t ys) \<and>
    rm_counts (merge_all rm_merge s xs) = rm_counts (merge_all rm_merge t ys) \<and>
    reactors (rm_merge s t) e = reactors s e \<union> reactors t e"
proof -
  have eq: "rm_eq (merge_all rm_merge s xs) (merge_all rm_merge t ys)"
    using assms by (rule rm.convergence)
  have ok: "rm_ok (merge_all rm_merge s xs)" "rm_ok (merge_all rm_merge t ys)"
    using assms rm.merge_all_good by (auto simp: merge_all_def)
  have "rm_counts (merge_all rm_merge s xs) = rm_counts (merge_all rm_merge t ys)"
    using ok eq by (intro rm_counts_cong)
      (auto simp: rm_eq_def rm_ok_def reacted_def os_eq_contains)
  then show ?thesis
    using eq assms by (auto simp: reactors_def reacted_merge)
qed

theorem rm_convergence_witness:
  "rm_counts (merge_all rm_merge rm_example [rm_example2, rm_example]) =
     rm_counts (merge_all rm_merge rm_example2 [rm_example]) \<and>
   card (reactors (rm_merge rm_example rm_example2) ''+1'') = 2"
proof -
  have "set [rm_example, rm_example2, rm_example] = set [rm_example2, rm_example]" by auto
  from rm_convergence [OF _ _ this, of "''+1''"] show ?thesis
    by (simp add: rm_examples_ok rm_example_reactors card_insert_if)
qed

end
