(* ===== verification/Message_Log.thy ===== *)
theory Message_Log
  imports Hlc Collections Mergeable
begin

text \<open>
  The message log of \<^verbatim>\<open>crates/mercury-crdt/src/message_log.rs\<close>: messages keyed by
  their clock in a \<^verbatim>\<open>BTreeMap\<close> of bounded size, \<^verbatim>\<open>append\<close>, the delta
  \<^verbatim>\<open>entries_after\<close>, and a merge whose loop breaks when the log is full. The laws
  of the trait hold for logs drawn from one history of messages that fits the bound
  (\<open>log_within\<close>); what happens at the bound is stated separately.
\<close>

section \<open>Operations\<close>

datatype crdt_error =
    Log_Full nat
  | Invalid_Delta string
  | Merge_Conflict string

fun crdt_error_display :: "crdt_error \<Rightarrow> string" where
  "crdt_error_display (Log_Full n) = ''message log full: max '' @ show_nat n @ '' entries''"
| "crdt_error_display (Invalid_Delta reason) = ''invalid delta: '' @ reason"
| "crdt_error_display (Merge_Conflict reason) = ''merge conflict: '' @ reason"

definition MAX_LOG_ENTRIES :: nat where
  "MAX_LOG_ENTRIES = 100000"

record message_log =
  log_entries :: "(hlc, bytes) btreemap"

definition log_new :: message_log where
  "log_new = \<lparr>log_entries = []\<rparr>"

definition log_default :: message_log where
  "log_default = log_new"

definition log_append :: "hlc \<Rightarrow> bytes \<Rightarrow> message_log \<Rightarrow> (crdt_error, message_log) result" where
  "log_append h data self =
     (if length (log_entries self) \<ge> MAX_LOG_ENTRIES then Err (Log_Full MAX_LOG_ENTRIES)
      else Ok (self\<lparr>log_entries := bt_insert h data (log_entries self)\<rparr>))"

definition log_entries_after :: "hlc \<Rightarrow> message_log \<Rightarrow> (hlc \<times> bytes) list" where
  "log_entries_after since self = bt_after since (log_entries self)"

definition log_len :: "message_log \<Rightarrow> nat" where
  "log_len self = length (log_entries self)"

definition log_is_empty :: "message_log \<Rightarrow> bool" where
  "log_is_empty self \<longleftrightarrow> log_entries self = []"

definition log_latest_hlc :: "message_log \<Rightarrow> hlc option" where
  "log_latest_hlc self =
     (if log_entries self = [] then None else Some (fst (last (log_entries self))))"

definition log_eq :: "message_log \<Rightarrow> message_log \<Rightarrow> bool" where
  "log_eq self other \<longleftrightarrow>
     length (log_entries self) = length (log_entries other) \<and>
     list_all (\<lambda>((k1, v1), (k2, v2)). k1 = k2 \<and> v1 = v2)
       (zip (log_entries self) (log_entries other))"

fun log_merge_loop :: "(hlc \<times> bytes) list \<Rightarrow> (hlc, bytes) btreemap \<Rightarrow> (hlc, bytes) btreemap" where
  "log_merge_loop [] entries = entries"
| "log_merge_loop ((h, data) # es) entries =
     (if length entries \<ge> MAX_LOG_ENTRIES then entries
      else log_merge_loop es (bt_upsert h data (\<lambda>d. d) entries))"

definition log_merge :: "message_log \<Rightarrow> message_log \<Rightarrow> message_log" where
  "log_merge self other =
     self\<lparr>log_entries := log_merge_loop (log_entries other) (log_entries self)\<rparr>"

lemmas [rust_defs] =
  log_new_def log_append_def log_entries_after_def log_len_def log_is_empty_def
  log_latest_hlc_def log_eq_def log_merge_def

section \<open>Invariant\<close>

definition log_ok :: "message_log \<Rightarrow> bool" where
  "log_ok l \<longleftrightarrow> bt_ok (log_entries l)"

definition log_map :: "message_log \<Rightarrow> hlc \<rightharpoonup> bytes" where
  "log_map l = map_of (log_entries l)"

lemma log_ext: "log_ok a \<Longrightarrow> log_ok b \<Longrightarrow> a = b \<longleftrightarrow> log_map a = log_map b"
  by (auto simp: log_ok_def log_map_def intro!: message_log.equality intro: bt_ext)

lemma bt_card_dom: "bt_ok m \<Longrightarrow> card (dom (map_of m)) = length m"
  by (rule hm_card_dom) (simp add: hm_ok_def bt_ok_distinct)

lemma log_card_dom: "log_ok l \<Longrightarrow> card (dom (log_map l)) = log_len l"
  by (simp add: log_ok_def log_map_def log_len_def bt_card_dom)

lemma log_finite_dom [simp]: "finite (dom (log_map l))"
  by (simp add: log_map_def finite_dom_map_of)

lemma log_ok_new [rust_inv]: "log_ok log_new"
  by (simp add: log_ok_def log_new_def)

lemma log_map_new [simp]: "log_map log_new = Map.empty"
  by (simp add: log_map_def log_new_def)

lemma log_append_Ok:
  "log_append h d l = Ok l' \<longleftrightarrow>
     log_len l < MAX_LOG_ENTRIES \<and> l' = l\<lparr>log_entries := bt_insert h d (log_entries l)\<rparr>"
  by (auto simp: log_append_def log_len_def)

lemma log_ok_append [rust_inv]: "log_append h d l = Ok l' \<Longrightarrow> log_ok l \<Longrightarrow> log_ok l'"
  by (simp add: log_append_Ok log_ok_def)

lemma log_map_append: "log_append h d l = Ok l' \<Longrightarrow> log_map l' = (log_map l)(h \<mapsto> d)"
  by (simp add: log_append_Ok log_map_def)

lemma map_of_bt_or_insert:
  "map_of (bt_upsert h d (\<lambda>d. d) m) = (map_of m)(h \<mapsto> entry_or h d m)"
  by (simp add: bt_upsert_def)

lemma bt_ok_or_insert [simp]: "bt_ok m \<Longrightarrow> bt_ok (bt_upsert h d (\<lambda>d. d) m)"
  by (simp add: bt_upsert_def)

lemma merge_loop_ok: "bt_ok m \<Longrightarrow> bt_ok (log_merge_loop es m)"
  by (induction es m rule: log_merge_loop.induct) auto

lemma log_ok_merge [rust_inv]: "log_ok a \<Longrightarrow> log_ok (log_merge a b)"
  by (simp add: log_ok_def log_merge_def merge_loop_ok)

section \<open>Merging up to the bound\<close>

lemma length_bt_or_insert:
  assumes "bt_ok m"
  shows "length (bt_upsert h d (\<lambda>d. d) m) = (if h \<in> dom (map_of m) then length m else Suc (length m))"
proof -
  have "card (insert h (dom (map_of m))) =
      (if h \<in> dom (map_of m) then length m else Suc (length m))"
    using assms by (simp add: bt_card_dom finite_dom_map_of insert_absorb)
  moreover have "dom (map_of (bt_upsert h d (\<lambda>d. d) m)) = insert h (dom (map_of m))"
    by (simp add: map_of_bt_or_insert)
  ultimately show ?thesis
    using assms by (metis bt_card_dom bt_ok_or_insert)
qed

text \<open>
  The loop in general: nothing of the receiver is lost or changed, everything else comes from
  the sender, and the result has as many entries as both together, up to the bound.
\<close>

lemma merge_loop_bounded:
  assumes "bt_ok m" "length m \<le> MAX_LOG_ENTRIES" "distinct (map fst es)"
  shows "map_of m \<subseteq>\<^sub>m map_of (log_merge_loop es m) \<and>
    map_of (log_merge_loop es m) \<subseteq>\<^sub>m map_of es ++ map_of m \<and>
    length (log_merge_loop es m) = min MAX_LOG_ENTRIES (card (dom (map_of m) \<union> fst ` set es))"
  using assms
proof (induction es m rule: log_merge_loop.induct)
  case (1 m)
  then show ?case by (simp add: bt_card_dom)
next
  case (2 h d es m)
  show ?case
  proof (cases "length m \<ge> MAX_LOG_ENTRIES")
    case True
    then have "length m = MAX_LOG_ENTRIES" using "2.prems" by simp
    moreover have "card (dom (map_of m)) \<le> card (dom (map_of m) \<union> fst ` set ((h, d) # es))"
      by (intro card_mono) (auto simp: finite_dom_map_of)
    ultimately show ?thesis
      using True "2.prems" by (simp add: bt_card_dom map_le_iff_map_add_commute map_le_def map_add_dom_app_simps)
  next
    case False
    let ?m = "bt_upsert h d (\<lambda>d. d) m"
    have le: "length ?m \<le> MAX_LOG_ENTRIES"
      using False "2.prems"(1) by (simp add: length_bt_or_insert)
    note IH = "2.IH" [OF False]
    have "map_of es h = None"
      using "2.prems"(3) by (simp add: map_of_eq_None_iff)
    then have "map_of es ++ map_of ?m = map_of ((h, d) # es) ++ map_of m"
      by (auto simp: map_of_bt_or_insert fun_eq_iff map_add_def entry_or_def split: option.splits)
    moreover have "map_of m \<subseteq>\<^sub>m map_of ?m"
      by (auto simp: map_of_bt_or_insert map_le_def entry_or_def)
    moreover have "dom (map_of ?m) \<union> fst ` set es = dom (map_of m) \<union> fst ` set ((h, d) # es)"
      by (auto simp: map_of_bt_or_insert)
    ultimately show ?thesis
      using IH le False "2.prems" by (auto simp: fun_upd_def intro: map_le_trans)
  qed
qed

section \<open>Logs of one history\<close>

text \<open>
  \<open>H\<close> is everything the clients have ever written, one message per clock; a log is
  within it when it holds some of its messages, and the whole history fits the bound.
\<close>

definition log_within :: "(hlc \<rightharpoonup> bytes) \<Rightarrow> message_log \<Rightarrow> bool" where
  "log_within H l \<longleftrightarrow>
     log_ok l \<and> log_map l \<subseteq>\<^sub>m H \<and> finite (dom H) \<and> card (dom H) \<le> MAX_LOG_ENTRIES"

lemma map_le_add_comm: "m \<subseteq>\<^sub>m H \<Longrightarrow> n \<subseteq>\<^sub>m H \<Longrightarrow> m ++ n = n ++ m"
  by (auto simp: map_le_def map_add_def fun_eq_iff dom_def split: option.splits)

lemma map_le_add: "m \<subseteq>\<^sub>m H \<Longrightarrow> n \<subseteq>\<^sub>m H \<Longrightarrow> m ++ n \<subseteq>\<^sub>m H"
  by (auto simp: map_le_def map_add_def dom_def split: option.splits)

lemma log_within_len: "log_within H l \<Longrightarrow> log_len l \<le> MAX_LOG_ENTRIES"
  unfolding log_within_def
  by (metis card_mono log_card_dom map_le_implies_dom_le order.trans)

lemma log_map_merge:
  assumes "log_within H a" "log_within H b"
  shows "log_map (log_merge a b) = log_map b ++ log_map a"
proof -
  let ?r = "log_map (log_merge a b)" and ?u = "log_map b ++ log_map a"
  have keys: "dom (log_map a) \<union> fst ` set (log_entries b) = dom ?u"
    by (auto simp: log_map_def dom_map_of_conv_image_fst)
  have "distinct (map fst (log_entries b))" "bt_ok (log_entries a)"
    using assms by (simp_all add: log_within_def log_ok_def bt_ok_distinct)
  then have le: "?r \<subseteq>\<^sub>m ?u" and len: "log_len (log_merge a b) = min MAX_LOG_ENTRIES (card (dom ?u))"
    using merge_loop_bounded [of "log_entries a" "log_entries b"] log_within_len [OF assms(1)] keys
    by (simp_all add: log_merge_def log_map_def log_len_def)
  have "?u \<subseteq>\<^sub>m H"
    using assms by (simp add: log_within_def map_le_add)
  then have "card (dom ?u) \<le> MAX_LOG_ENTRIES"
    using assms(1) unfolding log_within_def by (meson card_mono map_le_implies_dom_le order.trans)
  then have "card (dom ?r) = card (dom ?u)"
    using len assms by (simp add: log_card_dom log_within_def log_ok_merge)
  then have "dom ?r = dom ?u"
    using map_le_implies_dom_le [OF le] by (intro card_subset_eq) auto
  then show ?thesis
    using le by (intro map_le_antisym) (simp_all add: map_le_def)
qed

lemma log_within_merge: "log_within H a \<Longrightarrow> log_within H b \<Longrightarrow> log_within H (log_merge a b)"
  using log_map_merge [of H a b] by (simp add: log_within_def log_ok_merge map_le_add)

lemma log_eq_iff: "log_eq a b \<longleftrightarrow> a = b"
proof -
  have "length xs = length ys \<and> list_all (\<lambda>((k1, v1), (k2, v2)). k1 = k2 \<and> v1 = v2) (zip xs ys)
      \<longleftrightarrow> xs = ys" for xs ys :: "(hlc \<times> bytes) list"
    by (auto simp: list_all_length list_eq_iff_nth_eq case_prod_beta prod_eq_iff)
  then show ?thesis
    by (cases a; cases b) (auto simp: log_eq_def)
qed

lemma log_within_ext: "log_within H a \<Longrightarrow> log_within H b \<Longrightarrow> a = b \<longleftrightarrow> log_map a = log_map b"
  by (simp add: log_within_def log_ext)

interpretation mlog: mergeable_view log_merge log_eq "log_within H" log_map "\<lambda>m n. n ++ m" for H
proof
  fix a b assume "log_within H a" "log_within H b"
  then show "log_map b ++ log_map a = log_map a ++ log_map b"
    by (auto simp: log_within_def intro: map_le_add_comm)
qed (simp_all add: log_eq_iff log_map_merge log_within_merge log_within_ext map_add_subsumed1)

section \<open>Correctness\<close>

text \<open>A history of two messages and two logs of it, for the witnesses.\<close>

abbreviation example_hlc :: "u64 \<Rightarrow> u8 \<Rightarrow> hlc" where
  "example_hlc w n \<equiv> \<lparr>wall_clock_ms = w, counter = 0, node_id = replicate 16 n\<rparr>"

definition log_example_a :: message_log where
  "log_example_a = \<lparr>log_entries = [(example_hlc 100 1, [1])]\<rparr>"

definition log_example_b :: message_log where
  "log_example_b = \<lparr>log_entries = [(example_hlc 100 1, [1]), (example_hlc 200 2, [2])]\<rparr>"

lemma log_examples_within:
  "log_within (log_map log_example_b) log_example_a"
  "log_within (log_map log_example_b) log_example_b"
  by (auto simp: log_within_def log_ok_def bt_ok_def log_map_def map_le_def MAX_LOG_ENTRIES_def
      log_example_a_def log_example_b_def hlc_less_iff)

text \<open>
  The laws of the trait for logs of one history that fits the bound: merge is commutative,
  associative and idempotent up to \<^verbatim>\<open>==\<close>, and the hand-written \<^verbatim>\<open>==\<close> is
  equality of the entries.
\<close>

theorem log_merge_laws:
  assumes "log_within H a" "log_within H b" "log_within H c"
  shows "log_eq (log_merge a b) (log_merge b a) \<and>
    log_eq (log_merge (log_merge a b) c) (log_merge a (log_merge b c)) \<and>
    log_eq (log_merge a a) a \<and> (log_eq a b \<longleftrightarrow> log_entries a = log_entries b)"
  using mlog.commutative [OF assms(1,2)] mlog.associative [OF assms] mlog.idempotent [OF assms(1)]
  by (cases a; cases b) (simp add: log_eq_iff)

theorem log_merge_laws_witness:
  "log_eq (log_merge log_example_a log_example_b) (log_merge log_example_b log_example_a) \<and>
   \<not> log_eq log_example_a log_example_b"
  using log_merge_laws [OF log_examples_within log_examples_within(1)]
  by (simp add: log_example_a_def log_example_b_def)

text \<open>
  Strong eventual consistency of logs of one history that fits the bound: replicas that have
  merged the same logs, in any order and with any duplicates, are equal.
\<close>

theorem log_convergence:
  assumes "\<forall>x \<in> set (s # xs). log_within H x" "\<forall>x \<in> set (t # ys). log_within H x"
    and "set (s # xs) = set (t # ys)"
  shows "log_eq (merge_all log_merge s xs) (merge_all log_merge t ys)"
  using assms by (rule mlog.convergence)

theorem log_convergence_witness:
  "log_eq (merge_all log_merge log_example_a [log_example_b, log_example_b])
     (merge_all log_merge log_example_b [log_example_a])"
  by (rule log_convergence [of _ _ "log_map log_example_b"]) (auto simp: log_examples_within)

text \<open>
  At the bound: a merge never loses or changes an entry of the receiver, adds only entries
  of the sender, keeps the log within the bound, and drops entries only when both together
  exceed it.
\<close>

theorem log_merge_bounded:
  assumes "log_ok a" "log_ok b" "log_len a \<le> MAX_LOG_ENTRIES"
  shows "log_ok (log_merge a b) \<and> log_map a \<subseteq>\<^sub>m log_map (log_merge a b) \<and>
    log_map (log_merge a b) \<subseteq>\<^sub>m log_map b ++ log_map a \<and>
    log_len (log_merge a b) = min MAX_LOG_ENTRIES (card (dom (log_map a) \<union> dom (log_map b)))"
  using assms merge_loop_bounded [of "log_entries a" "log_entries b"]
  by (simp add: log_ok_merge log_merge_def log_map_def log_len_def log_ok_def bt_ok_distinct
      dom_map_of_conv_image_fst merge_loop_ok)

theorem log_merge_bounded_witness:
  "log_len (log_merge log_example_a log_example_b) = 2 \<and>
   log_map log_example_a \<subseteq>\<^sub>m log_map (log_merge log_example_a log_example_b)"
proof -
  have "log_ok log_example_a" "log_ok log_example_b" "log_len log_example_a \<le> MAX_LOG_ENTRIES"
    using log_examples_within log_within_len [OF log_examples_within(1)]
    by (auto simp: log_within_def)
  from log_merge_bounded [OF this] show ?thesis
    by (simp add: log_map_def log_example_a_def log_example_b_def MAX_LOG_ENTRIES_def
        card_insert_if)
qed

text \<open>
  C23. A full log receives nothing: merging any logs into it, however often, leaves it as it is,
  so two full replicas that differ in a single message differ for ever, although the trait
  promises that replicas converge.
\<close>

theorem log_full_never_converges:
  assumes "log_len a = MAX_LOG_ENTRIES" "log_len b = MAX_LOG_ENTRIES" "\<not> log_eq a b"
  shows "merge_all log_merge a xs = a \<and> merge_all log_merge b ys = b \<and>
    \<not> log_eq (merge_all log_merge a xs) (merge_all log_merge b ys)"
proof -
  have loop: "log_merge_loop es m = m" if "length m = MAX_LOG_ENTRIES" for es m
    using that by (cases "(es, m)" rule: log_merge_loop.cases) auto
  then have "log_merge l x = l" if "log_len l = MAX_LOG_ENTRIES" for l x
    using that by (simp add: log_merge_def log_len_def)
  then have "merge_all log_merge l zs = l" if "log_len l = MAX_LOG_ENTRIES" for l zs
    unfolding merge_all_def using that by (induction zs) auto
  then show ?thesis using assms by simp
qed

theorem log_full_never_converges_witness:
  "let full = (\<lambda>d. \<lparr>log_entries = map (\<lambda>i. (example_hlc (of_nat i) 1, [d])) [0..<100000]\<rparr>)
   in \<not> log_eq (merge_all log_merge (full 1) [full 2]) (merge_all log_merge (full 2) [full 1])"
proof -
  let ?full = "\<lambda>d. \<lparr>log_entries = map (\<lambda>i. (example_hlc (of_nat i) 1, [d])) [0..<100000]\<rparr>"
  have "\<not> log_eq (?full 1) (?full 2)"
    by (simp add: log_eq_iff) (metis atLeastLessThan_iff bot_nat_0.extremum zero_less_numeral)
  then show ?thesis
    using log_full_never_converges [of "?full 1" "?full 2" "[?full 2]" "[?full 1]"]
    by (simp add: log_len_def MAX_LOG_ENTRIES_def Let_def)
qed

section \<open>Appending and the delta\<close>

lemma strict_sorted_last_Max: "sorted_wrt (<) xs \<Longrightarrow> xs \<noteq> [] \<Longrightarrow> last xs = Max (set xs)"
  for xs :: "'a::linorder list"
  by (induction xs rule: rev_induct)
    (auto simp: sorted_wrt_append intro!: Max_eqI [symmetric] intro: less_imp_le)

text \<open>
  C32. On a well-formed log within its bound, appending fails exactly at the bound, whatever the
  clock; otherwise the message is stored under its clock (replacing one already there), no other
  message changes, the log stays within the bound, and \<^verbatim>\<open>latest_hlc\<close> is the largest clock of the log.
\<close>

theorem log_append_spec:
  assumes "log_ok l" "log_len l \<le> MAX_LOG_ENTRIES"
  shows "(log_append h d l = Err (Log_Full 100000) \<longleftrightarrow> log_len l = 100000) \<and>
    ((\<exists>l'. log_append h d l = Ok l') \<longleftrightarrow> log_len l < 100000) \<and>
    (\<forall>l'. log_append h d l = Ok l' \<longrightarrow>
      log_ok l' \<and> log_map l' = (log_map l)(h \<mapsto> d) \<and> log_len l' \<le> MAX_LOG_ENTRIES \<and>
      log_latest_hlc l' = Some (Max (insert h (dom (log_map l)))))"
proof (intro conjI allI impI)
  show "log_append h d l = Err (Log_Full 100000) \<longleftrightarrow> log_len l = 100000"
    using assms by (simp add: log_append_def log_len_def MAX_LOG_ENTRIES_def)
  show "(\<exists>l'. log_append h d l = Ok l') \<longleftrightarrow> log_len l < 100000"
    by (auto simp: log_append_def log_len_def MAX_LOG_ENTRIES_def)
next
  fix l' assume app: "log_append h d l = Ok l'"
  show ok: "log_ok l'" and map: "log_map l' = (log_map l)(h \<mapsto> d)"
    using app assms log_ok_append log_map_append by blast+
  have "log_len l' = card (insert h (dom (log_map l)))"
    using ok map by (simp flip: log_card_dom)
  also have "\<dots> \<le> Suc (log_len l)"
    using assms by (simp add: card_insert_if log_card_dom)
  finally show "log_len l' \<le> MAX_LOG_ENTRIES"
    using app by (simp add: log_append_Ok)
  have ne: "log_entries l' \<noteq> []"
    using fun_cong [OF map, of h] by (auto simp: log_map_def)
  have "fst (last (log_entries l')) = Max (set (map fst (log_entries l')))"
    using ok ne strict_sorted_last_Max [of "map fst (log_entries l')"]
    by (simp add: log_ok_def bt_ok_def last_map)
  moreover have "set (map fst (log_entries l')) = insert h (dom (log_map l))"
    using arg_cong [OF map, of dom] by (simp add: log_map_def dom_map_of_conv_image_fst)
  ultimately show "log_latest_hlc l' = Some (Max (insert h (dom (log_map l))))"
    using ne by (simp add: log_latest_hlc_def)
qed

theorem log_append_spec_witness:
  "log_append (example_hlc 50 1) [9] log_example_a =
     Ok \<lparr>log_entries = [(example_hlc 50 1, [9]), (example_hlc 100 1, [1])]\<rparr> \<and>
   log_latest_hlc \<lparr>log_entries = [(example_hlc 50 1, [9]), (example_hlc 100 1, [1])]\<rparr> =
     Some (Max (insert (example_hlc 50 1) (dom (log_map log_example_a))))"
proof -
  have "log_ok log_example_a" "log_len log_example_a \<le> MAX_LOG_ENTRIES"
    using log_examples_within log_within_len [OF log_examples_within(1)]
    by (auto simp: log_within_def)
  note spec = log_append_spec [OF this, of "example_hlc 50 1" "[9]"]
  have app: "log_append (example_hlc 50 1) [9] log_example_a =
     Ok \<lparr>log_entries = [(example_hlc 50 1, [9]), (example_hlc 100 1, [1])]\<rparr>"
    by (simp add: log_append_def log_example_a_def MAX_LOG_ENTRIES_def hlc_less_iff)
  with spec show ?thesis by blast
qed

text \<open>
  The delta after a clock lists exactly the messages with a strictly larger clock, each
  once, in ascending order of their clocks.
\<close>

theorem log_entries_after_spec:
  assumes "log_ok l"
  shows "sorted_wrt (<) (map fst (log_entries_after since l)) \<and>
    set (log_entries_after since l) = {(h, d). log_map l h = Some d \<and> since < h}"
  using assms bt_ok_after [of "log_entries l" since]
  by (auto simp: log_entries_after_def log_ok_def log_map_def bt_ok_def set_bt_after
      map_of_eq_Some_iff strict_sorted_iff)

theorem log_entries_after_spec_witness:
  "set (log_entries_after (example_hlc 100 1) log_example_b) = {(example_hlc 200 2, [2])} \<and>
   sorted_wrt (<) (map fst (log_entries_after (example_hlc 100 1) log_example_b))"
proof -
  have "log_ok log_example_b" using log_examples_within by (simp add: log_within_def)
  from log_entries_after_spec [OF this, of "example_hlc 100 1"] show ?thesis
    by (simp add: log_entries_after_def bt_after_def log_example_b_def hlc_less_iff)
qed

text \<open>
  C24. Delta sync between logs of one history \<open>H\<close> of at most \<open>MAX_LOG_ENTRIES\<close> messages, so
  that neither log fills up: merging only the entries after a clock brings in exactly the
  sender's newer messages, and equals merging the whole log when the receiver already has all
  the sender's messages up to that clock.
\<close>

theorem log_delta_sync:
  assumes "log_within H a" "log_within H b"
    and "delta = \<lparr>log_entries = log_entries_after since b\<rparr>"
  shows "(\<forall>h. log_map (log_merge a delta) h =
      (if since < h \<and> log_map a h = None then log_map b h else log_map a h)) \<and>
    ((\<forall>h \<le> since. log_map b h = None \<or> log_map b h = log_map a h) \<longrightarrow>
      log_merge a delta = log_merge a b)"
proof -
  have bt: "bt_ok (log_entries b)" using assms(2) by (simp add: log_within_def log_ok_def)
  have dm: "log_map delta h = (if since < h then log_map b h else None)" for h
    by (simp add: assms(3) log_map_def log_entries_after_def map_of_bt_after)
  have "log_ok delta"
    using bt by (simp add: assms(3) log_ok_def log_entries_after_def)
  then have delta: "log_within H delta"
    using assms(2) by (auto simp: log_within_def map_le_def dm dom_def)
  note merged = log_map_merge [OF assms(1) delta]
  have "log_merge a delta = log_merge a b"
    if "\<forall>h \<le> since. log_map b h = None \<or> log_map b h = log_map a h"
  proof -
    have "log_map delta ++ log_map a = log_map b ++ log_map a"
      using that by (force simp: fun_eq_iff map_add_def dm not_less split: option.splits)
    then show ?thesis
      using log_within_ext [of H] log_within_merge assms(1,2) delta log_map_merge by metis
  qed
  then show ?thesis
    by (auto simp: merged map_add_def dm split: option.splits)
qed

theorem log_delta_sync_witness:
  "log_merge log_example_a \<lparr>log_entries = log_entries_after (example_hlc 100 1) log_example_b\<rparr> =
     log_merge log_example_a log_example_b \<and>
   log_entries_after (example_hlc 100 1) log_example_b = [(example_hlc 200 2, [2])]"
proof -
  have "\<forall>h \<le> example_hlc 100 1. log_map log_example_b h = None \<or>
      log_map log_example_b h = log_map log_example_a h"
    by (auto simp: log_map_def log_example_a_def log_example_b_def hlc_less_iff simp flip: not_less)
  then show ?thesis
    using log_delta_sync [OF log_examples_within refl, of "example_hlc 100 1"]
    by (simp add: log_entries_after_def bt_after_def log_example_b_def hlc_less_iff)
qed

end
