(* ===== verification/Log_System.thy ===== *)
theory Log_System
  imports Hlc_Cluster Message_Log
begin

text \<open>
  The clock and the log together, as a device uses them: a message is stamped by a tick of the
  device's clock and appended to its log, clocks otherwise move as in \<open>Hlc_Cluster\<close>, and
  logs (or earlier snapshots of them) are merged in any order, late, repeatedly or never. The
  log alone converges only if no two messages share a clock; here that is a consequence of the
  clocks.
\<close>

section \<open>Steps\<close>

record log_system =
  ls_cluster :: cluster
  ls_log :: "bytes16 \<Rightarrow> message_log"
  ls_sent :: "message_log set"
  ls_written :: "(hlc \<times> bytes) list"

definition ls_init :: "log_system \<Rightarrow> bool" where
  "ls_init s \<longleftrightarrow>
     init_cluster (ls_cluster s) \<and> ls_log s = (\<lambda>_. log_new) \<and> ls_sent s = {} \<and> ls_written s = []"

inductive ls_step :: "overflow \<Rightarrow> log_system \<Rightarrow> log_system \<Rightarrow> bool" for m where
  ls_write:
    "system_time_ms t = Ret now \<Longrightarrow> hlc_tick t (clocks (ls_cluster s) i) = Ret h \<Longrightarrow>
     log_append h data (ls_log s i) = Ok l \<Longrightarrow>
     ls_step m s (s\<lparr>ls_cluster := record_event i h None now (ls_cluster s),
                  ls_log := (ls_log s)(i := l),
                  ls_written := (h, data) # ls_written s\<rparr>)"
| ls_clock: "cluster_step m (ls_cluster s) c \<Longrightarrow> ls_step m s (s\<lparr>ls_cluster := c\<rparr>)"
| ls_publish: "ls_step m s (s\<lparr>ls_sent := insert (ls_log s i) (ls_sent s)\<rparr>)"
| ls_deliver:
    "l \<in> ls_sent s \<Longrightarrow>
     ls_step m s (s\<lparr>ls_log := (ls_log s)(i := log_merge (ls_log s i) l)\<rparr>)"

inductive ls_reachable :: "overflow \<Rightarrow> log_system \<Rightarrow> bool" for m where
  ls_start: "ls_init s \<Longrightarrow> ls_reachable m s"
| ls_next: "ls_reachable m s \<Longrightarrow> ls_step m s s' \<Longrightarrow> ls_reachable m s'"

section \<open>The invariant\<close>

text \<open>What every log in the system satisfies, relative to the messages written.\<close>

definition log_sound :: "(hlc \<times> bytes) list \<Rightarrow> message_log \<Rightarrow> bool" where
  "log_sound ms l \<longleftrightarrow> log_ok l \<and> log_len l \<le> MAX_LOG_ENTRIES \<and> log_map l \<subseteq>\<^sub>m map_of ms"

definition ls_inv :: "log_system \<Rightarrow> bool" where
  "ls_inv s \<longleftrightarrow>
     cluster_inv (ls_cluster s) \<and>
     distinct (map fst (ls_written s)) \<and>
     fst ` set (ls_written s) \<subseteq> ev_time ` set (trace (ls_cluster s)) \<and>
     (\<forall>l \<in> range (ls_log s) \<union> ls_sent s. log_sound (ls_written s) l) \<and>
     (\<forall>(h, d) \<in> set (ls_written s). log_map (ls_log s (node_id h)) h = Some d)"

lemma log_sound_new: "log_sound ms log_new"
  by (simp add: log_sound_def log_ok_new) (simp add: log_len_def log_new_def)

lemma log_sound_more:
  assumes "log_sound ms l" "h \<notin> fst ` set ms"
  shows "log_sound ((h, d) # ms) l"
proof -
  have "map_of ms \<subseteq>\<^sub>m map_of ((h, d) # ms)"
    using assms(2) by (auto simp: map_le_def dom_map_of_conv_image_fst)
  then show ?thesis
    using assms(1) by (auto simp: log_sound_def intro: map_le_trans)
qed

lemma log_sound_append:
  assumes "log_sound ms l" "log_append h d l = Ok l'" "h \<notin> fst ` set ms"
  shows "log_sound ((h, d) # ms) l'"
proof -
  have ok: "log_ok l" "log_ok l'" using assms(1,2) by (auto simp: log_sound_def log_ok_append)
  have "card (dom (log_map l')) \<le> Suc (card (dom (log_map l)))"
    by (simp add: log_map_append [OF assms(2)] card_insert_if)
  then have "log_len l' \<le> MAX_LOG_ENTRIES"
    using ok assms(2) by (simp add: log_card_dom log_append_Ok)
  moreover have "log_map l' \<subseteq>\<^sub>m map_of ((h, d) # ms)"
    using assms(1) by (auto simp: log_sound_def map_le_def log_map_append [OF assms(2)])
  ultimately show ?thesis using ok by (simp add: log_sound_def)
qed

lemma log_sound_merge:
  assumes "log_sound ms a" "log_sound ms b"
  shows "log_sound ms (log_merge a b)" "log_map a \<subseteq>\<^sub>m log_map (log_merge a b)"
proof -
  have "bt_ok (log_entries a)" "length (log_entries a) \<le> MAX_LOG_ENTRIES"
    "distinct (map fst (log_entries b))"
    using assms by (simp_all add: log_sound_def log_ok_def log_len_def bt_ok_distinct)
  note bounded = merge_loop_bounded [OF this]
  show "log_map a \<subseteq>\<^sub>m log_map (log_merge a b)"
    using bounded by (simp add: log_map_def log_merge_def)
  have "log_map b ++ log_map a \<subseteq>\<^sub>m map_of ms"
    using assms by (simp add: log_sound_def map_le_add)
  then have "log_map (log_merge a b) \<subseteq>\<^sub>m map_of ms"
    using bounded by (auto simp: log_map_def log_merge_def intro: map_le_trans)
  moreover have "log_len (log_merge a b) \<le> MAX_LOG_ENTRIES"
    using bounded by (simp add: log_len_def log_merge_def)
  ultimately show "log_sound ms (log_merge a b)"
    using assms(1) by (simp add: log_sound_def log_ok_merge)
qed

lemma cluster_step_trace: "cluster_step m w w' \<Longrightarrow> \<exists>e. trace w' = trace w @ [e]"
  by (auto simp: cluster_step.simps record_event_def)

lemma ls_write_inv:
  assumes inv: "ls_inv s"
    and t: "system_time_ms t = Ret now" "hlc_tick t (clocks (ls_cluster s) i) = Ret h"
    and l: "log_append h data (ls_log s i) = Ok l"
  shows "ls_inv (s\<lparr>ls_cluster := record_event i h None now (ls_cluster s),
      ls_log := (ls_log s)(i := l), ls_written := (h, data) # ls_written s\<rparr>)"
proof -
  let ?c = "record_event i h None now (ls_cluster s)"
  have cinv: "cluster_inv ?c"
    using inv local_event [OF t] cluster_step_inv by (auto simp: ls_inv_def)
  have trace: "trace ?c = trace (ls_cluster s) @ [\<lparr>ev_node = i, ev_time = h, ev_from = None\<rparr>]"
    by (simp add: record_event_def)
  have "h \<notin> ev_time ` set (trace (ls_cluster s))"
    using cluster_times_distinct [OF cinv] by (simp add: trace)
  then have new: "h \<notin> fst ` set (ls_written s)"
    using inv by (auto simp: ls_inv_def)
  have node: "node_id h = i"
    using inv hlc_tick_step [OF t] by (simp add: ls_inv_def cluster_inv_def)
  have sound: "log_sound (ls_written s) k" if "k \<in> range (ls_log s) \<union> ls_sent s" for k
    using inv that by (auto simp: ls_inv_def)
  have "log_sound ((h, data) # ls_written s) k"
    if "k \<in> range ((ls_log s)(i := l)) \<union> ls_sent s" for k
    using that sound new log_sound_append [OF sound l new] log_sound_more
    by (auto split: if_splits)
  moreover have "log_map (((ls_log s)(i := l)) (node_id k)) k = Some d"
    if "(k, d) \<in> set ((h, data) # ls_written s)" for k d
    using that inv new node by (force simp: ls_inv_def log_map_append [OF l])
  ultimately show ?thesis
    using inv cinv new by (auto simp: ls_inv_def trace)
qed

lemma ls_step_inv:
  assumes "ls_step Checked s s'" "ls_inv s"
  shows "ls_inv s'"
  using assms(1)
proof (cases rule: ls_step.cases)
  case (ls_write t now i h data l)
  then show ?thesis using ls_write_inv [OF assms(2)] by simp
next
  case (ls_clock c)
  then show ?thesis
    using assms(2) cluster_step_inv [OF ls_clock(2)] cluster_step_trace [OF ls_clock(2)]
    by (auto simp: ls_inv_def)
next
  case (ls_publish i)
  then show ?thesis using assms(2) by (auto simp: ls_inv_def)
next
  case (ls_deliver l i)
  have sound: "log_sound (ls_written s) (ls_log s i)" "log_sound (ls_written s) l"
    using assms(2) ls_deliver(2) by (auto simp: ls_inv_def)
  note merged = log_sound_merge [OF sound]
  have "log_map (((ls_log s)(i := log_merge (ls_log s i) l)) (node_id h)) h = Some d"
    if "(h, d) \<in> set (ls_written s)" for h d
    using assms(2) that merged(2) by (force simp: ls_inv_def map_le_def dom_def)
  then show ?thesis
    using assms(2) merged(1) by (auto simp: ls_inv_def ls_deliver(1) split: if_splits)
qed

lemma ls_checked_inv: "ls_reachable Checked s \<Longrightarrow> ls_inv s"
proof (induction rule: ls_reachable.induct)
  case (ls_start s)
  then show ?case
    by (auto simp: ls_init_def ls_inv_def cluster_init_inv log_sound_new)
qed (rule ls_step_inv)

text \<open>As for the clocks alone, a short run of a release build is one of the checked build.\<close>

lemma ls_short_step:
  assumes "ls_step m s s'" "counters_ok (ls_cluster s)" "length (trace (ls_cluster s')) < 2 ^ 32"
  shows "ls_step Checked s s' \<and> counters_ok (ls_cluster s')"
  using assms(1)
proof (cases rule: ls_step.cases)
  case (ls_write t now i h data l)
  have "Suc (length (trace (ls_cluster s))) < 2 ^ 32"
    using assms(3) by (simp add: ls_write(1) record_event_def)
  from short_step_checked [OF local_event [OF ls_write(2,3)] assms(2) this] show ?thesis
    using ls_step.ls_write [OF ls_write(2-4)] by (simp add: ls_write(1))
next
  case (ls_clock c)
  then show ?thesis
    using assms(3) short_step_checked [OF ls_clock(2) assms(2)] length_trace_step [OF ls_clock(2)] ls_step.ls_clock
    by auto
qed (use assms(2) ls_step.intros in auto)

lemma ls_trace_grows: "ls_step m s s' \<Longrightarrow> length (trace (ls_cluster s)) \<le> length (trace (ls_cluster s'))"
  by (induction rule: ls_step.induct) (auto simp: record_event_def dest: length_trace_step)

lemma ls_short_run:
  assumes "ls_reachable m s" "length (trace (ls_cluster s)) < 2 ^ 32"
  shows "ls_reachable Checked s \<and> counters_ok (ls_cluster s)"
  using assms
proof (induction rule: ls_reachable.induct)
  case (ls_start s)
  then show ?case
    using ls_reachable.ls_start init_counters by (auto simp: ls_init_def)
next
  case (ls_next s s')
  then show ?case
    using ls_short_step [OF ls_next(2)] ls_trace_grows [OF ls_next(2)] by (auto intro: ls_reachable.ls_next)
qed

lemma ls_run_checked: "ls_reachable m s \<Longrightarrow> no_wrap m (ls_cluster s) \<Longrightarrow> ls_reachable Checked s"
  using ls_short_run by blast

lemma ls_step_checked:
  assumes "ls_reachable m s" "ls_step m s s'" "no_wrap m (ls_cluster s')"
  shows "ls_step Checked s s'"
  using assms ls_short_step [OF assms(2)] ls_short_run [OF assms(1)] ls_trace_grows [OF assms(2)] by auto

lemma ls_reachable_inv: "ls_reachable m s \<Longrightarrow> no_wrap m (ls_cluster s) \<Longrightarrow> ls_inv s"
  using ls_checked_inv ls_run_checked by blast

lemma log_within_written:
  assumes "ls_inv s" "length (ls_written s) \<le> MAX_LOG_ENTRIES" "l \<in> range (ls_log s) \<union> ls_sent s"
  shows "log_within (map_of (ls_written s)) l"
proof -
  have "card (dom (map_of (ls_written s))) \<le> length (ls_written s)"
    using card_length [of "map fst (ls_written s)"] by (simp add: dom_map_of_conv_image_fst)
  then show ?thesis
    using assms by (auto simp: ls_inv_def log_sound_def log_within_def finite_dom_map_of)
qed

lemma log_map_merge_all:
  assumes "\<forall>l \<in> set (a # xs). log_within H l"
  shows "log_map (merge_all log_merge a xs) h = Some d \<longleftrightarrow>
    (\<exists>l \<in> set (a # xs). log_map l h = Some d)"
  using assms unfolding merge_all_def
proof (induction xs arbitrary: a)
  case (Cons x xs)
  have within: "log_within H a" "log_within H x" using Cons.prems by simp_all
  have "log_map (log_merge a x) h = Some d \<longleftrightarrow> log_map a h = Some d \<or> log_map x h = Some d"
    using within log_map_merge [OF within]
    by (auto simp: map_add_def log_within_def map_le_def dom_def split: option.splits)
  moreover have "log_within H (log_merge a x)" by (rule log_within_merge [OF within])
  ultimately show ?case using Cons.IH [of "log_merge a x"] Cons.prems by auto
qed simp

section \<open>Correctness\<close>

text \<open>
  C5. The clients' logs converge: in every state reachable by a build with overflow checks, or by
  a release build with fewer than \<open>2 ^ 32\<close> clock events, as long as the messages ever written
  are at most \<open>MAX_LOG_ENTRIES\<close>, the bound of one log, two devices that merge the same set of current
  or published logs, in any order and any number of times, end with the same log, which holds
  exactly the messages of the logs merged.
\<close>

theorem ls_logs_converge:
  assumes "ls_reachable m s" "no_wrap m (ls_cluster s)" "length (ls_written s) \<le> MAX_LOG_ENTRIES"
    and "set (a # xs) = set (b # ys)" "set (a # xs) \<subseteq> range (ls_log s) \<union> ls_sent s"
  shows "log_eq (merge_all log_merge a xs) (merge_all log_merge b ys) \<and>
    (log_map (merge_all log_merge a xs) h = Some d \<longleftrightarrow>
      (\<exists>l \<in> set (a # xs). log_map l h = Some d))"
proof -
  have within: "\<forall>l \<in> set (a # xs). log_within (map_of (ls_written s)) l"
    using log_within_written [OF ls_reachable_inv [OF assms(1,2)] assms(3)] assms(5) by blast
  moreover have "\<forall>l \<in> set (b # ys). log_within (map_of (ls_written s)) l"
    using within unfolding assms(4) .
  ultimately show ?thesis
    using mlog.convergence assms(4) log_map_merge_all by blast
qed

text \<open>
  C6. No author loses a message: in every reachable state, full logs included (of a build with
  overflow checks, or of a release build with fewer than \<open>2 ^ 32\<close> clock events), each message
  written is in its author's log with its content, no two messages share a clock, and every
  entry of any log or published snapshot is a message that was written.
\<close>

theorem ls_no_message_lost:
  assumes "ls_reachable m s" "no_wrap m (ls_cluster s)"
  shows "(\<forall>(h, d) \<in> set (ls_written s). log_map (ls_log s (node_id h)) h = Some d) \<and>
    distinct (map fst (ls_written s)) \<and>
    (\<forall>l \<in> range (ls_log s) \<union> ls_sent s. log_len l \<le> MAX_LOG_ENTRIES \<and>
      (\<forall>h d. log_map l h = Some d \<longrightarrow> (h, d) \<in> set (ls_written s)))"
proof -
  have inv: "ls_inv s" by (rule ls_reachable_inv [OF assms])
  have "log_len l \<le> MAX_LOG_ENTRIES \<and> (\<forall>h d. log_map l h = Some d \<longrightarrow> (h, d) \<in> set (ls_written s))"
    if "l \<in> range (ls_log s) \<union> ls_sent s" for l
  proof -
    have "log_sound (ls_written s) l" using inv that by (auto simp: ls_inv_def)
    then show ?thesis
      by (force simp: log_sound_def map_le_def dom_def intro: map_of_SomeD)
  qed
  then show ?thesis using inv by (simp add: ls_inv_def)
qed

text \<open>A run for the witnesses: device 1 writes a message, device 2 another, 1 publishes.\<close>

definition ls_example :: log_system where
  "ls_example =
     (let h1 = \<lparr>wall_clock_ms = 5, counter = 0, node_id = replicate 16 1\<rparr>;
          h2 = \<lparr>wall_clock_ms = 7, counter = 0, node_id = replicate 16 2\<rparr>;
          l1 = \<lparr>log_entries = [(h1, [10])]\<rparr>
      in \<lparr>ls_cluster = record_event (replicate 16 2) h2 None 7
            (record_event (replicate 16 1) h1 None 5
              \<lparr>clocks = (\<lambda>i. \<lparr>wall_clock_ms = 0, counter = 0, node_id = i\<rparr>), trace = [],
               max_reading = 0\<rparr>),
          ls_log = (\<lambda>_. log_new)(replicate 16 1 := l1, replicate 16 2 := \<lparr>log_entries = [(h2, [20])]\<rparr>),
          ls_sent = {l1},
          ls_written = [(h2, [20]), (h1, [10])]\<rparr>)"

lemma ls_example_reachable: "ls_reachable m ls_example"
proof -
  let ?A = "replicate 16 (1 :: u8)" and ?B = "replicate 16 (2 :: u8)"
  let ?h1 = "\<lparr>wall_clock_ms = 5, counter = 0, node_id = ?A\<rparr>"
  let ?h2 = "\<lparr>wall_clock_ms = 7, counter = 0, node_id = ?B\<rparr>"
  let ?c0 = "\<lparr>clocks = (\<lambda>i. \<lparr>wall_clock_ms = 0, counter = 0, node_id = i\<rparr>), trace = [], max_reading = 0\<rparr>"
  let ?l1 = "\<lparr>log_entries = [(?h1, [10])]\<rparr>" and ?l2 = "\<lparr>log_entries = [(?h2, [20])]\<rparr>"
  let ?s0 = "\<lparr>ls_cluster = ?c0, ls_log = (\<lambda>_. log_new), ls_sent = {}, ls_written = []\<rparr>"
  let ?s1 = "?s0\<lparr>ls_cluster := record_event ?A ?h1 None 5 (ls_cluster ?s0),
    ls_log := (ls_log ?s0)(?A := ?l1), ls_written := (?h1, [10]) # ls_written ?s0\<rparr>"
  let ?s2 = "?s1\<lparr>ls_cluster := record_event ?B ?h2 None 7 (ls_cluster ?s1),
    ls_log := (ls_log ?s1)(?B := ?l2), ls_written := (?h2, [20]) # ls_written ?s1\<rparr>"
  note time = hlc_tick_def system_time_ms_def u64_try_from_def
  have log: "log_append h d log_new = Ok \<lparr>log_entries = [(h, d)]\<rparr>" for h d
    by (simp add: log_append_def log_new_def MAX_LOG_ENTRIES_def)
  have "ls_init ?s0"
    by (auto simp: ls_init_def init_cluster_def hlc_now_def system_time_ms_def u64_try_from_def
        intro!: exI [of _ 0])
  moreover have "ls_step m ?s0 ?s1"
    by (rule ls_write [of 5000000]) (simp_all add: time log)
  moreover have "ls_step m ?s1 ?s2"
    by (rule ls_write [of 7000000]) (simp_all add: time log record_event_def)
  moreover have "ls_step m ?s2 ls_example"
    using ls_publish [of m ?s2 ?A] by (simp add: ls_example_def Let_def)
  ultimately show ?thesis
    using ls_start ls_next by metis
qed

lemma ls_example_trace: "length (trace (ls_cluster ls_example)) = 2"
  by (simp add: ls_example_def record_event_def Let_def)

theorem ls_logs_converge_witness:
  "ls_reachable Wrapping ls_example \<and>
   (let a = ls_log ls_example (replicate 16 1); b = ls_log ls_example (replicate 16 2)
    in a \<noteq> b \<and> log_eq (merge_all log_merge a [b, a]) (merge_all log_merge b [a]))"
proof -
  let ?a = "ls_log ls_example (replicate 16 1)" and ?b = "ls_log ls_example (replicate 16 2)"
  have "length (ls_written ls_example) \<le> MAX_LOG_ENTRIES"
    by (simp add: ls_example_def MAX_LOG_ENTRIES_def Let_def)
  from ls_logs_converge [OF ls_example_reachable _ this, of Wrapping ?a "[?b, ?a]" ?b "[?a]"]
  have "log_eq (merge_all log_merge ?a [?b, ?a]) (merge_all log_merge ?b [?a])" by (auto simp: ls_example_trace)
  moreover have "?a \<noteq> ?b" by (simp add: ls_example_def Let_def)
  ultimately show ?thesis using ls_example_reachable by (simp add: Let_def)
qed

theorem ls_no_message_lost_witness:
  "ls_reachable Wrapping ls_example \<and>
   log_map (ls_log ls_example (replicate 16 2))
     \<lparr>wall_clock_ms = 7, counter = 0, node_id = replicate 16 2\<rparr> = Some [20]"
proof -
  have "(\<lparr>wall_clock_ms = 7, counter = 0, node_id = replicate 16 2\<rparr>, [20])
      \<in> set (ls_written ls_example)"
    by (simp add: ls_example_def Let_def)
  then show ?thesis
    using ls_no_message_lost [OF ls_example_reachable, of Wrapping] ls_example_reachable ls_example_trace by fastforce
qed

end
