(* ===== verification/Event_Store.thy ===== *)
theory Event_Store
  imports Prelude
begin

text \<open>
  The abstract specification that the replicated counter, log and set implement: every
  device knows a set of events, creates new ones, and learns the events of snapshots other
  devices have published. Safety (nobody knows an event that was not created, nobody forgets)
  and eventual delivery in fair runs are proved here once; the locale \<open>event_refinement\<close>
  is what an implementation has to show to inherit them.
\<close>

section \<open>The specification\<close>

record 'e event_store =
  es_known :: "bytes16 \<Rightarrow> 'e set"
  es_sent :: "'e set set"
  es_events :: "'e set"

definition es_empty :: "'e event_store" where
  "es_empty = \<lparr>es_known = (\<lambda>_. {}), es_sent = {}, es_events = {}\<rparr>"

inductive es_step :: "'e event_store \<Rightarrow> 'e event_store \<Rightarrow> bool" where
  es_create:
    "e \<notin> es_events s \<Longrightarrow>
     es_step s (s\<lparr>es_known := (es_known s)(i := insert e (es_known s i)),
                 es_events := insert e (es_events s)\<rparr>)"
| es_publish: "es_step s (s\<lparr>es_sent := insert (es_known s i) (es_sent s)\<rparr>)"
| es_deliver:
    "X \<in> es_sent s \<Longrightarrow>
     es_step s (s\<lparr>es_known := (es_known s)(i := es_known s i \<union> X)\<rparr>)"
| es_idle: "es_step s s"

inductive_cases es_stepE: "es_step s s'"

definition es_inv :: "'e event_store \<Rightarrow> bool" where
  "es_inv s \<longleftrightarrow>
     finite (es_events s) \<and> (\<forall>i. es_known s i \<subseteq> es_events s) \<and> (\<forall>X \<in> es_sent s. X \<subseteq> es_events s)"

lemma es_inv_empty: "es_inv es_empty"
  by (simp add: es_inv_def es_empty_def)

lemma es_step_inv: "es_step s s' \<Longrightarrow> es_inv s \<Longrightarrow> es_inv s'"
  by (erule es_stepE) (auto simp: es_inv_def)

text \<open>Nobody forgets, and no event is undone.\<close>

lemma es_step_mono:
  "es_step s s' \<Longrightarrow> es_known s i \<subseteq> es_known s' i"
  "es_step s s' \<Longrightarrow> es_events s \<subseteq> es_events s'"
  by (erule es_stepE, auto)+

lemma fun_upd_under: "(\<lambda>j. f ((g(i := x)) j)) = (\<lambda>j. f (g j))(i := f x)"
  by auto

lemma sigma_support: "(SIGMA n : UNIV. {..< f n}) = (SIGMA n : {n. 0 < f n}. {..< f n :: nat})"
  by auto

section \<open>Infinite runs and fairness\<close>

definition es_run :: "(nat \<Rightarrow> 'e event_store) \<Rightarrow> bool" where
  "es_run t \<longleftrightarrow> es_inv (t 0) \<and> (\<forall>k. es_step (t k) (t (Suc k)))"

text \<open>
  Among the devices \<open>D\<close>, from any time on, a state that each device has at that time or
  later reaches every other.
\<close>

definition es_fair :: "bytes16 set \<Rightarrow> (nat \<Rightarrow> 'e event_store) \<Rightarrow> bool" where
  "es_fair D t \<longleftrightarrow>
     (\<forall>i \<in> D. \<forall>j \<in> D. \<forall>k. \<exists>k' m. k \<le> k' \<and> k' \<le> m \<and>
        es_known (t (Suc m)) j = es_known (t m) j \<union> es_known (t k') i)"

lemma es_run_inv: "es_run t \<Longrightarrow> es_inv (t k)"
  by (induction k) (auto simp: es_run_def intro: es_step_inv)

lemma es_run_mono:
  assumes "es_run t" "k \<le> n"
  shows "es_known (t k) i \<subseteq> es_known (t n) i" "es_events (t k) \<subseteq> es_events (t n)"
proof -
  have "es_step (t k) (t (Suc k))" for k using assms(1) by (simp add: es_run_def)
  note step = this [THEN es_step_mono(1)] this [THEN es_step_mono(2)]
  show "es_known (t k) i \<subseteq> es_known (t n) i"
    using lift_Suc_mono_le [of "\<lambda>k. es_known (t k) i", OF step(1) assms(2)] .
  show "es_events (t k) \<subseteq> es_events (t n)"
    using lift_Suc_mono_le [of "\<lambda>k. es_events (t k)", OF step(2) assms(2)] .
qed

lemma es_eventually_known:
  assumes "es_run t" "es_fair D t" "i \<in> D" "j \<in> D" "e \<in> es_known (t k) i"
  shows "\<exists>m. \<forall>n \<ge> m. e \<in> es_known (t n) j"
proof -
  obtain k' m where "k \<le> k'" "es_known (t (Suc m)) j = es_known (t m) j \<union> es_known (t k') i"
    using assms(2-4) unfolding es_fair_def by blast
  then have "e \<in> es_known (t (Suc m)) j"
    using es_run_mono(1) [OF assms(1), of k k' i] assms(5) by auto
  then show ?thesis using es_run_mono(1) [OF assms(1)] by blast
qed

text \<open>A finite set of events known within \<open>D\<close> is, from one time on, known by all of it.\<close>

lemma es_eventually_all:
  assumes "es_run t" "es_fair D t" "finite D" "finite E"
    and "\<forall>e \<in> E. \<exists>i \<in> D. \<exists>k. e \<in> es_known (t k) i"
  shows "\<exists>m. \<forall>n \<ge> m. \<forall>j \<in> D. E \<subseteq> es_known (t n) j"
proof -
  have "\<exists>m. \<forall>n \<ge> m. e \<in> es_known (t n) j" if "e \<in> E" "j \<in> D" for e j
    using assms(5) that es_eventually_known [OF assms(1,2)] by blast
  then obtain m where m: "e \<in> es_known (t n) j" if "e \<in> E" "j \<in> D" "m e j \<le> n" for e j n
    by metis
  let ?M = "Max ((\<lambda>(e, j). m e j) ` (E \<times> D))"
  have "m e j \<le> ?M" if "e \<in> E" "j \<in> D" for e j
    using that assms(3,4) by (intro Max_ge) force+
  then have "e \<in> es_known (t n) j" if "?M \<le> n" "j \<in> D" "e \<in> E" for n j e
    using that m le_trans by blast
  then show ?thesis by blast
qed

text \<open>
  When creation stops, the devices of \<open>D\<close> agree: on everything any of them has ever known,
  and so on everything created if it was created among them.
\<close>

definition es_heard :: "bytes16 set \<Rightarrow> (nat \<Rightarrow> 'e event_store) \<Rightarrow> 'e set" where
  "es_heard D t = (\<Union>l. \<Union>i \<in> D. es_known (t l) i)"

lemma es_eventually_same:
  assumes "es_run t" "es_fair D t" "finite D" "\<forall>n \<ge> k. es_events (t n) = es_events (t k)"
  shows "\<exists>m. \<forall>n \<ge> m. \<forall>j \<in> D. es_known (t n) j = es_heard D t"
proof -
  have "es_known (t l) i \<subseteq> es_events (t k)" for l i
  proof -
    have "es_events (t (max k l)) = es_events (t k)" by (rule assms(4) [rule_format]) simp
    moreover have "es_known (t (max k l)) i \<subseteq> es_events (t (max k l))"
      using es_run_inv [OF assms(1), of "max k l"] unfolding es_inv_def by blast
    ultimately show ?thesis using es_run_mono(1) [OF assms(1), of l "max k l" i] by auto
  qed
  then have "es_heard D t \<subseteq> es_events (t k)" by (auto simp: es_heard_def)
  moreover have "finite (es_events (t k))" using es_run_inv [OF assms(1), of k] by (simp add: es_inv_def)
  ultimately have fin: "finite (es_heard D t)" by (rule finite_subset)
  have "\<forall>e \<in> es_heard D t. \<exists>i \<in> D. \<exists>k. e \<in> es_known (t k) i" by (auto simp: es_heard_def)
  from es_eventually_all [OF assms(1-3) fin this] obtain m
    where m: "\<forall>n \<ge> m. \<forall>j \<in> D. es_heard D t \<subseteq> es_known (t n) j" ..
  have "es_known (t n) j \<subseteq> es_heard D t" if "j \<in> D" for n j
    using that by (auto simp: es_heard_def)
  then show ?thesis using m by (intro exI [of _ m] allI impI ballI subset_antisym) simp_all
qed

lemma es_eventually_agree:
  assumes "es_run t" "es_fair D t" "finite D"
    and "\<forall>n \<ge> k. es_events (t n) = es_events (t k)"
    and "\<forall>e \<in> es_events (t k). \<exists>i \<in> D. e \<in> es_known (t k) i"
  shows "\<exists>m. \<forall>n \<ge> m. \<forall>j \<in> D. es_known (t n) j = es_events (t k)"
proof (cases "D = {}")
  case False
  obtain m where m: "\<forall>n \<ge> m. \<forall>j \<in> D. es_known (t n) j = es_heard D t"
    using es_eventually_same [OF assms(1-4)] ..
  have "es_events (t k) \<subseteq> es_heard D t" using assms(5) by (fastforce simp: es_heard_def)
  moreover obtain j where "j \<in> D" using False by blast
  then have "es_heard D t = es_known (t (max k m)) j" using m by simp
  moreover have "es_known (t (max k m)) j \<subseteq> es_events (t (max k m))"
    using es_run_inv [OF assms(1), of "max k m"] unfolding es_inv_def by blast
  moreover have "es_events (t (max k m)) = es_events (t k)" by (rule assms(4) [rule_format]) simp
  ultimately have "es_heard D t = es_events (t k)" by blast
  then show ?thesis using m by (intro exI [of _ m]) simp
qed simp

section \<open>What an implementation shows\<close>

locale event_refinement =
  fixes step :: "'s \<Rightarrow> 's \<Rightarrow> bool"
    and inv :: "'s \<Rightarrow> bool"
    and abs :: "'s \<Rightarrow> 'e event_store"
  assumes step_inv: "inv s \<Longrightarrow> step s s' \<Longrightarrow> inv s'"
    and abs_inv: "inv s \<Longrightarrow> es_inv (abs s)"
    and simulates: "inv s \<Longrightarrow> step s s' \<Longrightarrow> es_step (abs s) (abs s')"
begin

lemma run_inv: "inv (r 0) \<Longrightarrow> \<forall>k. step (r k) (r (Suc k)) \<Longrightarrow> inv (r k)"
  by (induction k) (auto intro: step_inv)

lemma run_refines:
  assumes "inv (r 0)" "\<forall>k. step (r k) (r (Suc k))"
  shows "es_run (abs \<circ> r)"
  using assms run_inv [OF assms] by (auto simp: es_run_def abs_inv simulates)

lemma steps_refine: "step\<^sup>*\<^sup>* s s' \<Longrightarrow> inv s \<Longrightarrow> inv s' \<and> es_step\<^sup>*\<^sup>* (abs s) (abs s')"
proof (induction rule: rtranclp_induct)
  case (step y z)
  then show ?case using step_inv simulates by (blast intro: rtranclp.rtrancl_into_rtrancl)
qed simp

lemma eventually_all:
  assumes "inv (r 0)" "\<forall>k. step (r k) (r (Suc k))" "es_fair D (abs \<circ> r)" "finite D" "finite E"
    and "\<forall>e \<in> E. \<exists>i \<in> D. \<exists>k. e \<in> es_known (abs (r k)) i"
  shows "\<exists>m. \<forall>n \<ge> m. \<forall>j \<in> D. E \<subseteq> es_known (abs (r n)) j"
  using es_eventually_all [OF run_refines [OF assms(1,2)] assms(3-5)] assms(6) unfolding comp_def .

lemma eventually_same:
  assumes "inv (r 0)" "\<forall>k. step (r k) (r (Suc k))" "es_fair D (abs \<circ> r)" "finite D"
    and "\<forall>n \<ge> k. es_events (abs (r n)) = es_events (abs (r k))"
  shows "\<exists>m. \<forall>n \<ge> m. \<forall>j \<in> D. es_known (abs (r n)) j = es_heard D (abs \<circ> r)"
  using es_eventually_same [OF run_refines [OF assms(1,2)] assms(3,4)] assms(5)
  unfolding comp_def .

lemma eventually_agree:
  assumes "inv (r 0)" "\<forall>k. step (r k) (r (Suc k))" "es_fair D (abs \<circ> r)" "finite D"
    and "\<forall>n \<ge> k. es_events (abs (r n)) = es_events (abs (r k))"
    and "\<forall>e \<in> es_events (abs (r k)). \<exists>i \<in> D. e \<in> es_known (abs (r k)) i"
  shows "\<exists>m. \<forall>n \<ge> m. \<forall>j \<in> D. es_known (abs (r n)) j = es_events (abs (r k))"
  using es_eventually_agree [OF run_refines [OF assms(1,2)] assms(3,4)] assms(5,6)
  unfolding comp_def .

end

end
