(* ===== verification/Gcounter_Refinement.thy ===== *)
theory Gcounter_Refinement
  imports Gcounter Event_Store
begin

text \<open>
  The system of counter replicas of \<open>Gcounter\<close> implements the event store: a counter stands
  for the set of increments it has counted, the \<open>k\<close>-th increment of node \<open>n\<close> being
  \<open>(n, k)\<close>. Incrementing creates an event, \<^verbatim>\<open>merge\<close> is the union of the events and
  \<^verbatim>\<open>value\<close> their number. Eventual counting in fair runs is inherited.
\<close>

section \<open>The increments a counter stands for\<close>

definition gc_events :: "gcounter \<Rightarrow> (bytes16 \<times> nat) set" where
  "gc_events c = (SIGMA n : UNIV. {..< gc_slot c n})"

definition gc_abs :: "gc_system \<Rightarrow> (bytes16 \<times> nat) event_store" where
  "gc_abs s =
     \<lparr>es_known = (\<lambda>i. gc_events (gc_replica s i)), es_sent = gc_events ` gc_sent s,
      es_events = (SIGMA n : UNIV. {..< gc_incs s n})\<rparr>"

definition gc_ref_inv :: "gc_system \<Rightarrow> bool" where
  "gc_ref_inv s \<longleftrightarrow> gc_inv s \<and> finite {n. 0 < gc_incs s n}"

lemma gc_ref_invD: "gc_ref_inv s \<Longrightarrow> gc_inv s"
  by (simp add: gc_ref_inv_def)

lemma mem_gc_events [simp]: "(n, k) \<in> gc_events c \<longleftrightarrow> k < gc_slot c n"
  by (simp add: gc_events_def)

lemma gc_events_new [simp]: "gc_events gc_new = {}"
  by (auto simp: gc_events_def)

lemma gc_events_merge: "gc_ok a \<Longrightarrow> gc_ok b \<Longrightarrow> gc_events (gc_merge a b) = gc_events a \<union> gc_events b"
  by (auto simp: gc_slot_merge)

lemma gc_events_increment:
  "gc_increment Checked n c = Ret c' \<Longrightarrow> gc_events c' = insert (n, gc_slot c n) (gc_events c)"
  by (auto simp: gc_slot_increment split: if_splits)

lemma gc_events_inj: "gc_events a = gc_events b \<Longrightarrow> gc_slot a n = gc_slot b n"
  by (metis linorder_neqE_nat mem_gc_events less_irrefl)

lemma gc_slot_present: "0 < gc_slot c n \<Longrightarrow> n \<in> fst ` set (gc_counts c)"
  using gc_slot_absent [of n c] by (cases "n \<in> fst ` set (gc_counts c)") simp_all

lemma finite_slots: "finite {n. 0 < gc_slot c n}"
  by (rule finite_subset [of _ "fst ` set (gc_counts c)"]) (auto dest: gc_slot_present)

lemma card_gc_events:
  assumes "gc_ok c"
  shows "card (gc_events c) = gc_total c" "finite (gc_events c)"
proof -
  show "finite (gc_events c)"
    using finite_slots [of c] by (simp add: gc_events_def sigma_support [of "gc_slot c"])
  have "card (gc_events c) = (\<Sum>n | 0 < gc_slot c n. gc_slot c n)"
    using finite_slots [of c] by (simp add: gc_events_def sigma_support [of "gc_slot c"])
  also have "\<dots> = (\<Sum>n\<in>fst ` set (gc_counts c). gc_slot c n)"
    by (rule sum.mono_neutral_left) (auto dest: gc_slot_present)
  finally show "card (gc_events c) = gc_total c" using assms by (simp add: gc_total_slots)
qed

section \<open>The simulation\<close>

lemma gc_ref_inv_step:
  assumes "gc_ref_inv s" "gc_step s s'"
  shows "gc_ref_inv s'"
proof -
  have "\<exists>A. finite A \<and> {n. 0 < gc_incs s' n} \<subseteq> A"
    using assms(2)
  proof (cases rule: gc_step.cases)
    case (gc_do_increment i c)
    then show ?thesis
      using assms(1) by (intro exI [of _ "insert i {n. 0 < gc_incs s n}"]) (auto simp: gc_ref_inv_def)
  qed (use assms(1) in \<open>auto simp: gc_ref_inv_def\<close>)
  then show ?thesis
    using assms gc_step_inv by (auto simp: gc_ref_inv_def intro: finite_subset)
qed

lemma gc_sound_events: "gc_sound s c \<Longrightarrow> gc_events c \<subseteq> (SIGMA n : UNIV. {..< gc_incs s n})"
  by (auto simp: gc_sound_def intro: less_le_trans)

lemma gc_abs_inv: "gc_ref_inv s \<Longrightarrow> es_inv (gc_abs s)"
  using gc_sound_events
  by (auto simp: gc_ref_inv_def gc_inv_def gc_abs_def es_inv_def)
    (simp add: sigma_support [of "gc_incs s"])

lemma gc_abs_step:
  assumes "gc_inv s" "gc_step s s'"
  shows "es_step (gc_abs s) (gc_abs s')"
  using assms(2)
proof (cases rule: gc_step.cases)
  case (gc_do_increment i c)
  have home: "gc_slot (gc_replica s i) i = gc_incs s i" using assms(1) by (simp add: gc_inv_def)
  have "gc_abs s' = (gc_abs s)
      \<lparr>es_known := (es_known (gc_abs s))(i := insert (i, gc_incs s i) (es_known (gc_abs s) i)),
       es_events := insert (i, gc_incs s i) (es_events (gc_abs s))\<rparr>"
    using gc_events_increment [OF gc_do_increment(2)]
    by (auto simp: gc_do_increment(1) gc_abs_def home less_Suc_eq fun_eq_iff split: if_splits)
  then show ?thesis using es_create [of "(i, gc_incs s i)" "gc_abs s" i] by (simp add: gc_abs_def)
next
  case (gc_publish i)
  then show ?thesis using es_publish [of "gc_abs s" i] by (simp add: gc_abs_def)
next
  case (gc_deliver c i)
  then have "gc_ok (gc_replica s i)" "gc_ok c"
    using assms(1) by (auto simp: gc_inv_def gc_sound_def)
  then show ?thesis
    using es_deliver [of "gc_events c" "gc_abs s" i] gc_deliver
    by (simp add: gc_abs_def gc_events_merge fun_upd_under del: fun_upd_apply)
qed

interpretation gcr: event_refinement gc_step gc_ref_inv gc_abs
  by unfold_locales (auto intro: gc_ref_inv_step gc_abs_inv gc_abs_step [OF gc_ref_invD])

lemma gc_reachable_ref_inv: "gc_reachable s \<Longrightarrow> gc_ref_inv s"
proof (induction rule: gc_reachable.induct)
  case gc_start
  then show ?case by (simp add: gc_ref_inv_def gc_start_inv)
qed (rule gc_ref_inv_step)

section \<open>Fair runs\<close>

text \<open>Among the devices \<open>D\<close> every later state of one is, again and again, merged by every other.\<close>

definition gc_fair :: "bytes16 set \<Rightarrow> (nat \<Rightarrow> gc_system) \<Rightarrow> bool" where
  "gc_fair D r \<longleftrightarrow>
     (\<forall>i \<in> D. \<forall>j \<in> D. \<forall>k. \<exists>k' m. k \<le> k' \<and> k' \<le> m \<and>
        gc_replica (r (Suc m)) j = gc_merge (gc_replica (r m) j) (gc_replica (r k') i))"

lemma gc_fair_abs:
  assumes "\<And>k. gc_inv (r k)" "gc_fair D r"
  shows "es_fair D (gc_abs \<circ> r)"
proof -
  have ok: "gc_ok (gc_replica (r k) i)" for k i
    using assms(1) [of k] by (simp add: gc_inv_def gc_sound_def)
  have "es_known (gc_abs (r (Suc m))) j = es_known (gc_abs (r m)) j \<union> es_known (gc_abs (r k')) i"
    if "gc_replica (r (Suc m)) j = gc_merge (gc_replica (r m) j) (gc_replica (r k') i)" for i j k' m
    using that ok by (simp add: gc_abs_def gc_events_merge)
  then show ?thesis
    using assms(2) unfolding gc_fair_def es_fair_def comp_def by metis
qed

text \<open>
  A run for the witnesses: from \<open>gc_example_system\<close>, where node 2 has merged node 1's state
  and incremented, node 2 publishes, node 1 merges, and from then on states travel unchanged.
\<close>

definition gc_example_run :: "nat \<Rightarrow> gc_system" where
  "gc_example_run k =
     (let s0 = gc_example_system; c2 = gc_replica s0 (replicate 16 2);
          s1 = s0\<lparr>gc_sent := insert c2 (gc_sent s0)\<rparr>;
          s2 = s1\<lparr>gc_replica := (gc_replica s1)(replicate 16 1 := c2)\<rparr>
      in if k = 0 then s0 else if k = 1 then s1 else s2)"

lemma gc_example_run_step: "gc_step (gc_example_run k) (gc_example_run (Suc k))"
proof -
  let ?A = "replicate 16 (1 :: u8)" and ?B = "replicate 16 (2 :: u8)"
  consider "k = 0" | "k = 1" | "2 \<le> k" by linarith
  then show ?thesis
  proof cases
    case 1
    then show ?thesis
      using gc_publish [of gc_example_system ?B] by (simp add: gc_example_run_def Let_def)
  next
    case 2
    have "gc_merge (gc_replica gc_example_system ?A) (gc_replica gc_example_system ?B) =
        gc_replica gc_example_system ?B"
      by (simp add: gc_example_system_def gc_merge_def bt_upsert_def entry_or_def)
    then show ?thesis
      using 2 gc_deliver [of "gc_replica gc_example_system ?B" "gc_example_run 1" ?A]
      by (simp add: gc_example_run_def Let_def)
  next
    case 3
    have "insert (gc_replica (gc_example_run 2) ?B) (gc_sent (gc_example_run 2)) = gc_sent (gc_example_run 2)"
      by (simp add: gc_example_run_def Let_def)
    then have "gc_step (gc_example_run 2) (gc_example_run 2)"
      using gc_publish [of "gc_example_run 2" ?B] by simp
    then show ?thesis using 3 by (simp add: gc_example_run_def Let_def)
  qed
qed

lemma gc_example_run_fair: "gc_fair {replicate 16 1, replicate 16 2} gc_example_run"
proof -
  have conv: "gc_replica (gc_example_run (Suc m)) j =
      gc_merge (gc_replica (gc_example_run m) j) (gc_replica (gc_example_run m) i)"
    if "i \<in> {replicate 16 1, replicate 16 2}" "j \<in> {replicate 16 1, replicate 16 2}" "2 \<le> m" for i j m
    using that gc_example_absorbed [of "replicate 16 2"] by (auto simp: gc_example_run_def Let_def)
  have "\<exists>k' m. k \<le> k' \<and> k' \<le> m \<and> gc_replica (gc_example_run (Suc m)) j =
      gc_merge (gc_replica (gc_example_run m) j) (gc_replica (gc_example_run k') i)"
    if "i \<in> {replicate 16 1, replicate 16 2}" "j \<in> {replicate 16 1, replicate 16 2}" for i j k
    by (rule exI [of _ "max 2 k"], rule exI [of _ "max 2 k"]) (simp add: conv [OF that])
  then show ?thesis unfolding gc_fair_def by blast
qed

section \<open>Correctness\<close>

text \<open>
  C4. The replicas of the counter refine the event store: in every reachable state each step of the
  system (an increment that does not overflow its slot, a publication, a merge) is a step of the abstract store or leaves it as
  it is, and what a checked build's \<^verbatim>\<open>value\<close> answers is the number of events the
  replica knows, with a panic exactly when that number needs more than 64 bits.
\<close>

theorem gc_refines_events:
  assumes "gc_reachable s" "gc_step s s'"
  shows "es_inv (gc_abs s) \<and> es_step (gc_abs s) (gc_abs s') \<and>
    gc_value Checked (gc_replica s i) =
      (if card (es_known (gc_abs s) i) < 2 ^ 64 then Ret (of_nat (card (es_known (gc_abs s) i)))
       else Panic Arith_Overflow)"
proof -
  have inv: "gc_ref_inv s" using assms(1) by (rule gc_reachable_ref_inv)
  have "gc_ok (gc_replica s i)"
    using inv by (simp add: gc_ref_inv_def gc_inv_def gc_sound_def)
  then have "es_known (gc_abs s) i = gc_events (gc_replica s i)"
    "card (gc_events (gc_replica s i)) = gc_total (gc_replica s i)"
    by (simp_all add: gc_abs_def card_gc_events)
  then show ?thesis
    using gcr.abs_inv [OF inv] gcr.simulates [OF inv assms(2)] by (simp add: gc_value_spec)
qed

theorem gc_refines_events_witness:
  "es_step (gc_abs gc_example_system) (gc_abs (gc_example_run 1)) \<and>
   card (es_known (gc_abs gc_example_system) (replicate 16 2)) = 2"
proof -
  have "gc_step gc_example_system (gc_example_run 1)"
    using gc_example_run_step [of 0] by (simp add: gc_example_run_def)
  note ref = gc_refines_events [OF gc_example_reachable this, of "replicate 16 2"]
  have ok: "gc_ok (gc_replica gc_example_system (replicate 16 2))"
    using gc_reachable_inv [OF gc_example_reachable] by (simp add: gc_inv_def gc_sound_def)
  have "card (es_known (gc_abs gc_example_system) (replicate 16 2)) = 2"
    using card_gc_events(1) [OF ok]
    by (simp add: gc_abs_def gc_example_system_def gc_total_def)
  then show ?thesis using ref by blast
qed

text \<open>
  C14. Every increment is eventually counted: in a run where the devices of a finite set keep
  merging each other's states, no device outside it increments and no slot overflows, once increments have stopped,
  from some time on and for good the slots of every device of the set add up to the number of all
  increments ever made. \<^verbatim>\<open>value\<close> then returns that number when it fits 64 bits; when
  it does not, a checked build panics and a release build returns it modulo \<open>2 ^ 64\<close>.
\<close>

theorem gc_eventually_counts:
  assumes "gc_reachable (r 0)" "\<forall>k. gc_step (r k) (r (Suc k))" "gc_fair D r" "finite D"
    and "\<forall>n \<ge> k. gc_incs (r n) = gc_incs (r k)" "\<forall>i. 0 < gc_incs (r k) i \<longrightarrow> i \<in> D"
  shows "\<exists>m. \<forall>n \<ge> m. \<forall>j \<in> D. gc_total (gc_replica (r n) j) = (\<Sum>i\<in>D. gc_incs (r k) i) \<and>
    gc_value Checked (gc_replica (r n) j) = (if (\<Sum>i\<in>D. gc_incs (r k) i) < 2 ^ 64
      then Ret (of_nat (\<Sum>i\<in>D. gc_incs (r k) i)) else Panic Arith_Overflow) \<and>
    gc_value Wrapping (gc_replica (r n) j) = Ret (of_nat (\<Sum>i\<in>D. gc_incs (r k) i))"
proof -
  have inv: "gc_ref_inv (r n)" for n
    using gcr.run_inv [of r n] gc_reachable_ref_inv [OF assms(1)] assms(2) by blast
  have fair: "es_fair D (gc_abs \<circ> r)"
    by (rule gc_fair_abs [OF gc_ref_invD [OF inv] assms(3)])
  have events: "\<forall>n \<ge> k. es_events (gc_abs (r n)) = es_events (gc_abs (r k))"
  proof (intro allI impI)
    fix n assume "k \<le> n"
    then have "gc_incs (r n) = gc_incs (r k)" using assms(5) by blast
    then show "es_events (gc_abs (r n)) = es_events (gc_abs (r k))" by (simp add: gc_abs_def)
  qed
  have support: "i \<in> D" if "l < gc_incs (r k) i" for i l using that assms(6) by (cases l) auto
  have home: "\<forall>e \<in> es_events (gc_abs (r k)). \<exists>i \<in> D. e \<in> es_known (gc_abs (r k)) i"
  proof
    fix e assume "e \<in> es_events (gc_abs (r k))"
    then obtain i l where e: "e = (i, l)" "l < gc_incs (r k) i" by (auto simp: gc_abs_def)
    then have "i \<in> D" using support by blast
    moreover have "gc_slot (gc_replica (r k) i) i = gc_incs (r k) i"
      using inv [of k] by (simp add: gc_ref_inv_def gc_inv_def)
    ultimately show "\<exists>i \<in> D. e \<in> es_known (gc_abs (r k)) i"
      using e by (intro bexI [of _ i]) (simp_all add: gc_abs_def)
  qed
  from gcr.eventually_agree [OF inv assms(2) fair assms(4) events home] obtain m where
    m: "\<forall>n \<ge> m. \<forall>j \<in> D. es_known (gc_abs (r n)) j = es_events (gc_abs (r k))" ..
  have count: "card (es_events (gc_abs (r k))) = (\<Sum>i\<in>D. gc_incs (r k) i)"
  proof -
    have "es_events (gc_abs (r k)) = (SIGMA i : D. {..< gc_incs (r k) i})"
      using support by (auto simp: gc_abs_def)
    then show ?thesis using assms(4) by simp
  qed
  have "gc_total (gc_replica (r n) j) = (\<Sum>i\<in>D. gc_incs (r k) i)" if "m \<le> n" "j \<in> D" for n j
  proof -
    have "gc_ok (gc_replica (r n) j)" using inv [of n] by (simp add: gc_ref_inv_def gc_inv_def gc_sound_def)
    moreover have "gc_events (gc_replica (r n) j) = es_events (gc_abs (r k))"
      using m that by (simp add: gc_abs_def)
    ultimately show ?thesis using card_gc_events(1) count by metis
  qed
  then show ?thesis using gc_value_spec by metis
qed

theorem gc_eventually_counts_witness:
  "\<exists>m. gc_total (gc_replica (gc_example_run m) (replicate 16 1)) = 2 \<and>
     gc_value Checked (gc_replica (gc_example_run m) (replicate 16 1)) = Ret 2 \<and>
     gc_total (gc_replica (gc_example_run 0) (replicate 16 1)) = 1"
proof -
  let ?A = "replicate 16 (1 :: u8)" and ?B = "replicate 16 (2 :: u8)"
  have incs: "gc_incs (gc_example_run n) = (\<lambda>_. 0)(?A := 1, ?B := 1)" for n
    by (simp add: gc_example_run_def gc_example_system_def Let_def)
  have start: "gc_reachable (gc_example_run 0)"
    using gc_example_reachable by (simp add: gc_example_run_def Let_def)
  have "\<forall>k. gc_step (gc_example_run k) (gc_example_run (Suc k))" using gc_example_run_step by blast
  moreover have "\<forall>i. 0 < gc_incs (gc_example_run 0) i \<longrightarrow> i \<in> {?A, ?B}" by (simp add: incs)
  ultimately have count: "\<exists>m. \<forall>n \<ge> m. \<forall>j \<in> {?A, ?B}. gc_total (gc_replica (gc_example_run n) j) = S \<and>
      gc_value Checked (gc_replica (gc_example_run n) j) = (if S < 2 ^ 64 then Ret (of_nat S) else Panic Arith_Overflow)"
    if "S = (\<Sum>i\<in>{?A, ?B}. gc_incs (gc_example_run 0) i)" for S
    using gc_eventually_counts [OF start _ gc_example_run_fair, of 0] unfolding that by (simp add: incs) blast
  have "2 = (\<Sum>i\<in>{?A, ?B}. gc_incs (gc_example_run 0) i)" by (simp add: incs)
  from count [OF this] have "\<exists>m. gc_total (gc_replica (gc_example_run m) ?A) = 2 \<and>
      gc_value Checked (gc_replica (gc_example_run m) ?A) = Ret 2"
    by auto
  moreover have "gc_total (gc_replica (gc_example_run 0) ?A) = 1"
    by (simp add: gc_example_run_def gc_example_system_def gc_total_def Let_def)
  ultimately show ?thesis by blast
qed

end
