(* ===== verification/Log_Refinement.thy ===== *)
theory Log_Refinement
  imports Log_System Event_Store
begin

text \<open>
  The devices of \<open>Log_System\<close> implement the event store as long as the messages written fit
  the bound of a log: a log stands for its messages, a write creates one (its clock has never
  been used before), \<^verbatim>\<open>merge\<close> is the union, and clock events change nothing. Eventual
  delivery in fair runs is inherited.
\<close>

section \<open>The messages a log stands for\<close>

definition log_msgs :: "message_log \<Rightarrow> (hlc \<times> bytes) set" where
  "log_msgs l = {(h, d). log_map l h = Some d}"

definition ls_abs :: "log_system \<Rightarrow> (hlc \<times> bytes) event_store" where
  "ls_abs s =
     \<lparr>es_known = (\<lambda>i. log_msgs (ls_log s i)), es_sent = log_msgs ` ls_sent s,
      es_events = set (ls_written s)\<rparr>"

definition ls_bounded :: "log_system \<Rightarrow> bool" where
  "ls_bounded s \<longleftrightarrow> ls_inv s \<and> length (ls_written s) \<le> MAX_LOG_ENTRIES"

definition ls_bounded_step :: "log_system \<Rightarrow> log_system \<Rightarrow> bool" where
  "ls_bounded_step s s' \<longleftrightarrow> ls_step Checked s s' \<and> length (ls_written s') \<le> MAX_LOG_ENTRIES"

lemma mem_log_msgs [simp]: "(h, d) \<in> log_msgs l \<longleftrightarrow> log_map l h = Some d"
  by (simp add: log_msgs_def)

lemma log_msgs_inject: "log_ok a \<Longrightarrow> log_ok b \<Longrightarrow> log_msgs a = log_msgs b \<longleftrightarrow> a = b"
proof
  assume "log_msgs a = log_msgs b" and ok: "log_ok a" "log_ok b"
  then have "log_map a h = Some d \<longleftrightarrow> log_map b h = Some d" for h d by (metis mem_log_msgs)
  then have "log_map a = log_map b" by (metis ext not_Some_eq)
  then show "a = b" using ok by (simp add: log_ext)
qed simp

lemma log_msgs_append:
  "log_append h d l = Ok l' \<Longrightarrow> h \<notin> dom (log_map l) \<Longrightarrow> log_msgs l' = insert (h, d) (log_msgs l)"
  by (auto simp: log_map_append split: if_splits)

lemma log_msgs_merge:
  assumes "log_within H a" "log_within H b"
  shows "log_msgs (log_merge a b) = log_msgs a \<union> log_msgs b"
proof -
  have "log_map a \<subseteq>\<^sub>m H" "log_map b \<subseteq>\<^sub>m H" using assms by (simp_all add: log_within_def)
  then have "v = w" if "log_map a h = Some v" "log_map b h = Some w" for h v w
    using that by (metis domI map_le_def option.inject)
  then show ?thesis
    by (fastforce simp: log_map_merge [OF assms] map_add_Some_iff)
qed

lemma log_len_msgs: "log_ok l \<Longrightarrow> log_len l = card (log_msgs l)"
proof -
  assume ok: "log_ok l"
  have "log_msgs l = (\<lambda>h. (h, the (log_map l h))) ` dom (log_map l)"
    by (auto simp: log_msgs_def dom_def image_iff)
  then have "card (log_msgs l) = card (dom (log_map l))"
    by (simp add: card_image inj_on_def)
  then show ?thesis using ok by (simp add: log_card_dom)
qed

lemma ls_bounded_within:
  "ls_bounded s \<Longrightarrow> l \<in> range (ls_log s) \<union> ls_sent s \<Longrightarrow> log_within (map_of (ls_written s)) l"
  using log_within_written by (simp add: ls_bounded_def)

lemma log_within_msgs: "log_within (map_of ms) l \<Longrightarrow> log_msgs l \<subseteq> set ms"
proof (rule subsetI)
  fix e assume l: "log_within (map_of ms) l" "e \<in> log_msgs l"
  obtain h d where e: "e = (h, d)" by (cases e)
  have "map_of ms h = Some d"
    using l e by (auto simp: log_within_def map_le_def dom_def)
  then show "e \<in> set ms" using e by (simp add: map_of_SomeD)
qed

section \<open>The simulation\<close>

lemma ls_abs_inv: "ls_bounded s \<Longrightarrow> es_inv (ls_abs s)"
  using log_within_msgs [OF ls_bounded_within] by (fastforce simp: es_inv_def ls_abs_def)

lemma ls_bounded_step_inv: "ls_bounded s \<Longrightarrow> ls_bounded_step s s' \<Longrightarrow> ls_bounded s'"
  using ls_step_inv by (auto simp: ls_bounded_def ls_bounded_step_def)

lemma ls_abs_step:
  assumes "ls_bounded s" "ls_bounded_step s s'"
  shows "es_step (ls_abs s) (ls_abs s')"
proof -
  have step: "ls_step Checked s s'" using assms(2) by (simp add: ls_bounded_step_def)
  have inv': "ls_inv s'" using ls_bounded_step_inv [OF assms] by (simp add: ls_bounded_def)
  show ?thesis
    using step
  proof (cases rule: ls_step.cases)
    case (ls_write t now i h data l)
    have fresh: "(h, d) \<notin> set (ls_written s)" for d
      using inv' by (force simp: ls_inv_def ls_write(1))
    moreover have "log_msgs (ls_log s i) \<subseteq> set (ls_written s)"
      using log_within_msgs [OF ls_bounded_within [OF assms(1)]] by simp
    then have "(h, d) \<notin> log_msgs (ls_log s i)" for d using fresh by blast
    ultimately have new: "(h, data) \<notin> set (ls_written s)" "h \<notin> dom (log_map (ls_log s i))"
      by (simp_all add: domIff)
    show ?thesis
      using es_create [of "(h, data)" "ls_abs s" i] new(1) log_msgs_append [OF ls_write(4) new(2)]
      by (simp add: ls_abs_def ls_write(1) fun_upd_under del: fun_upd_apply)
  next
    case (ls_clock c)
    then show ?thesis using es_idle [of "ls_abs s"] by (simp add: ls_abs_def)
  next
    case (ls_publish i)
    then show ?thesis using es_publish [of "ls_abs s" i] by (simp add: ls_abs_def)
  next
    case (ls_deliver l i)
    have within: "log_within (map_of (ls_written s)) (ls_log s i)" "log_within (map_of (ls_written s)) l"
      using ls_bounded_within [OF assms(1)] ls_deliver(2) by simp_all
    show ?thesis
      using es_deliver [of "log_msgs l" "ls_abs s" i] ls_deliver log_msgs_merge [OF within]
      by (simp add: ls_abs_def fun_upd_under del: fun_upd_apply)
  qed
qed

interpretation lsr: event_refinement ls_bounded_step ls_bounded ls_abs
  by unfold_locales (fact ls_bounded_step_inv ls_abs_inv ls_abs_step)+

section \<open>Fair runs\<close>

text \<open>Among the devices \<open>D\<close> every later log of one is, again and again, merged by every other.\<close>

definition ls_fair :: "bytes16 set \<Rightarrow> (nat \<Rightarrow> log_system) \<Rightarrow> bool" where
  "ls_fair D r \<longleftrightarrow>
     (\<forall>i \<in> D. \<forall>j \<in> D. \<forall>k. \<exists>k' m. k \<le> k' \<and> k' \<le> m \<and>
        ls_log (r (Suc m)) j = log_merge (ls_log (r m) j) (ls_log (r k') i))"

lemma ls_inv_home:
  "ls_inv s \<Longrightarrow> (h, d) \<in> set (ls_written s) \<Longrightarrow> (h, d) \<in> es_known (ls_abs s) (node_id h)"
  by (auto simp: ls_inv_def ls_abs_def)

lemma ls_run_bounded:
  assumes "ls_reachable Checked (r 0)" "\<forall>k. ls_step Checked (r k) (r (Suc k))"
    and "\<forall>k. length (ls_written (r k)) \<le> MAX_LOG_ENTRIES"
  shows "ls_bounded (r k)" "\<forall>k. ls_bounded_step (r k) (r (Suc k))"
proof -
  show steps: "\<forall>k. ls_bounded_step (r k) (r (Suc k))"
    using assms(2,3) by (simp add: ls_bounded_step_def)
  have "ls_bounded (r 0)" using assms ls_checked_inv by (simp add: ls_bounded_def)
  then show "ls_bounded (r k)" using lsr.run_inv steps by blast
qed

lemma ls_run_short:
  assumes "ls_reachable b (r 0)" "\<forall>k. ls_step b (r k) (r (Suc k))" "\<forall>k. no_wrap b (ls_cluster (r k))"
  shows "ls_reachable Checked (r 0)" "\<forall>k. ls_step Checked (r k) (r (Suc k))"
proof -
  show "ls_reachable Checked (r 0)" using assms(1,3) ls_run_checked by blast
  have "ls_reachable b (r k)" for k by (induction k) (use assms(1,2) ls_next in blast)+
  then show "\<forall>k. ls_step Checked (r k) (r (Suc k))" using assms(2,3) ls_step_checked by blast
qed

lemma ls_written_grows:
  assumes "\<forall>k. ls_step Checked (r k) (r (Suc k))" "k \<le> n"
  shows "set (ls_written (r k)) \<subseteq> set (ls_written (r n))"
proof -
  have "set (ls_written (r k)) \<subseteq> set (ls_written (r (Suc k)))" for k
    using assms(1) [rule_format, of k] by (cases rule: ls_step.cases) auto
  then show ?thesis using lift_Suc_mono_le [of "\<lambda>k. set (ls_written (r k))"] assms(2) by blast
qed

lemma ls_fair_abs:
  assumes "\<And>k. ls_bounded (r k)" "\<forall>k. ls_step Checked (r k) (r (Suc k))" "ls_fair D r"
  shows "es_fair D (ls_abs \<circ> r)"
proof -
  have "es_known (ls_abs (r (Suc m))) j = es_known (ls_abs (r m)) j \<union> es_known (ls_abs (r k')) i"
    if "ls_log (r (Suc m)) j = log_merge (ls_log (r m) j) (ls_log (r k') i)" "k' \<le> m" for i j k' m
  proof -
    let ?H = "map_of (ls_written (r m))"
    have "log_within (map_of (ls_written (r k'))) (ls_log (r k') i)" "log_within ?H (ls_log (r m) j)"
      using ls_bounded_within [OF assms(1)] by simp_all
    moreover have "map_of (ls_written (r k')) \<subseteq>\<^sub>m ?H"
    proof -
      have "distinct (map fst (ls_written (r k)))" for k
        using assms(1) [of k] by (simp add: ls_bounded_def ls_inv_def)
      then show ?thesis
        using ls_written_grows [OF assms(2) that(2)] by (auto simp: map_le_def dom_def)
    qed
    ultimately have "log_within ?H (ls_log (r k') i)" "log_within ?H (ls_log (r m) j)"
      by (auto simp: log_within_def intro: map_le_trans)
    then show ?thesis by (simp add: ls_abs_def that(1) log_msgs_merge)
  qed
  then show ?thesis
    using assms(3) unfolding ls_fair_def es_fair_def comp_def by metis
qed

text \<open>
  A run for the witnesses: from \<open>ls_example\<close>, where devices 1 and 2 have written a message
  each and 1 has published its log, 2 publishes, each merges the other's log, and from then on
  the common log travels.
\<close>

definition ls_example_run :: "nat \<Rightarrow> log_system" where
  "ls_example_run k =
     (let A = replicate 16 1; B = replicate 16 2; s0 = ls_example;
          a = ls_log s0 A; b = ls_log s0 B; c = log_merge a b;
          s1 = s0\<lparr>ls_sent := insert b (ls_sent s0)\<rparr>;
          s2 = s1\<lparr>ls_log := (ls_log s1)(A := c)\<rparr>;
          s3 = s2\<lparr>ls_log := (ls_log s2)(B := c)\<rparr>;
          s4 = s3\<lparr>ls_sent := insert c (ls_sent s3)\<rparr>
      in if k = 0 then s0 else if k = 1 then s1 else if k = 2 then s2 else if k = 3 then s3 else s4)"

lemma ls_example_logs:
  fixes A B :: bytes16
  defines "A \<equiv> replicate 16 1" and "B \<equiv> replicate 16 2"
  shows "log_merge (ls_log ls_example A) (ls_log ls_example B) =
      log_merge (ls_log ls_example B) (ls_log ls_example A)"
    and "log_merge (log_merge (ls_log ls_example A) (ls_log ls_example B))
      (log_merge (ls_log ls_example A) (ls_log ls_example B)) =
      log_merge (ls_log ls_example A) (ls_log ls_example B)"
proof -
  have "ls_bounded ls_example"
    using ls_checked_inv [OF ls_example_reachable]
    by (simp add: ls_bounded_def ls_example_def MAX_LOG_ENTRIES_def Let_def)
  note within = ls_bounded_within [OF this, of "ls_log ls_example A", simplified]
    ls_bounded_within [OF this, of "ls_log ls_example B", simplified]
  show "log_merge (ls_log ls_example A) (ls_log ls_example B) =
      log_merge (ls_log ls_example B) (ls_log ls_example A)"
    using mlog.commutative [OF within] by (simp add: log_eq_iff)
  show "log_merge (log_merge (ls_log ls_example A) (ls_log ls_example B))
      (log_merge (ls_log ls_example A) (ls_log ls_example B)) =
      log_merge (ls_log ls_example A) (ls_log ls_example B)"
    using mlog.idempotent [OF log_within_merge [OF within]] by (simp add: log_eq_iff)
qed

lemma ls_example_sent: "ls_log ls_example (replicate 16 1) \<in> ls_sent ls_example"
  by (simp add: ls_example_def Let_def)

lemma ls_example_run_step: "ls_step b (ls_example_run k) (ls_example_run (Suc k))"
proof -
  let ?A = "replicate 16 (1 :: u8)" and ?B = "replicate 16 (2 :: u8)"
  note run = ls_example_run_def Let_def
  consider "k = 0" | "k = 1" | "k = 2" | "k = 3" | "4 \<le> k" by linarith
  then show ?thesis
  proof cases
    case 1
    then show ?thesis using ls_publish [of b ls_example ?B] by (simp add: run)
  next
    case 2
    then show ?thesis
      using ls_deliver [of "ls_log ls_example ?B" "ls_example_run 1" b ?A] by (simp add: run)
  next
    case 3
    then show ?thesis
      using ls_deliver [of "ls_log ls_example ?A" "ls_example_run 2" b ?B] ls_example_sent
      by (simp add: run ls_example_logs(1))
  next
    case 4
    then show ?thesis using ls_publish [of b "ls_example_run 3" ?A] by (simp add: run)
  next
    case 5
    have "insert (ls_log (ls_example_run 4) ?A) (ls_sent (ls_example_run 4)) = ls_sent (ls_example_run 4)"
      by (simp add: run insert_absorb)
    then have "ls_step b (ls_example_run 4) (ls_example_run 4)"
      using ls_publish [of b "ls_example_run 4" ?A] by simp
    then show ?thesis using 5 by (simp add: run)
  qed
qed

lemma ls_example_run_0: "ls_reachable b (ls_example_run 0)"
  using ls_example_reachable by (simp add: ls_example_run_def Let_def)

lemma ls_example_run_written: "ls_written (ls_example_run k) = ls_written ls_example"
  by (simp add: ls_example_run_def Let_def)

lemma ls_example_run_trace: "length (trace (ls_cluster (ls_example_run k))) = 2"
  using ls_example_trace by (simp add: ls_example_run_def Let_def)

lemma ls_example_run_fair: "ls_fair {replicate 16 1, replicate 16 2} ls_example_run"
proof -
  have conv: "ls_log (ls_example_run (Suc m)) j =
      log_merge (ls_log (ls_example_run m) j) (ls_log (ls_example_run m) i)"
    if "i \<in> {replicate 16 1, replicate 16 2}" "j \<in> {replicate 16 1, replicate 16 2}" "4 \<le> m" for i j m
    using that by (auto simp: ls_example_run_def Let_def ls_example_logs(2))
  have "\<exists>k' m. k \<le> k' \<and> k' \<le> m \<and> ls_log (ls_example_run (Suc m)) j =
      log_merge (ls_log (ls_example_run m) j) (ls_log (ls_example_run k') i)"
    if "i \<in> {replicate 16 1, replicate 16 2}" "j \<in> {replicate 16 1, replicate 16 2}" for i j k
    by (rule exI [of _ "max 4 k"], rule exI [of _ "max 4 k"]) (simp add: conv [OF that])
  then show ?thesis unfolding ls_fair_def by blast
qed

section \<open>Correctness\<close>

text \<open>
  C3. The logs refine the event store: from every state the devices reach while the messages
  written fit \<open>MAX_LOG_ENTRIES\<close>, the bound of one log, each step that keeps within it (a write,
  a clock event, a publication, a merge) is a step of the abstract store, in which a message is
  created once and for all and merging is union, and the length of a log is the number of
  messages its device knows; in a build with overflow checks, and in a release build with fewer
  than \<open>2 ^ 32\<close> clock events.
\<close>

theorem ls_refines_events:
  assumes "ls_reachable b s" "ls_step b s s'" "no_wrap b (ls_cluster s')"
    and "length (ls_written s) \<le> MAX_LOG_ENTRIES" "length (ls_written s') \<le> MAX_LOG_ENTRIES"
  shows "es_inv (ls_abs s) \<and> es_step (ls_abs s) (ls_abs s') \<and>
    log_len (ls_log s i) = card (es_known (ls_abs s) i)"
proof -
  have "no_wrap b (ls_cluster s)" using assms(3) ls_trace_grows [OF assms(2)] by auto
  then have inv: "ls_bounded s" using assms(4) ls_reachable_inv [OF assms(1)] by (simp add: ls_bounded_def)
  have step: "ls_bounded_step s s'"
    using ls_step_checked [OF assms(1-3)] assms(5) by (simp add: ls_bounded_step_def)
  have "log_ok (ls_log s i)"
    using ls_bounded_within [OF inv, of "ls_log s i"] by (simp add: log_within_def)
  then have "log_len (ls_log s i) = card (es_known (ls_abs s) i)"
    by (simp add: log_len_msgs ls_abs_def)
  then show ?thesis using lsr.abs_inv [OF inv] lsr.simulates [OF inv step] by blast
qed

theorem ls_refines_events_witness:
  "es_step (ls_abs ls_example) (ls_abs (ls_example_run 1)) \<and>
   log_len (ls_log ls_example (replicate 16 1)) = card (es_known (ls_abs ls_example) (replicate 16 1))"
proof -
  have "ls_step Wrapping ls_example (ls_example_run 1)"
    using ls_example_run_step [of Wrapping 0] by (simp add: ls_example_run_def Let_def)
  moreover have "length (ls_written ls_example) \<le> MAX_LOG_ENTRIES"
    by (simp add: ls_example_def MAX_LOG_ENTRIES_def Let_def)
  ultimately show ?thesis
    using ls_refines_events [OF ls_example_reachable] ls_example_run_written [of 1] ls_example_run_trace [of 1] by simp
qed

lemma ls_logs_when_known:
  assumes "ls_bounded s" "es_known (ls_abs s) i = es_events (ls_abs t)" "es_known (ls_abs s) j = es_events (ls_abs t)"
  shows "log_eq (ls_log s i) (ls_log s j) \<and> (\<forall>h d. log_map (ls_log s i) h = Some d \<longleftrightarrow> (h, d) \<in> set (ls_written t))"
proof -
  have msgs: "log_msgs (ls_log s i) = set (ls_written t)" "log_msgs (ls_log s j) = set (ls_written t)"
    using assms(2,3) by (simp_all add: ls_abs_def)
  have "log_ok (ls_log s i)" "log_ok (ls_log s j)"
    using ls_bounded_within [OF assms(1)] by (auto simp: log_within_def)
  then have "log_eq (ls_log s i) (ls_log s j)" using msgs by (simp add: log_eq_iff flip: log_msgs_inject)
  moreover have "log_map (ls_log s i) h = Some d \<longleftrightarrow> (h, d) \<in> set (ls_written t)" for h d
    using mem_log_msgs [of h d "ls_log s i"] msgs(1) by simp
  ultimately show ?thesis by blast
qed

text \<open>
  C2. Every message arrives: in a run of a build with overflow checks, or of a release build with
  fewer than \<open>2 ^ 32\<close> clock events, whose messages fit the bound of a log and in which the
  devices of a finite set keep merging each other's logs, each message written by one of them
  is, from some time on and for good, in the log of every one; and if from some time on nobody
  writes and all authors are in the set, the logs of the set end up equal, holding exactly the
  messages written.
\<close>

theorem ls_eventual_delivery:
  assumes "ls_reachable b (r 0)" "\<forall>k. ls_step b (r k) (r (Suc k))" "\<forall>k. no_wrap b (ls_cluster (r k))"
    and "\<forall>k. length (ls_written (r k)) \<le> MAX_LOG_ENTRIES" "ls_fair D r" "finite D"
  shows "((h, d) \<in> set (ls_written (r k)) \<and> node_id h \<in> D \<longrightarrow>
      (\<exists>m. \<forall>n \<ge> m. \<forall>j \<in> D. log_map (ls_log (r n) j) h = Some d)) \<and>
    ((\<forall>n \<ge> k. ls_written (r n) = ls_written (r k)) \<and>
      (\<forall>(h, d) \<in> set (ls_written (r k)). node_id h \<in> D) \<longrightarrow>
      (\<exists>m. \<forall>n \<ge> m. \<forall>i \<in> D. \<forall>j \<in> D. log_eq (ls_log (r n) i) (ls_log (r n) j) \<and>
        (\<forall>h d. log_map (ls_log (r n) i) h = Some d \<longleftrightarrow> (h, d) \<in> set (ls_written (r k)))))"
proof (intro conjI impI)
  note checked = ls_run_short [OF assms(1-3)]
  have bounded: "ls_bounded (r k)" for k by (rule ls_run_bounded [OF checked assms(4)])
  have steps: "\<forall>k. ls_bounded_step (r k) (r (Suc k))" by (rule ls_run_bounded [OF checked assms(4)])
  have fair: "es_fair D (ls_abs \<circ> r)" by (rule ls_fair_abs [OF bounded checked(2) assms(5)])
  have inv: "ls_inv (r k)" for k using bounded [of k] by (simp add: ls_bounded_def)
  {
    assume *: "(h, d) \<in> set (ls_written (r k)) \<and> node_id h \<in> D"
    then have "\<forall>e \<in> {(h, d)}. \<exists>i \<in> D. \<exists>k. e \<in> es_known (ls_abs (r k)) i"
      using ls_inv_home [OF inv] by blast
    from lsr.eventually_all [OF bounded steps fair assms(6) _ this]
    show "\<exists>m. \<forall>n \<ge> m. \<forall>j \<in> D. log_map (ls_log (r n) j) h = Some d"
      by (simp add: ls_abs_def)
  }
  assume *: "(\<forall>n \<ge> k. ls_written (r n) = ls_written (r k)) \<and>
    (\<forall>(h, d) \<in> set (ls_written (r k)). node_id h \<in> D)"
  have events: "\<forall>n \<ge> k. es_events (ls_abs (r n)) = es_events (ls_abs (r k))"
  proof (intro allI impI)
    fix n assume "k \<le> n"
    then have "ls_written (r n) = ls_written (r k)" using * by blast
    then show "es_events (ls_abs (r n)) = es_events (ls_abs (r k))" by (simp add: ls_abs_def)
  qed
  have home: "\<forall>e \<in> es_events (ls_abs (r k)). \<exists>i \<in> D. e \<in> es_known (ls_abs (r k)) i"
  proof
    fix e assume e: "e \<in> es_events (ls_abs (r k))"
    then obtain h d where "e = (h, d)" "(h, d) \<in> set (ls_written (r k))"
      by (cases e) (simp add: ls_abs_def)
    then show "\<exists>i \<in> D. e \<in> es_known (ls_abs (r k)) i" using * ls_inv_home [OF inv] by blast
  qed
  from lsr.eventually_agree [OF bounded steps fair assms(6) events home] obtain m where
    m: "\<forall>n \<ge> m. \<forall>j \<in> D. es_known (ls_abs (r n)) j = es_events (ls_abs (r k))" ..
  show "\<exists>m. \<forall>n \<ge> m. \<forall>i \<in> D. \<forall>j \<in> D. log_eq (ls_log (r n) i) (ls_log (r n) j) \<and>
      (\<forall>h d. log_map (ls_log (r n) i) h = Some d \<longleftrightarrow> (h, d) \<in> set (ls_written (r k)))"
    using ls_logs_when_known [OF bounded] m by metis
qed

theorem ls_eventual_delivery_witness:
  "\<exists>m. log_map (ls_log (ls_example_run m) (replicate 16 1))
     \<lparr>wall_clock_ms = 7, counter = 0, node_id = replicate 16 2\<rparr> = Some [20] \<and>
   log_map (ls_log (ls_example_run 0) (replicate 16 1))
     \<lparr>wall_clock_ms = 7, counter = 0, node_id = replicate 16 2\<rparr> = None"
proof -
  let ?h = "\<lparr>wall_clock_ms = 7, counter = 0, node_id = replicate 16 2\<rparr>"
  let ?D = "{replicate 16 (1 :: u8), replicate 16 2}"
  have "\<forall>k. length (ls_written (ls_example_run k)) \<le> MAX_LOG_ENTRIES"
    by (simp add: ls_example_run_written) (simp add: ls_example_def MAX_LOG_ENTRIES_def Let_def)
  moreover have "\<forall>k. ls_step Wrapping (ls_example_run k) (ls_example_run (Suc k))"
    using ls_example_run_step by blast
  moreover have "\<forall>k. no_wrap Wrapping (ls_cluster (ls_example_run k))"
    by (simp add: ls_example_run_trace)
  moreover have "(?h, [20]) \<in> set (ls_written (ls_example_run 0))"
    by (simp add: ls_example_run_written) (simp add: ls_example_def Let_def)
  ultimately have "\<exists>m. \<forall>n \<ge> m. \<forall>j \<in> ?D. log_map (ls_log (ls_example_run n) j) ?h = Some [20]"
    using ls_eventual_delivery [OF ls_example_run_0 _ _ _ ls_example_run_fair, of Wrapping ?h "[20]" 0] by simp
  moreover have "log_map (ls_log (ls_example_run 0) (replicate 16 1)) ?h = None"
    by (simp add: ls_example_run_def ls_example_def log_map_def Let_def)
  ultimately show ?thesis by blast
qed

end
