(* ===== verification/Orset_Refinement.thy ===== *)
theory Orset_Refinement
  imports Orset_Replicas Event_Store
begin

text \<open>
  The replicas of a set implement the event store twice. The sequence numbers of a state stand for
  the additions it has seen of every node, and grow in every step. Its dots stand for the additions it still holds, and
  grow as long as nobody removes anything. Together they are the whole state, so in fair runs
  without removals the replicas end up equal under \<^verbatim>\<open>==\<close>.
\<close>

section \<open>The additions a set stands for\<close>

definition os_seqs :: "'a orset \<Rightarrow> (bytes16 \<times> nat) set" where
  "os_seqs s = (SIGMA n : UNIV. {..< os_seq s n})"

definition os_tags :: "'a orset \<Rightarrow> (dot \<times> 'a) set" where
  "os_tags s = {(d, v). d \<in> os_dots s v}"

lemma mem_os_seqs [simp]: "(n, k) \<in> os_seqs s \<longleftrightarrow> k < os_seq s n"
  by (simp add: os_seqs_def)

lemma mem_os_tags [simp]: "(d, v) \<in> os_tags s \<longleftrightarrow> d \<in> os_dots s v"
  by (simp add: os_tags_def)

lemma os_events_new [simp]: "os_seqs os_new = {}" "os_tags os_new = {}"
  by (auto simp: os_seqs_def os_tags_def)

lemma os_events_merge:
  assumes "os_ok a" "os_ok b"
  shows "os_seqs (os_merge a b) = os_seqs a \<union> os_seqs b" "os_tags (os_merge a b) = os_tags a \<union> os_tags b"
  using assms by (auto simp: os_seq_merge os_dots_merge)

lemma os_events_add:
  assumes "os_add Checked v i s = Ret s'"
  shows "os_seqs s' = insert (i, os_seq s i) (os_seqs s)" "os_tags s' = insert (own_dot i s', v) (os_tags s)"
  using os_add_own_dot [OF assms] by (auto split: if_splits)

text \<open>States hold no empty sets of dots and no sequence number 0, so the two make up the state.\<close>

definition os_full :: "'a orset \<Rightarrow> bool" where
  "os_full s \<longleftrightarrow> os_ok s \<and> (\<forall>v. map_of (os_entries s) v \<noteq> Some []) \<and> (\<forall>n. map_of (os_next_seq s) n \<noteq> Some 0)"

lemma os_full_new: "os_full os_new"
  by (simp add: os_full_def os_ok_new) (simp add: os_new_def)

lemma os_full_remove: "os_full s \<Longrightarrow> os_full (os_remove v s)"
  by (auto simp: os_full_def os_ok_remove) (auto simp: os_remove_def split: if_splits)

lemma os_full_eq:
  assumes "os_full a" "os_full b" "os_seqs a = os_seqs b" "os_tags a = os_tags b"
  shows "os_eq a b"
proof -
  have "map_of (os_entries a) v = map_of (os_entries b) v" for v
  proof -
    have "os_dots a v = os_dots b v" using assms(4) by (auto simp: set_eq_iff os_tags_def)
    then show ?thesis
      using assms(1,2) by (auto simp: os_full_def os_ok_def os_dots_def intro!: bs_ext split: option.splits)
  qed
  moreover have "map_of (os_next_seq a) n = map_of (os_next_seq b) n" for n
  proof -
    have "k < os_seq a n \<longleftrightarrow> k < os_seq b n" for k using assms(3) by (metis mem_os_seqs)
    then have "os_seq a n = os_seq b n" by (metis linorder_neqE_nat less_irrefl)
    then have "entry_or n 0 (os_next_seq a) = entry_or n 0 (os_next_seq b)" by (simp add: os_seq_def word_unat_eq_iff)
    then show ?thesis
      using assms(1,2) by (auto simp: os_full_def entry_or_def split: option.splits)
  qed
  ultimately show ?thesis
    using assms(1,2) by (simp add: os_full_def os_eq_maps fun_eq_iff)
qed

lemma os_full_add:
  assumes "os_add Checked v i s = Ret s'" "os_full s"
  shows "os_full s'"
proof -
  obtain seq where seq: "add_ovf Checked (entry_or i 0 (os_next_seq s)) 1 = Ret seq"
    "map_of (os_next_seq s') = (map_of (os_next_seq s))(i \<mapsto> seq)"
    using assms(1) by (rule os_add_Ret)
  have "map_of (os_entries s') w \<noteq> Some []" for w
    using assms arg_cong [of "bs_insert _ _" "[]" set]
    by (fastforce simp: os_add_def Let_def os_full_def hm_upsert_def split: if_splits option.splits)
  moreover have "unat seq \<noteq> 0" using os_add_own_dot(1) [OF assms(1), of i] seq(2) by (simp add: os_seq_def entry_or_def)
  ultimately show ?thesis
    using assms(2) os_ok_add [OF assms(1)] seq(2) by (auto simp: os_full_def)
qed

lemma os_full_merge:
  assumes "os_full a" "os_full b"
  shows "os_full (os_merge a b)"
proof -
  have ok: "os_ok a" "os_ok b" using assms by (simp_all add: os_full_def)
  have "map_of (os_entries (os_merge a b)) v \<noteq> Some []" for v
  proof
    assume "map_of (os_entries (os_merge a b)) v = Some []"
    then consider "map_of (os_entries a) v = Some []"
      | d where "map_of (os_entries b) v = Some d" "fold bs_insert d (entry_or v [] (os_entries a)) = []"
      by (auto simp: map_of_os_merge [OF ok] split: option.splits)
    then show False
    proof cases
      case 2
      from arg_cong [OF 2(2), of set] have "d = []" by simp
      then show False using 2(1) assms(2) by (simp add: os_full_def)
    qed (use assms(1) in \<open>simp add: os_full_def\<close>)
  qed
  moreover have "map_of (os_next_seq (os_merge a b)) n \<noteq> Some 0" for n
    using assms by (auto simp: map_of_os_merge [OF ok] map_join_def os_full_def max_def split: option.splits)
  ultimately show ?thesis using os_ok_merge [OF ok] by (simp add: os_full_def)
qed

section \<open>The two simulations\<close>

definition osr_ref_inv :: "'a os_replicas \<Rightarrow> bool" where
  "osr_ref_inv r \<longleftrightarrow> osr_inv r \<and> finite {n. 0 < osr_bound r n} \<and>
     (\<forall>s \<in> range (osr_state r) \<union> osr_sent r. os_full s)"

lemma osr_ref_inv_states:
  assumes "osr_ref_inv r" "s \<in> range (osr_state r) \<union> osr_sent r"
  shows "os_full s" "os_ok s" "os_seqs s \<subseteq> (SIGMA n : UNIV. {..< osr_bound r n})" "os_tags s \<subseteq> set (osr_issued r)"
proof -
  have s: "os_full s" "osr_sound (osr_bound r) (set (osr_issued r)) s"
    using assms by (auto simp: osr_ref_inv_def osr_inv_def)
  then show "os_full s" "os_ok s" by (simp_all add: os_full_def)
  show "os_seqs s \<subseteq> (SIGMA n : UNIV. {..< osr_bound r n})" "os_tags s \<subseteq> set (osr_issued r)"
    using s(2) by (fastforce simp: osr_sound_def intro: less_le_trans)+
qed

lemma osr_ref_inv_step:
  assumes "osr_ref_inv r" "osr_step r r'"
  shows "osr_ref_inv r'"
proof -
  have inv: "osr_inv r'" using assms(1) osr_step_inv [OF assms(2)] by (simp add: osr_ref_inv_def)
  note full = osr_ref_inv_states(1) [OF assms(1)]
  have "\<exists>A. finite A \<and> {n. 0 < osr_bound r' n} \<subseteq> A"
    using assms(2)
  proof (cases rule: osr_step.cases)
    case (osr_add v i s)
    then show ?thesis
      using assms(1) by (intro exI [of _ "insert i {n. 0 < osr_bound r n}"]) (auto simp: osr_ref_inv_def osr_bound_def)
  next
    case (osr_deliver s i)
    then have "os_seq s i \<le> osr_bound r i" "os_ok s" "os_ok (osr_state r i)"
      using assms(1) by (auto simp: osr_ref_inv_def osr_inv_def osr_sound_def)
    then have "osr_bound r' = osr_bound r"
      by (auto simp: osr_deliver(1) osr_bound_def os_seq_merge fun_eq_iff)
    then show ?thesis using assms(1) by (auto simp: osr_ref_inv_def)
  qed (use assms(1) in \<open>auto simp: osr_ref_inv_def osr_bound_def\<close>)
  moreover have "os_full s" if "s \<in> range (osr_state r') \<union> osr_sent r'" for s
    using assms(2)
    by (cases rule: osr_step.cases)
      (use that full in \<open>auto intro: os_full_add os_full_remove os_full_merge split: if_splits\<close>)
  ultimately show ?thesis using inv by (auto simp: osr_ref_inv_def intro: finite_subset)
qed

lemma osr_reachable_ref_inv: "osr_reachable r \<Longrightarrow> osr_ref_inv r"
proof (induction rule: osr_reachable.induct)
  case osr_start
  then show ?case by (auto simp: osr_ref_inv_def osr_start_inv os_full_new osr_bound_def)
qed (rule osr_ref_inv_step)

definition osr_seq_abs :: "'a os_replicas \<Rightarrow> (bytes16 \<times> nat) event_store" where
  "osr_seq_abs r =
     \<lparr>es_known = (\<lambda>i. os_seqs (osr_state r i)), es_sent = os_seqs ` osr_sent r,
      es_events = (SIGMA n : UNIV. {..< osr_bound r n})\<rparr>"

definition osr_dot_abs :: "'a os_replicas \<Rightarrow> (dot \<times> 'a) event_store" where
  "osr_dot_abs r =
     \<lparr>es_known = (\<lambda>i. os_tags (osr_state r i)), es_sent = os_tags ` osr_sent r, es_events = set (osr_issued r)\<rparr>"

text \<open>A step that removes nothing: no replica loses a dot.\<close>

definition osr_keep_step :: "'a os_replicas \<Rightarrow> 'a os_replicas \<Rightarrow> bool" where
  "osr_keep_step r r' \<longleftrightarrow> osr_step r r' \<and> (\<forall>i. os_tags (osr_state r i) \<subseteq> os_tags (osr_state r' i))"

lemma osr_abs_inv:
  assumes "osr_ref_inv r"
  shows "es_inv (osr_seq_abs r)" "es_inv (osr_dot_abs r)"
proof -
  have "finite (SIGMA n : UNIV. {..< osr_bound r n})"
    using assms sigma_support [of "osr_bound r"] by (simp add: osr_ref_inv_def)
  then show "es_inv (osr_seq_abs r)"
    using osr_ref_inv_states(3) [OF assms] by (fastforce simp: es_inv_def osr_seq_abs_def)
  show "es_inv (osr_dot_abs r)"
    using osr_ref_inv_states(4) [OF assms] by (fastforce simp: es_inv_def osr_dot_abs_def)
qed

lemma osr_seq_step:
  assumes "osr_ref_inv r" "osr_step r r'"
  shows "es_step (osr_seq_abs r) (osr_seq_abs r')"
  using assms(2)
proof (cases rule: osr_step.cases)
  case (osr_add v i s)
  have "osr_seq_abs r' = (osr_seq_abs r)
      \<lparr>es_known := (es_known (osr_seq_abs r))(i := insert (i, osr_bound r i) (es_known (osr_seq_abs r) i)),
       es_events := insert (i, osr_bound r i) (es_events (osr_seq_abs r))\<rparr>"
    using os_events_add(1) [OF osr_add(2)] os_add_own_dot(1) [OF osr_add(2)]
    by (auto simp: osr_add(1) osr_seq_abs_def osr_bound_def less_Suc_eq fun_eq_iff split: if_splits)
  then show ?thesis using es_create [of "(i, osr_bound r i)" "osr_seq_abs r" i] by (simp add: osr_seq_abs_def)
next
  case (osr_remove i v)
  have "os_seq (if j = i then os_remove v (osr_state r i) else osr_state r j) n = os_seq (osr_state r j) n" for j n
    by simp
  then have "osr_seq_abs r' = osr_seq_abs r"
    by (simp add: osr_remove osr_seq_abs_def osr_bound_def os_seqs_def)
  then show ?thesis by (simp add: es_idle)
next
  case (osr_publish i)
  then show ?thesis
    using es_publish [of "osr_seq_abs r" i] by (simp add: osr_seq_abs_def osr_bound_def)
next
  case (osr_deliver s i)
  then have ok: "os_ok (osr_state r i)" "os_ok s"
    using osr_ref_inv_states(2) [OF assms(1)] by auto
  have "os_seq s i \<le> osr_bound r i"
    using assms(1) osr_deliver(2) by (auto simp: osr_ref_inv_def osr_inv_def osr_sound_def)
  then have "osr_bound r' = osr_bound r"
    using ok by (auto simp: osr_deliver(1) osr_bound_def os_seq_merge fun_eq_iff)
  then show ?thesis
    using es_deliver [of "os_seqs s" "osr_seq_abs r" i] osr_deliver ok
    by (simp add: osr_seq_abs_def os_events_merge fun_upd_under del: fun_upd_apply)
qed

lemma osr_dot_step:
  assumes "osr_ref_inv r" "osr_keep_step r r'"
  shows "es_step (osr_dot_abs r) (osr_dot_abs r')"
proof -
  have "osr_step r r'" using assms(2) by (simp add: osr_keep_step_def)
  then show ?thesis
  proof (cases rule: osr_step.cases)
    case (osr_add v i s)
    have "(own_dot i s, v) \<notin> set (osr_issued r)"
      using own_dot_fresh [OF _ osr_add(2)] assms(1) by (force simp: osr_ref_inv_def)
    then show ?thesis
      using es_create [of "(own_dot i s, v)" "osr_dot_abs r" i] os_events_add(2) [OF osr_add(2)]
      by (simp add: osr_add(1) osr_dot_abs_def fun_upd_under del: fun_upd_apply)
  next
    case (osr_remove i v)
    have "os_tags (os_remove v (osr_state r i)) = os_tags (osr_state r i)"
      using assms(2) osr_remove by (auto simp: osr_keep_step_def split: if_splits)
    then have "osr_dot_abs r' = osr_dot_abs r"
      by (auto simp: osr_remove osr_dot_abs_def fun_eq_iff)
    then show ?thesis by (simp add: es_idle)
  next
    case (osr_publish i)
    then show ?thesis using es_publish [of "osr_dot_abs r" i] by (simp add: osr_dot_abs_def)
  next
    case (osr_deliver s i)
    then have "os_ok (osr_state r i)" "os_ok s"
      using osr_ref_inv_states(2) [OF assms(1)] by auto
    then show ?thesis
      using es_deliver [of "os_tags s" "osr_dot_abs r" i] osr_deliver
      by (simp add: osr_dot_abs_def os_events_merge fun_upd_under del: fun_upd_apply)
  qed
qed

interpretation oss: event_refinement osr_step osr_ref_inv osr_seq_abs
  by unfold_locales (auto intro: osr_ref_inv_step osr_abs_inv osr_seq_step)

interpretation osd: event_refinement osr_keep_step osr_ref_inv osr_dot_abs
  by unfold_locales (auto intro: osr_ref_inv_step osr_abs_inv osr_dot_step simp: osr_keep_step_def)

section \<open>Fair runs\<close>

definition osr_fair :: "bytes16 set \<Rightarrow> (nat \<Rightarrow> 'a os_replicas) \<Rightarrow> bool" where
  "osr_fair D r \<longleftrightarrow>
     (\<forall>i \<in> D. \<forall>j \<in> D. \<forall>k. \<exists>k' m. k \<le> k' \<and> k' \<le> m \<and>
        osr_state (r (Suc m)) j = os_merge (osr_state (r m) j) (osr_state (r k') i))"

lemma osr_fair_abs:
  assumes "\<And>k. osr_ref_inv (r k)" "osr_fair D r"
  shows "es_fair D (osr_seq_abs \<circ> r)" "es_fair D (osr_dot_abs \<circ> r)"
proof -
  have ok: "os_ok (osr_state (r k) i)" for k i
    using osr_ref_inv_states(2) [OF assms(1)] by blast
  have "es_known (osr_seq_abs (r (Suc m))) j = es_known (osr_seq_abs (r m)) j \<union> es_known (osr_seq_abs (r k')) i"
    "es_known (osr_dot_abs (r (Suc m))) j = es_known (osr_dot_abs (r m)) j \<union> es_known (osr_dot_abs (r k')) i"
    if "osr_state (r (Suc m)) j = os_merge (osr_state (r m) j) (osr_state (r k') i)" for i j k' m
    using that ok by (simp_all add: osr_seq_abs_def osr_dot_abs_def os_events_merge)
  then show "es_fair D (osr_seq_abs \<circ> r)" "es_fair D (osr_dot_abs \<circ> r)"
    using assms(2) unfolding osr_fair_def es_fair_def comp_def by metis+
qed

lemma osr_issued_bound:
  assumes "osr_step r r'" "osr_issued r' = osr_issued r" "osr_ref_inv r"
  shows "osr_bound r' = osr_bound r"
  using assms(1)
proof (cases rule: osr_step.cases)
  case (osr_deliver s i)
  have "os_seq s i \<le> osr_bound r i" "os_ok s" "os_ok (osr_state r i)"
    using assms(3) osr_deliver(2) by (auto simp: osr_ref_inv_def osr_inv_def osr_sound_def)
  then show ?thesis by (auto simp: osr_deliver(1) osr_bound_def os_seq_merge fun_eq_iff)
qed (use assms(2) in \<open>auto simp: osr_bound_def fun_eq_iff\<close>)

text \<open>From \<open>osr_example\<close> node 1 publishes, node 2 merges, and the states stay.\<close>

definition osr_example_run :: "nat \<Rightarrow> nat os_replicas" where
  "osr_example_run k =
     (let c = osr_state osr_example (replicate 16 1); s1 = osr_example\<lparr>osr_sent := {c}\<rparr>;
          s2 = s1\<lparr>osr_state := (osr_state s1)(replicate 16 2 := c)\<rparr>
      in if k = 0 then osr_example else if k = 1 then s1 else s2)"

lemma osr_example_merge:
  "os_merge os_new (osr_state osr_example (replicate 16 1)) = osr_state osr_example (replicate 16 1)"
  "os_merge (osr_state osr_example (replicate 16 1)) (osr_state osr_example (replicate 16 1)) =
    osr_state osr_example (replicate 16 1)"
  by (simp_all add: osr_example_def os_merge_def os_new_def hm_upsert_def hm_insert_def entry_or_def bs_insert_def
      insort_insert_key_def)

lemma osr_example_run_step: "osr_keep_step (osr_example_run k) (osr_example_run (Suc k))"
proof -
  let ?A = "replicate 16 (1 :: u8)" and ?B = "replicate 16 (2 :: u8)"
  have B: "osr_state osr_example ?B = os_new" by (simp add: osr_example_def)
  consider "k = 0" | "k = 1" | "2 \<le> k" by linarith
  then have "osr_step (osr_example_run k) (osr_example_run (Suc k))"
  proof cases
    case 1
    have "osr_sent osr_example = {}" by (simp add: osr_example_def)
    then show ?thesis using 1 osr_publish [of osr_example ?A] by (simp add: osr_example_run_def Let_def)
  next
    case 2
    then show ?thesis
      using osr_deliver [of "osr_state osr_example ?A" "osr_example_run 1" ?B]
      by (simp add: osr_example_run_def Let_def B osr_example_merge(1))
  next
    case 3
    have "insert (osr_state (osr_example_run 2) ?A) (osr_sent (osr_example_run 2)) = osr_sent (osr_example_run 2)"
      by (simp add: osr_example_run_def Let_def)
    then have "osr_step (osr_example_run 2) (osr_example_run 2)"
      using osr_publish [of "osr_example_run 2" ?A] by simp
    then show ?thesis using 3 by (simp add: osr_example_run_def Let_def)
  qed
  moreover have "os_tags (osr_state (osr_example_run k) i) \<subseteq> os_tags (osr_state (osr_example_run (Suc k)) i)" for i
    using B by (simp add: osr_example_run_def Let_def)
  ultimately show ?thesis by (simp add: osr_keep_step_def)
qed

lemma osr_example_run_fair: "osr_fair {replicate 16 1, replicate 16 2} osr_example_run"
proof -
  have conv: "osr_state (osr_example_run (Suc m)) j =
      os_merge (osr_state (osr_example_run m) j) (osr_state (osr_example_run m) i)"
    if "i \<in> {replicate 16 1, replicate 16 2}" "j \<in> {replicate 16 1, replicate 16 2}" "2 \<le> m" for i j m
    using that osr_example_merge(2) by (auto simp: osr_example_run_def Let_def)
  have "\<exists>k' m. k \<le> k' \<and> k' \<le> m \<and> osr_state (osr_example_run (Suc m)) j =
      os_merge (osr_state (osr_example_run m) j) (osr_state (osr_example_run k') i)"
    if "i \<in> {replicate 16 1, replicate 16 2}" "j \<in> {replicate 16 1, replicate 16 2}" for i j k
    by (rule exI [of _ "max 2 k"], rule exI [of _ "max 2 k"]) (simp add: conv [OF that])
  then show ?thesis unfolding osr_fair_def by blast
qed

section \<open>Correctness\<close>

lemma osr_bound_stopped:
  assumes "\<forall>k. osr_step (r k) (r (Suc k))" "\<And>n. osr_ref_inv (r n)"
    and "\<forall>n \<ge> k. osr_issued (r n) = osr_issued (r k)" "k \<le> n"
  shows "osr_bound (r n) = osr_bound (r k)"
proof -
  have "osr_bound (r (k + l)) = osr_bound (r k)" for l
  proof (induction l)
    case (Suc l)
    have "osr_issued (r (Suc (k + l))) = osr_issued (r (k + l))"
      using assms(3) [rule_format, of "Suc (k + l)"] assms(3) [rule_format, of "k + l"] by simp
    then show ?case using osr_issued_bound [OF assms(1) [rule_format] _ assms(2)] Suc.IH by simp
  qed simp
  then show ?thesis using assms(4) le_Suc_ex by blast
qed

lemma os_eq_when_known:
  assumes "osr_ref_inv s" "es_known (osr_seq_abs s) i = es_known (osr_seq_abs s) j"
    and "es_known (osr_dot_abs s) i = es_known (osr_dot_abs s) j"
  shows "os_eq (osr_state s i) (osr_state s j)"
proof (rule os_full_eq)
  show "os_full (osr_state s i)" "os_full (osr_state s j)" using osr_ref_inv_states(1) [OF assms(1)] by auto
qed (use assms(2,3) in \<open>simp_all add: osr_seq_abs_def osr_dot_abs_def\<close>)

text \<open>
  C12. Replicas of a set agree in the end: take a run from any reachable state, after any additions
  and removals, in which nobody removes anything any more and the devices of a finite set keep
  merging each other's states. A value that one of them holds at some time is, from some time on
  and for good, held by all of them; and once additions stop too, their states end up equal,
  sequence numbers included, and hold exactly the values that one of them ever held in the run.
\<close>

theorem os_eventually_equal:
  assumes "osr_reachable (r 0)" "\<forall>k. osr_keep_step (r k) (r (Suc k))" "osr_fair D r" "finite D"
  shows "(i \<in> D \<and> os_contains v (osr_state (r k) i) \<longrightarrow>
      (\<exists>m. \<forall>n \<ge> m. \<forall>j \<in> D. os_contains v (osr_state (r n) j))) \<and>
    ((\<forall>n \<ge> k. osr_issued (r n) = osr_issued (r k)) \<longrightarrow>
      (\<exists>m. \<forall>n \<ge> m. \<forall>i \<in> D. \<forall>j \<in> D. os_eq (osr_state (r n) i) (osr_state (r n) j) \<and>
        (\<forall>v. os_contains v (osr_state (r n) i) \<longleftrightarrow> (\<exists>l. \<exists>h \<in> D. os_contains v (osr_state (r l) h)))))"
proof (intro conjI impI)
  have start: "osr_ref_inv (r 0)" by (rule osr_reachable_ref_inv [OF assms(1)])
  have inv: "osr_ref_inv (r n)" for n by (rule osd.run_inv [OF start assms(2)])
  have steps: "\<forall>k. osr_step (r k) (r (Suc k))" using assms(2) by (simp add: osr_keep_step_def)
  have fair: "es_fair D (osr_seq_abs \<circ> r)" "es_fair D (osr_dot_abs \<circ> r)"
    using osr_fair_abs [OF inv assms(3)] by simp_all
  have contains: "os_contains v (osr_state (r n) j) \<longleftrightarrow> (\<exists>d. (d, v) \<in> es_known (osr_dot_abs (r n)) j)" for v n j
    by (auto simp: os_contains_dots osr_dot_abs_def)
  {
    assume *: "i \<in> D \<and> os_contains v (osr_state (r k) i)"
    then obtain d where d: "(d, v) \<in> es_known (osr_dot_abs (r k)) i" using contains by blast
    have "\<forall>e \<in> {(d, v)}. \<exists>i \<in> D. \<exists>k. e \<in> es_known (osr_dot_abs (r k)) i" using * d by blast
    from osd.eventually_all [OF start assms(2) fair(2) assms(4) _ this]
    show "\<exists>m. \<forall>n \<ge> m. \<forall>j \<in> D. os_contains v (osr_state (r n) j)"
      unfolding contains by blast
  }
  assume stop: "\<forall>n \<ge> k. osr_issued (r n) = osr_issued (r k)"
  note bound = osr_bound_stopped [OF steps inv stop]
  have "\<forall>n \<ge> k. es_events (osr_seq_abs (r n)) = es_events (osr_seq_abs (r k))"
  proof (intro allI impI)
    fix n assume "k \<le> n"
    from bound [OF this] show "es_events (osr_seq_abs (r n)) = es_events (osr_seq_abs (r k))"
      by (simp add: osr_seq_abs_def)
  qed
  from oss.eventually_same [OF start steps fair(1) assms(4) this]
  obtain m1 where m1: "\<forall>n \<ge> m1. \<forall>j \<in> D. es_known (osr_seq_abs (r n)) j = es_heard D (osr_seq_abs \<circ> r)" ..
  have "\<forall>n \<ge> k. es_events (osr_dot_abs (r n)) = es_events (osr_dot_abs (r k))"
  proof (intro allI impI)
    fix n assume "k \<le> n"
    from stop [rule_format, OF this] show "es_events (osr_dot_abs (r n)) = es_events (osr_dot_abs (r k))" by (simp add: osr_dot_abs_def)
  qed
  from osd.eventually_same [OF start assms(2) fair(2) assms(4) this]
  obtain m2 where m2: "\<forall>n \<ge> m2. \<forall>j \<in> D. es_known (osr_dot_abs (r n)) j = es_heard D (osr_dot_abs \<circ> r)" ..
  show "\<exists>m. \<forall>n \<ge> m. \<forall>i \<in> D. \<forall>j \<in> D. os_eq (osr_state (r n) i) (osr_state (r n) j) \<and>
    (\<forall>v. os_contains v (osr_state (r n) i) \<longleftrightarrow> (\<exists>l. \<exists>h \<in> D. os_contains v (osr_state (r l) h)))"
  proof (intro exI allI impI ballI conjI)
    fix n i j v assume n: "max m1 m2 \<le> n" and ij: "i \<in> D" "j \<in> D"
    show "os_eq (osr_state (r n) i) (osr_state (r n) j)"
      using m1 m2 n ij by (intro os_eq_when_known [OF inv]) simp_all
    have "es_known (osr_dot_abs (r n)) i = es_heard D (osr_dot_abs \<circ> r)" using m2 n ij by simp
    then show "os_contains v (osr_state (r n) i) \<longleftrightarrow> (\<exists>l. \<exists>h \<in> D. os_contains v (osr_state (r l) h))"
      unfolding contains by (auto simp: es_heard_def)
  qed
qed

theorem os_eventually_equal_witness:
  "\<exists>m. os_contains 7 (osr_state (osr_example_run m) (replicate 16 2)) \<and>
     os_eq (osr_state (osr_example_run m) (replicate 16 1)) (osr_state (osr_example_run m) (replicate 16 2)) \<and>
     \<not> os_contains 7 (osr_state (osr_example_run 0) (replicate 16 2))"
proof -
  let ?A = "replicate 16 (1 :: u8)" and ?B = "replicate 16 (2 :: u8)"
  have "osr_reachable (osr_example_run 0)" using osr_example_reachable by (simp add: osr_example_run_def Let_def)
  note agree = os_eventually_equal [OF this allI [OF osr_example_run_step] osr_example_run_fair]
  have "osr_issued (osr_example_run n) = osr_issued (osr_example_run 0)" for n
    by (simp add: osr_example_run_def Let_def)
  then obtain m where m: "\<forall>n \<ge> m. \<forall>i \<in> {?A, ?B}. \<forall>j \<in> {?A, ?B}.
      os_eq (osr_state (osr_example_run n) i) (osr_state (osr_example_run n) j) \<and>
      (\<forall>v. os_contains v (osr_state (osr_example_run n) i) \<longleftrightarrow>
        (\<exists>l. \<exists>h \<in> {?A, ?B}. os_contains v (osr_state (osr_example_run l) h)))"
    using agree [of ?A 7 0] by (meson finite.emptyI finite.insertI)
  have "os_contains 7 (osr_state (osr_example_run 0) ?A)" "\<not> os_contains 7 (osr_state (osr_example_run 0) ?B)"
    by (simp_all add: osr_example_run_def osr_example_def os_contains_def os_new_def Let_def)
  then show ?thesis using m by (intro exI [of _ m]) blast
qed

end
