(* ===== verification/Delta.thy ===== *)
theory Delta
  imports Hlc
begin

text \<open>
  The sync protocol's units, \<^verbatim>\<open>crates/mercury-crdt/src/delta.rs\<close>: the change a
  device queues offline, the request and response of a sync, and the batch of an upstream push
  with its bounds. Emoji are Rust strings, their bytes a HOL string; ids inside a delta are
  plain arrays of sixteen bytes, as in the source.
\<close>

definition MAX_DELTAS_PER_BATCH :: nat where
  "MAX_DELTAS_PER_BATCH = 1000"

definition MAX_DELTAS_PER_RESPONSE :: nat where
  "MAX_DELTAS_PER_RESPONSE = 100"

datatype delta =
    Message_Append bytes16 bytes16 bytes u8 hlc
  | Message_Edit bytes16 bytes hlc
  | Message_Delete bytes16 hlc
  | Reaction_Add bytes16 bytes16 string hlc
  | Reaction_Remove bytes16 bytes16 string hlc
  | Member_Add bytes16 bytes16 hlc
  | Member_Remove bytes16 bytes16 hlc
  | Read_Position_Update bytes16 bytes16 bytes16

fun delta_hlc :: "delta \<Rightarrow> hlc option" where
  "delta_hlc (Message_Append mid sender content ctype h) = Some h"
| "delta_hlc (Message_Edit mid content h) = Some h"
| "delta_hlc (Message_Delete mid h) = Some h"
| "delta_hlc (Reaction_Add mid user emoji h) = Some h"
| "delta_hlc (Reaction_Remove mid user emoji h) = Some h"
| "delta_hlc (Member_Add cid user h) = Some h"
| "delta_hlc (Member_Remove cid user h) = Some h"
| "delta_hlc (Read_Position_Update cid user last_read) = None"

record sync_request =
  srq_channel_id :: bytes16
  srq_last_hlc :: hlc
  srq_device_id :: bytes16

record sync_response =
  srs_deltas :: "delta list"
  srs_server_hlc :: hlc
  srs_has_more :: bool

record delta_batch =
  db_channel_id :: bytes16
  db_deltas :: "delta list"
  db_device_hlc :: hlc

datatype batch_validation = BV_Ok | BV_Too_Large | BV_Empty

definition delta_batch_validate :: "delta_batch \<Rightarrow> batch_validation" where
  "delta_batch_validate self =
     (if db_deltas self = [] then BV_Empty
      else if length (db_deltas self) > MAX_DELTAS_PER_BATCH then BV_Too_Large
      else BV_Ok)"

lemmas [rust_defs] = MAX_DELTAS_PER_BATCH_def MAX_DELTAS_PER_RESPONSE_def delta_batch_validate_def

fun_cases delta_hlc_SomeE: "delta_hlc d = Some h"

lemma delta_hlc_None: "delta_hlc d = None \<longleftrightarrow> (\<exists>c u m. d = Read_Position_Update c u m)"
  by (cases d) auto

lemma delta_batch_validate_iff:
  "delta_batch_validate b = BV_Ok \<longleftrightarrow> length (db_deltas b) \<in> {1..MAX_DELTAS_PER_BATCH}"
  "delta_batch_validate b = BV_Empty \<longleftrightarrow> length (db_deltas b) = 0"
  "delta_batch_validate b = BV_Too_Large \<longleftrightarrow> MAX_DELTAS_PER_BATCH < length (db_deltas b)"
  by (auto simp: delta_batch_validate_def MAX_DELTAS_PER_BATCH_def Suc_le_eq)

end
