(* ===== verification/Core_Error.thy ===== *)
theory Core_Error
  imports Prelude
begin

text \<open>
  The errors of \<^verbatim>\<open>crates/mercury-core/src/error.rs\<close> and their \<^verbatim>\<open>Display\<close>
  text, which the derive macro of \<^verbatim>\<open>thiserror\<close> takes from the attributes.
\<close>

datatype core_error =
    Invalid_Message string
  | Invalid_Channel string
  | Invalid_Id string
  | Missing_Tenant_Context
  | Rate_Limit_Exceeded u32

fun core_error_display :: "core_error \<Rightarrow> string" where
  "core_error_display (Invalid_Message reason) = ''invalid message: '' @ reason"
| "core_error_display (Invalid_Channel reason) = ''invalid channel: '' @ reason"
| "core_error_display (Invalid_Id s) = ''invalid id format: '' @ s"
| "core_error_display Missing_Tenant_Context = ''tenant context required''"
| "core_error_display (Rate_Limit_Exceeded limit) =
     ''rate limit exceeded: '' @ show_nat (unat limit) @ ''/s''"

end
