(* ===== verification/Message.thy ===== *)
theory Message
  imports Core_Error Ids
begin

text \<open>
  Messages, \<^verbatim>\<open>crates/mercury-core/src/message.rs\<close>. The content is the ciphertext the
  server cannot read; \<^verbatim>\<open>validate\<close> checks the rules in the source's order and asserts a
  positive creation time last, so that an invalid message with no time is an error and a valid
  one a panic.
\<close>

datatype content_type = Text | Image | File | Reaction | Edit | Delete

record message =
  msg_tenant_id :: tenant_id
  msg_channel_id :: channel_id
  msg_id :: message_id
  msg_sender_id :: user_id
  msg_encrypted_content :: bytes
  msg_content_type :: content_type
  msg_reply_to :: "message_id option"
  msg_created_at :: u64
  msg_edited_at :: "u64 option"
  msg_server_received_at :: "u64 option"

definition MAX_CONTENT_SIZE :: nat where
  "MAX_CONTENT_SIZE = 256 * 1024"

definition message_validate :: "message \<Rightarrow> (core_error, unit) result exec" where
  "message_validate self =
     (if msg_encrypted_content self = [] \<and> msg_content_type self \<noteq> Delete then
        Ret (Err (Invalid_Message ''content is empty for non-delete message''))
      else if length (msg_encrypted_content self) > MAX_CONTENT_SIZE then
        Ret (Err (Invalid_Message
          (''content size '' @ show_nat (length (msg_encrypted_content self)) @
           '' exceeds max '' @ show_nat MAX_CONTENT_SIZE)))
      else if (case msg_reply_to self of None \<Rightarrow> False | Some r \<Rightarrow> r = msg_id self) then
        Ret (Err (Invalid_Message ''message cannot reply to itself''))
      else
        assert_then (0 < msg_created_at self) ''created_at must be positive'' (Ret (Ok ())))"

lemmas [rust_defs] = MAX_CONTENT_SIZE_def message_validate_def

text \<open>The rules of a message's content and thread, without the time.\<close>

definition message_rules :: "message \<Rightarrow> bool" where
  "message_rules m \<longleftrightarrow>
     (msg_content_type m = Delete \<or> msg_encrypted_content m \<noteq> []) \<and>
     length (msg_encrypted_content m) \<le> 262144 \<and>
     msg_reply_to m \<noteq> Some (msg_id m)"

lemma message_validate_cases:
  "message_validate m =
    (if message_rules m then
       (if msg_created_at m = 0 then Panic (Assertion_Failed ''created_at must be positive'')
        else Ret (Ok ()))
     else Ret (Err (Invalid_Message
       (if msg_encrypted_content m = [] \<and> msg_content_type m \<noteq> Delete
        then ''content is empty for non-delete message''
        else if length (msg_encrypted_content m) > 262144
        then ''content size '' @ show_nat (length (msg_encrypted_content m)) @
             '' exceeds max '' @ show_nat 262144
        else ''message cannot reply to itself''))))"
  by (auto simp: message_validate_def message_rules_def MAX_CONTENT_SIZE_def assert_then_def
      word_neq_0_conv split: option.splits)

section \<open>Correctness\<close>

text \<open>
  C33. What a message must satisfy, exactly: it is accepted when a message other than a deletion
  has content, the content has at most 256 KB, it does not reply to itself and its creation
  time is positive; a message that breaks a rule is an \<^verbatim>\<open>InvalidMessage\<close> whatever its
  time, and only a message that keeps them all and has no time panics.
\<close>

theorem message_validate_spec:
  "(message_validate m = Ret (Ok ()) \<longleftrightarrow>
     \<not> (msg_encrypted_content m = [] \<and> msg_content_type m \<noteq> Delete) \<and>
     length (msg_encrypted_content m) \<le> 262144 \<and> msg_reply_to m \<noteq> Some (msg_id m) \<and>
     0 < unat (msg_created_at m)) \<and>
   ((\<exists>reason. message_validate m = Ret (Err (Invalid_Message reason))) \<longleftrightarrow> \<not> message_rules m) \<and>
   ((\<exists>p. message_validate m = Panic p) \<longleftrightarrow> message_rules m \<and> msg_created_at m = 0)"
  by (auto simp: message_validate_cases message_rules_def unat_gt_0)

end
