(* ===== verification/Channel.thy ===== *)
theory Channel
  imports Core_Error Ids
begin

text \<open>
  Channels, \<^verbatim>\<open>crates/mercury-core/src/channel.rs\<close>: direct messages, groups and
  broadcasts with the rules on their names and members. A name's length is its number of bytes,
  the length of the HOL string of its bytes. As with messages the time is asserted last.
\<close>

datatype channel_type = Dm | Group | Broadcast

datatype member_role = Member | Admin | Owner

record channel =
  ch_tenant_id :: tenant_id
  ch_id :: channel_id
  ch_channel_type :: channel_type
  ch_name :: "string option"
  ch_member_ids :: "user_id list"
  ch_created_by :: user_id
  ch_created_at :: u64

definition MAX_NAME_LEN :: nat where
  "MAX_NAME_LEN = 128"

definition MAX_CHANNEL_MEMBERS :: nat where
  "MAX_CHANNEL_MEMBERS = 1000"

definition channel_validate :: "channel \<Rightarrow> (core_error, unit) result exec" where
  "channel_validate self =
     (let finish = assert_then (0 < ch_created_at self) ''created_at must be positive'' (Ret (Ok ()));
          invalid = (\<lambda>reason. Ret (Err (Invalid_Channel reason)));
          named =
            (case ch_name self of
               None \<Rightarrow> invalid ''group/broadcast channels require a name''
             | Some name \<Rightarrow>
                 if name = [] \<or> length name > MAX_NAME_LEN then
                   invalid (''name length must be 1..='' @ show_nat MAX_NAME_LEN)
                 else if length (ch_member_ids self) > MAX_CHANNEL_MEMBERS then
                   invalid (''member count '' @ show_nat (length (ch_member_ids self)) @
                     '' exceeds max '' @ show_nat MAX_CHANNEL_MEMBERS)
                 else finish)
      in case ch_channel_type self of
           Dm \<Rightarrow>
             if ch_name self \<noteq> None then invalid ''DM channels must not have a name''
             else if ch_member_ids self \<noteq> [] \<and> length (ch_member_ids self) \<noteq> 2 then
               invalid ''DM channels must have exactly 2 members''
             else finish
         | Group \<Rightarrow> named
         | Broadcast \<Rightarrow> named)"

lemmas [rust_defs] = MAX_NAME_LEN_def MAX_CHANNEL_MEMBERS_def channel_validate_def

text \<open>The rules of the three kinds of channel, without the time.\<close>

definition channel_rules :: "channel \<Rightarrow> bool" where
  "channel_rules c \<longleftrightarrow>
     (if ch_channel_type c = Dm then ch_name c = None \<and> length (ch_member_ids c) \<in> {0, 2}
      else (\<exists>name. ch_name c = Some name \<and> length name \<in> {1..128}) \<and>
        length (ch_member_ids c) \<le> 1000)"

lemma channel_validate_cases:
  "channel_validate c =
    (if \<not> channel_rules c then channel_validate c
     else if ch_created_at c = 0 then Panic (Assertion_Failed ''created_at must be positive'')
     else Ret (Ok ()))"
  "\<not> channel_rules c \<Longrightarrow> \<exists>reason. channel_validate c = Ret (Err (Invalid_Channel reason))"
proof -
  note defs = channel_validate_def channel_rules_def MAX_NAME_LEN_def MAX_CHANNEL_MEMBERS_def
    assert_then_def word_neq_0_conv Let_def Suc_le_eq
  show "channel_validate c =
    (if \<not> channel_rules c then channel_validate c
     else if ch_created_at c = 0 then Panic (Assertion_Failed ''created_at must be positive'')
     else Ret (Ok ()))"
    by (cases "ch_channel_type c"; cases "ch_name c"; cases "ch_member_ids c = []") (simp_all add: defs)
  show "\<exists>reason. channel_validate c = Ret (Err (Invalid_Channel reason))" if "\<not> channel_rules c"
    using that
    by (cases "ch_channel_type c"; cases "ch_name c"; cases "ch_member_ids c = []") (auto simp: defs)
qed

section \<open>Correctness\<close>

text \<open>
  C34. What a channel must satisfy, exactly: a direct message has no name and two members, or no
  member at all; a group or broadcast has a name of 1 to 128 bytes and at most 1000 members;
  and the creation time is positive. A channel that breaks a rule is an
  \<^verbatim>\<open>InvalidChannel\<close> whatever its time, and only one that keeps them and has no time
  panics.
\<close>

theorem channel_validate_spec:
  "(channel_validate c = Ret (Ok ()) \<longleftrightarrow> 0 < unat (ch_created_at c) \<and>
     (case ch_channel_type c of
        Dm \<Rightarrow> ch_name c = None \<and> length (ch_member_ids c) \<in> {0, 2}
      | _ \<Rightarrow> (\<exists>name. ch_name c = Some name \<and> length name \<in> {1..128}) \<and>
          length (ch_member_ids c) \<le> 1000)) \<and>
   ((\<exists>reason. channel_validate c = Ret (Err (Invalid_Channel reason))) \<longleftrightarrow> \<not> channel_rules c) \<and>
   ((\<exists>p. channel_validate c = Panic p) \<longleftrightarrow> channel_rules c \<and> ch_created_at c = 0)"
proof -
  have rules: "channel_rules c \<longleftrightarrow> (case ch_channel_type c of
        Dm \<Rightarrow> ch_name c = None \<and> length (ch_member_ids c) \<in> {0, 2}
      | _ \<Rightarrow> (\<exists>name. ch_name c = Some name \<and> length name \<in> {1..128}) \<and>
          length (ch_member_ids c) \<le> 1000)"
    by (simp add: channel_rules_def split: channel_type.splits)
  show ?thesis
    unfolding rules [symmetric] using channel_validate_cases [of c]
    by (cases "channel_rules c"; cases "ch_created_at c = 0") (auto simp: unat_gt_0)
qed

end
