(* ===== verification/Tenant.thy ===== *)
theory Tenant
  imports Ids
begin

text \<open>
  The tenant's configuration and its defaults, \<^verbatim>\<open>crates/mercury-core/src/tenant.rs\<close>.
  The Rust code only carries the limits; the services that enforce them are not in it.
\<close>

datatype signup_mode = Open | Invite_Only | Waitlist

record tenant_context =
  tc_tenant_id :: tenant_id
  tc_max_users :: u32
  tc_max_channels :: u32
  tc_max_file_size_mb :: u32
  tc_rate_limit_per_user :: u32
  tc_signup_mode :: signup_mode

definition tenant_context_new :: "tenant_id \<Rightarrow> tenant_context" where
  "tenant_context_new tid =
     \<lparr>tc_tenant_id = tid, tc_max_users = 1000, tc_max_channels = 100, tc_max_file_size_mb = 25,
      tc_rate_limit_per_user = 100, tc_signup_mode = Open\<rparr>"

lemmas [rust_defs] = tenant_context_new_def

end
