(* ===== verification/Time_Bucket.thy ===== *)
theory Time_Bucket
  imports Ids
begin

text \<open>
  The ten-day partitions of the message store,
  \<^verbatim>\<open>crates/mercury-core/src/time_bucket.rs\<close>: two divisions in 64 bits, a conversion to
  32 bits that panics when it does not fit, and the reinterpretation as a signed integer for
  the database. The timestamp of a message id comes from the \<^verbatim>\<open>ulid\<close> crate and is a
  parameter; that it has 48 bits is the ULID format.
\<close>

datatype time_bucket = Time_Bucket u32

definition MS_PER_DAY :: u64 where
  "MS_PER_DAY = 86400000"

definition DAYS_PER_BUCKET :: u64 where
  "DAYS_PER_BUCKET = 10"

definition tb_from_timestamp_ms :: "u64 \<Rightarrow> time_bucket exec" where
  "tb_from_timestamp_ms ts_ms =
     (let epoch_days = ts_ms div MS_PER_DAY;
          bucket = epoch_days div DAYS_PER_BUCKET
      in exec_bind (expect ''timestamp too far in future'' (u32_try_from (unat bucket)))
           (\<lambda>b. Ret (Time_Bucket b)))"

definition tb_from_message_id :: "(bytes16 \<Rightarrow> u64) \<Rightarrow> message_id \<Rightarrow> time_bucket exec" where
  "tb_from_message_id ulid_timestamp mid =
     tb_from_timestamp_ms (message_id_timestamp_ms ulid_timestamp mid)"

fun tb_as_i32 :: "time_bucket \<Rightarrow> i32" where
  "tb_as_i32 (Time_Bucket b) = b"

fun tb_as_u32 :: "time_bucket \<Rightarrow> u32" where
  "tb_as_u32 (Time_Bucket b) = b"

lemmas [rust_defs] =
  MS_PER_DAY_def DAYS_PER_BUCKET_def tb_from_timestamp_ms_def tb_from_message_id_def

lemma tb_bucket_unat: "unat (ts div MS_PER_DAY div DAYS_PER_BUCKET) = unat ts div 864000000"
  by (simp add: unat_div_distrib MS_PER_DAY_def DAYS_PER_BUCKET_def flip: div_mult2_eq)

lemma tb_from_timestamp_ms_eq:
  "tb_from_timestamp_ms ts =
     (if unat ts div 864000000 < 2 ^ 32 then Ret (Time_Bucket (of_nat (unat ts div 864000000)))
      else Panic (Expect_Failed ''timestamp too far in future''))"
  by (simp add: tb_from_timestamp_ms_def tb_bucket_unat u32_try_from_def)

lemma unat_of_nat_u32: "n < 2 ^ 32 \<Longrightarrow> unat (of_nat n :: u32) = n"
  by (simp add: unat_of_nat)

lemma tb_from_timestamp_ms_Ret:
  "tb_from_timestamp_ms ts = Ret b \<longleftrightarrow>
     unat ts div 864000000 < 2 ^ 32 \<and> unat (tb_as_u32 b) = unat ts div 864000000"
  by (cases b) (auto simp: tb_from_timestamp_ms_eq word_unat_eq_iff unat_of_nat)

text \<open>Reading a bucket as a signed integer keeps it while its top bit is clear.\<close>

lemma sint_tb_as_i32: "unat (tb_as_u32 b) < 2 ^ 31 \<Longrightarrow> sint (tb_as_i32 b) = int (unat (tb_as_u32 b))"
proof (cases b)
  case (Time_Bucket w)
  assume "unat (tb_as_u32 b) < 2 ^ 31"
  then have "uint w < 2 ^ 31" using Time_Bucket by (simp add: uint_nat del: of_nat_unat)
  then have "signed_take_bit 31 (uint w) = uint w" 
    using uint_ge_0 [of w] by (intro signed_take_bit_int_eq_self) linarith+
  then show ?thesis using Time_Bucket by (simp add: sint_uint)
qed

text \<open>A timestamp of 48 bits always has a bucket whose top bit is clear.\<close>

lemma tb_from_message_id_48:
  assumes "unat (message_id_timestamp_ms ulid_timestamp i) < 2 ^ 48"
  shows "\<exists>b. tb_from_message_id ulid_timestamp i = Ret b \<and>
    sint (tb_as_i32 b) = int (unat (message_id_timestamp_ms ulid_timestamp i) div 864000000)"
proof -
  have "unat (message_id_timestamp_ms ulid_timestamp i) div 864000000 < 2 ^ 31" using assms by simp
  then show ?thesis
    by (simp add: tb_from_message_id_def tb_from_timestamp_ms_eq unat_of_nat_u32
        sint_tb_as_i32 del: tb_as_i32.simps)
qed

section \<open>Correctness\<close>

text \<open>
  A bucket covers exactly ten days: when the conversion returns, the timestamp lies in the
  bucket's window of 864000000 milliseconds; later timestamps never fall in an earlier bucket,
  and two timestamps share a bucket exactly when they share a window. It panics exactly from the
  first timestamp whose bucket needs more than 32 bits.
\<close>

theorem tb_partitions:
  assumes "tb_from_timestamp_ms ts = Ret b" "tb_from_timestamp_ms ts' = Ret b'"
  shows "unat (tb_as_u32 b) * 864000000 \<le> unat ts \<and>
    unat ts < (unat (tb_as_u32 b) + 1) * 864000000 \<and>
    (ts \<le> ts' \<longrightarrow> tb_as_u32 b \<le> tb_as_u32 b') \<and>
    (b = b' \<longleftrightarrow> unat ts div 864000000 = unat ts' div 864000000) \<and>
    (is_ret (tb_from_timestamp_ms x) \<longleftrightarrow> unat x < 2 ^ 32 * 864000000)"
proof -
  have b: "unat (tb_as_u32 b) = unat ts div 864000000" "unat (tb_as_u32 b') = unat ts' div 864000000"
    using assms by (simp_all add: tb_from_timestamp_ms_Ret)
  have inj: "b = b' \<longleftrightarrow> unat (tb_as_u32 b) = unat (tb_as_u32 b')"
    by (cases b; cases b') (simp add: word_unat_eq_iff)
  have "unat ts div 864000000 * 864000000 \<le> unat ts"
    "unat ts < (unat ts div 864000000 + 1) * 864000000"
    by (simp_all add: dividend_less_div_times)
  moreover have "is_ret (tb_from_timestamp_ms x) \<longleftrightarrow> unat x < 2 ^ 32 * 864000000"
    by (simp add: tb_from_timestamp_ms_eq div_less_iff_less_mult)
  ultimately show ?thesis
    unfolding inj b word_le_nat_alt by (auto simp: div_le_mono)
qed

theorem tb_partitions_witness:
  "tb_from_timestamp_ms 1704067200000 = Ret (Time_Bucket 1972) \<and>
   (1972::nat) * 864000000 \<le> 1704067200000"
proof -
  have ts: "tb_from_timestamp_ms 1704067200000 = Ret (Time_Bucket 1972)"
    by (simp add: tb_from_timestamp_ms_eq)
  from tb_partitions [OF ts ts] ts show ?thesis by simp
qed

text \<open>
  C40. Message ids sort by creation, and buckets follow them: with the timestamp of a ULID the value
  of its first six bytes, the id created in an earlier millisecond is the smaller one in the
  derived order, ids of one millisecond are ordered by their random part, and ids in order
  have timestamps and stored buckets in order, never negative as signed values, so a scan of the partitions in ascending order
  meets the messages in the order of their ids.
\<close>

theorem message_ids_sort_by_time:
  assumes "\<And>b. length b = 16 \<Longrightarrow> unat (ulid_timestamp b) = be_nat (take 6 b)"
    and "length (message_id_as_bytes a) = 16" "length (message_id_as_bytes b) = 16"
  shows "(message_id_timestamp_ms ulid_timestamp a < message_id_timestamp_ms ulid_timestamp b \<longrightarrow> message_id_lt a b) \<and>
    (message_id_timestamp_ms ulid_timestamp a = message_id_timestamp_ms ulid_timestamp b \<longrightarrow>
      (message_id_lt a b \<longleftrightarrow> drop 6 (message_id_as_bytes a) < drop 6 (message_id_as_bytes b))) \<and>
    (message_id_le a b \<longrightarrow>
      message_id_timestamp_ms ulid_timestamp a \<le> message_id_timestamp_ms ulid_timestamp b \<and>
      (\<exists>k l. tb_from_message_id ulid_timestamp a = Ret k \<and> tb_from_message_id ulid_timestamp b = Ret l \<and>
        0 \<le> sint (tb_as_i32 k) \<and> sint (tb_as_i32 k) \<le> sint (tb_as_i32 l)))"
proof -
  note order = message_id_order [of ulid_timestamp a b, OF assms,
    unfolded less_message_id_def less_eq_message_id_def]
  have bucket: "\<exists>k. tb_from_message_id ulid_timestamp i = Ret k \<and>
      sint (tb_as_i32 k) = int (unat (message_id_timestamp_ms ulid_timestamp i) div 864000000)"
    if "length (message_id_as_bytes i) = 16" for i
  proof (rule tb_from_message_id_48)
    show "unat (message_id_timestamp_ms ulid_timestamp i) < 2 ^ 48"
      using that assms(1) be_nat_bound [of "take 6 (message_id_as_bytes i)"] by (cases i) simp
  qed
  obtain k l where "tb_from_message_id ulid_timestamp a = Ret k"
    "sint (tb_as_i32 k) = int (unat (message_id_timestamp_ms ulid_timestamp a) div 864000000)"
    "tb_from_message_id ulid_timestamp b = Ret l"
    "sint (tb_as_i32 l) = int (unat (message_id_timestamp_ms ulid_timestamp b) div 864000000)"
    using bucket assms(2,3) by meson
  then show ?thesis using order by (auto simp: word_le_nat_alt div_le_mono)
qed

theorem message_ids_sort_by_time_witness:
  "message_id_lt (Message_Id ([0, 0, 0, 0, 1, 255] @ replicate 10 9)) (Message_Id ([0, 0, 0, 0, 2, 0] @ replicate 10 1))"
proof -
  let ?a = "Message_Id ([0, 0, 0, 0, 1, 255] @ replicate 10 9)"
  let ?b = "Message_Id ([0, 0, 0, 0, 2, 0] @ replicate 10 1)"
  have "message_id_timestamp_ms ulid_prefix ?a < message_id_timestamp_ms ulid_prefix ?b"
    by (simp add: word_less_nat_alt unat_ulid_prefix(1) be_nat_def)
  with message_ids_sort_by_time [of ulid_prefix ?a ?b] show ?thesis
    by (simp add: unat_ulid_prefix(1))
qed

end
