(* ===== verification/Proto.thy ===== *)
theory Proto
  imports Core_Error
begin

text \<open>
  The wire format helpers of \<^verbatim>\<open>crates/mercury-core/src/proto.rs\<close>. The Cap'n Proto
  runtime and the accessors generated from \<^verbatim>\<open>schema/mercury/v1\<close> are the parameter
  \<open>capnp\<close>, one field per call the sources make; every encoder and decoder is written over
  it. What the sources rely on is the hypothesis \<open>capnp_laws\<close>: setters set their field,
  a message within the reader's limits is written, and what is written reads back with the same
  fields. The last section gives a serialiser that satisfies it.
\<close>

section \<open>The runtime as a parameter\<close>

datatype capnp_root =
    R_Envelope
  | R_Typing_Event
  | R_Read_Receipt
  | R_Mls_Key_Package
  | R_Mls_Key_Package_List
  | R_Mls_Commit
  | R_Mls_Welcome

datatype capnp_field =
    F_Tenant_Id
  | F_Channel_Id
  | F_Sender_Id
  | F_Message_Id
  | F_Payload
  | F_User_Id
  | F_Key_Package
  | F_Commit
  | F_Welcome

text \<open>The data fields of each struct in the schema.\<close>

fun schema_fields :: "capnp_root \<Rightarrow> capnp_field set" where
  "schema_fields R_Envelope = {F_Tenant_Id, F_Channel_Id, F_Sender_Id, F_Message_Id, F_Payload}"
| "schema_fields R_Typing_Event = {F_User_Id}"
| "schema_fields R_Read_Receipt = {F_User_Id, F_Message_Id}"
| "schema_fields R_Mls_Key_Package = {F_Key_Package}"
| "schema_fields R_Mls_Key_Package_List = {}"
| "schema_fields R_Mls_Commit = {F_Commit}"
| "schema_fields R_Mls_Welcome = {F_Welcome, F_User_Id}"

record ('b, 'm, 'r, 'l, 'e) capnp =
  cp_init_root :: "capnp_root \<Rightarrow> 'b"
  cp_set_data :: "capnp_field \<Rightarrow> bytes \<Rightarrow> 'b \<Rightarrow> 'b"
  cp_set_timestamp :: "u64 \<Rightarrow> 'b \<Rightarrow> 'b"
  cp_init_key_packages :: "u32 \<Rightarrow> 'b \<Rightarrow> 'b"
  cp_list_set :: "u32 \<Rightarrow> bytes \<Rightarrow> 'b \<Rightarrow> 'b"
  cp_write_message :: "'b \<Rightarrow> bytes option"
  cp_read_message :: "bytes \<Rightarrow> ('e, 'm) result"
  cp_get_root :: "capnp_root \<Rightarrow> 'm \<Rightarrow> ('e, 'r) result"
  cp_get_data :: "capnp_field \<Rightarrow> 'r \<Rightarrow> ('e, bytes) result"
  cp_get_timestamp :: "'r \<Rightarrow> u64"
  cp_get_key_packages :: "'r \<Rightarrow> ('e, 'l) result"
  cp_list_len :: "'l \<Rightarrow> u32"
  cp_list_get :: "u32 \<Rightarrow> 'l \<Rightarrow> ('e, bytes) result"

text \<open>\<^verbatim>\<open>serialize::write_message(&mut out, &b).expect("capnp serialize")\<close>\<close>

definition cp_finish :: "('b, 'm, 'r, 'l, 'e) capnp \<Rightarrow> 'b \<Rightarrow> bytes exec" where
  "cp_finish api b = expect ''capnp serialize'' (cp_write_message api b)"

text \<open>\<^verbatim>\<open>read_message(bytes, ..)?.get_root()?\<close>\<close>

definition cp_open ::
  "('b, 'm, 'r, 'l, 'e) capnp \<Rightarrow> capnp_root \<Rightarrow> bytes \<Rightarrow> ('e, 'r) result" where
  "cp_open api root bytes = result_bind (cp_read_message api bytes) (cp_get_root api root)"

section \<open>Encoders and decoders\<close>

record decoded_envelope =
  de_tenant_id :: bytes
  de_channel_id :: bytes
  de_sender_id :: bytes
  de_message_id :: bytes
  de_timestamp :: u64
  de_payload :: bytes

definition envelope_encode ::
  "('b, 'm, 'r, 'l, 'e) capnp \<Rightarrow> bytes \<Rightarrow> bytes \<Rightarrow> bytes \<Rightarrow> bytes \<Rightarrow> u64 \<Rightarrow> bytes \<Rightarrow> bytes exec" where
  "envelope_encode api tenant_id channel_id sender_id message_id timestamp payload =
     (let env = cp_init_root api R_Envelope;
          env = cp_set_data api F_Tenant_Id tenant_id env;
          env = cp_set_data api F_Channel_Id channel_id env;
          env = cp_set_data api F_Sender_Id sender_id env;
          env = cp_set_data api F_Message_Id message_id env;
          env = cp_set_timestamp api timestamp env;
          env = cp_set_data api F_Payload payload env
      in cp_finish api env)"

definition envelope_decode ::
  "('b, 'm, 'r, 'l, 'e) capnp \<Rightarrow> bytes \<Rightarrow> ('e, decoded_envelope) result" where
  "envelope_decode api bytes =
     result_bind (cp_open api R_Envelope bytes) (\<lambda>env.
     result_bind (cp_get_data api F_Tenant_Id env) (\<lambda>tenant_id.
     result_bind (cp_get_data api F_Channel_Id env) (\<lambda>channel_id.
     result_bind (cp_get_data api F_Sender_Id env) (\<lambda>sender_id.
     result_bind (cp_get_data api F_Message_Id env) (\<lambda>message_id.
     result_bind (cp_get_data api F_Payload env) (\<lambda>payload.
       Ok \<lparr>de_tenant_id = tenant_id, de_channel_id = channel_id, de_sender_id = sender_id,
           de_message_id = message_id, de_timestamp = cp_get_timestamp api env,
           de_payload = payload\<rparr>))))))"

definition typing_encode :: "('b, 'm, 'r, 'l, 'e) capnp \<Rightarrow> bytes \<Rightarrow> bytes exec" where
  "typing_encode api user_id =
     cp_finish api (cp_set_data api F_User_Id user_id (cp_init_root api R_Typing_Event))"

definition typing_decode :: "('b, 'm, 'r, 'l, 'e) capnp \<Rightarrow> bytes \<Rightarrow> ('e, bytes) result" where
  "typing_decode api bytes =
     result_bind (cp_open api R_Typing_Event bytes) (cp_get_data api F_User_Id)"

definition read_receipt_encode ::
  "('b, 'm, 'r, 'l, 'e) capnp \<Rightarrow> bytes \<Rightarrow> bytes \<Rightarrow> bytes exec" where
  "read_receipt_encode api user_id message_id =
     (let rr = cp_init_root api R_Read_Receipt;
          rr = cp_set_data api F_User_Id user_id rr;
          rr = cp_set_data api F_Message_Id message_id rr
      in cp_finish api rr)"

record decoded_read_receipt =
  dr_user_id :: bytes
  dr_message_id :: bytes

definition read_receipt_decode ::
  "('b, 'm, 'r, 'l, 'e) capnp \<Rightarrow> bytes \<Rightarrow> ('e, decoded_read_receipt) result" where
  "read_receipt_decode api bytes =
     result_bind (cp_open api R_Read_Receipt bytes) (\<lambda>rr.
     result_bind (cp_get_data api F_User_Id rr) (\<lambda>user_id.
     result_bind (cp_get_data api F_Message_Id rr) (\<lambda>message_id.
       Ok \<lparr>dr_user_id = user_id, dr_message_id = message_id\<rparr>)))"

definition mls_key_package_encode :: "('b, 'm, 'r, 'l, 'e) capnp \<Rightarrow> bytes \<Rightarrow> bytes exec" where
  "mls_key_package_encode api key_package =
     cp_finish api (cp_set_data api F_Key_Package key_package (cp_init_root api R_Mls_Key_Package))"

definition mls_key_package_decode ::
  "('b, 'm, 'r, 'l, 'e) capnp \<Rightarrow> bytes \<Rightarrow> ('e, bytes) result" where
  "mls_key_package_decode api bytes =
     result_bind (cp_open api R_Mls_Key_Package bytes) (cp_get_data api F_Key_Package)"

text \<open>\<^verbatim>\<open>list.set(u32::try_from(i).expect("index fits u32"), pkg)\<close>\<close>

definition cp_set_element ::
  "('b, 'm, 'r, 'l, 'e) capnp \<Rightarrow> nat \<times> bytes \<Rightarrow> 'b \<Rightarrow> 'b exec" where
  "cp_set_element api e b =
     exec_bind (expect ''index fits u32'' (u32_try_from (fst e))) (\<lambda>i.
       Ret (cp_list_set api i (snd e) b))"

definition mls_key_package_list_encode ::
  "('b, 'm, 'r, 'l, 'e) capnp \<Rightarrow> bytes list \<Rightarrow> bytes exec" where
  "mls_key_package_list_encode api packages =
     assert_then (length packages \<le> 10000) ''too many key packages''
       (exec_bind (expect ''list len fits u32'' (u32_try_from (length packages))) (\<lambda>len.
        exec_bind
          (exec_fold (cp_set_element api) (enumerate 0 packages)
             (cp_init_key_packages api len (cp_init_root api R_Mls_Key_Package_List)))
          (cp_finish api)))"

definition mls_key_package_list_decode ::
  "('b, 'm, 'r, 'l, 'e) capnp \<Rightarrow> bytes \<Rightarrow> ('e, bytes list) result" where
  "mls_key_package_list_decode api bytes =
     result_bind (result_bind (cp_open api R_Mls_Key_Package_List bytes) (cp_get_key_packages api))
       (\<lambda>list. collect_results
         (map (\<lambda>i. cp_list_get api (of_nat i) list) [0..<unat (cp_list_len api list)]))"

definition mls_commit_encode :: "('b, 'm, 'r, 'l, 'e) capnp \<Rightarrow> bytes \<Rightarrow> bytes exec" where
  "mls_commit_encode api commit =
     cp_finish api (cp_set_data api F_Commit commit (cp_init_root api R_Mls_Commit))"

definition mls_commit_decode :: "('b, 'm, 'r, 'l, 'e) capnp \<Rightarrow> bytes \<Rightarrow> ('e, bytes) result" where
  "mls_commit_decode api bytes =
     result_bind (cp_open api R_Mls_Commit bytes) (cp_get_data api F_Commit)"

record decoded_mls_welcome =
  dw_welcome :: bytes
  dw_user_id :: bytes

definition mls_welcome_encode ::
  "('b, 'm, 'r, 'l, 'e) capnp \<Rightarrow> bytes \<Rightarrow> bytes \<Rightarrow> bytes exec" where
  "mls_welcome_encode api welcome user_id =
     (let w = cp_init_root api R_Mls_Welcome;
          w = cp_set_data api F_Welcome welcome w;
          w = cp_set_data api F_User_Id user_id w
      in cp_finish api w)"

definition mls_welcome_decode ::
  "('b, 'm, 'r, 'l, 'e) capnp \<Rightarrow> bytes \<Rightarrow> ('e, decoded_mls_welcome) result" where
  "mls_welcome_decode api bytes =
     result_bind (cp_open api R_Mls_Welcome bytes) (\<lambda>w.
     result_bind (cp_get_data api F_Welcome w) (\<lambda>welcome.
     result_bind (cp_get_data api F_User_Id w) (\<lambda>user_id.
       Ok \<lparr>dw_welcome = welcome, dw_user_id = user_id\<rparr>)))"

section \<open>What the sources rely on\<close>

text \<open>
  The content a message carries, and the laws relating an implementation of the runtime to it:
  \<open>content\<close> reads it from a message under construction, and \<open>limit\<close> is the size in
  bytes (a pointer of eight bytes per list element included) up to which a message is written
  and read back; the runtime's reader traverses 64 MiB by default.
\<close>

record capnp_content =
  cc_root :: capnp_root
  cc_data :: "capnp_field \<Rightarrow> bytes"
  cc_timestamp :: u64
  cc_list :: "bytes list"

definition empty_content :: "capnp_root \<Rightarrow> capnp_content" where
  "empty_content t = \<lparr>cc_root = t, cc_data = (\<lambda>_. []), cc_timestamp = 0, cc_list = []\<rparr>"

definition all_fields :: "capnp_field list" where
  "all_fields =
     [F_Tenant_Id, F_Channel_Id, F_Sender_Id, F_Message_Id, F_Payload, F_User_Id, F_Key_Package,
      F_Commit, F_Welcome]"

definition content_size :: "capnp_content \<Rightarrow> nat" where
  "content_size c =
     sum_list (map (\<lambda>f. length (cc_data c f)) all_fields) +
     sum_list (map (\<lambda>p. 8 + length p) (cc_list c))"

definition reads_as :: "('b, 'm, 'r, 'l, 'e) capnp \<Rightarrow> bytes \<Rightarrow> capnp_content \<Rightarrow> bool" where
  "reads_as api out c \<longleftrightarrow>
     (\<exists>r. cp_open api (cc_root c) out = Ok r \<and>
        (\<forall>f \<in> schema_fields (cc_root c). cp_get_data api f r = Ok (cc_data c f)) \<and>
        (cc_root c = R_Envelope \<longrightarrow> cp_get_timestamp api r = cc_timestamp c) \<and>
        (cc_root c = R_Mls_Key_Package_List \<longrightarrow>
          (\<exists>l. cp_get_key_packages api r = Ok l \<and> unat (cp_list_len api l) = length (cc_list c) \<and>
             (\<forall>i < length (cc_list c). cp_list_get api (of_nat i) l = Ok (cc_list c ! i)))))"

definition capnp_laws ::
  "('b, 'm, 'r, 'l, 'e) capnp \<Rightarrow> ('b \<Rightarrow> capnp_content) \<Rightarrow> nat \<Rightarrow> bool" where
  "capnp_laws api content limit \<longleftrightarrow>
     (\<forall>t. content (cp_init_root api t) = empty_content t) \<and>
     (\<forall>f v b. content (cp_set_data api f v b) =
        content b\<lparr>cc_data := (cc_data (content b))(f := v)\<rparr>) \<and>
     (\<forall>ts b. content (cp_set_timestamp api ts b) = content b\<lparr>cc_timestamp := ts\<rparr>) \<and>
     (\<forall>n b. content (cp_init_key_packages api n b) = content b\<lparr>cc_list := replicate (unat n) []\<rparr>) \<and>
     (\<forall>i v b. unat i < length (cc_list (content b)) \<longrightarrow>
        content (cp_list_set api i v b) = content b\<lparr>cc_list := (cc_list (content b))[unat i := v]\<rparr>) \<and>
     (\<forall>b. content_size (content b) \<le> limit \<longrightarrow>
        (\<exists>out. cp_write_message api b = Some out \<and> reads_as api out (content b)))"

lemma capnp_write:
  assumes "capnp_laws api content limit" "content b = c" "content_size c \<le> limit"
  obtains out where "cp_finish api b = Ret out" "reads_as api out c"
proof -
  have "\<exists>out. cp_write_message api b = Some out \<and> reads_as api out c"
    using assms unfolding capnp_laws_def by metis
  then show ?thesis using that by (auto simp: cp_finish_def)
qed

lemma capnp_set:
  assumes "capnp_laws api content limit"
  shows "content (cp_init_root api t) = empty_content t"
    and "content (cp_set_data api f v b) = content b\<lparr>cc_data := (cc_data (content b))(f := v)\<rparr>"
    and "content (cp_set_timestamp api ts b) = content b\<lparr>cc_timestamp := ts\<rparr>"
    and "content (cp_init_key_packages api n b) = content b\<lparr>cc_list := replicate (unat n) []\<rparr>"
    and "unat i < length (cc_list (content b)) \<Longrightarrow>
      content (cp_list_set api i v b) = content b\<lparr>cc_list := (cc_list (content b))[unat i := v]\<rparr>"
  using assms by (simp_all add: capnp_laws_def)

text \<open>The loop that fills the list: after \<open>k\<close> elements the first \<open>k\<close> are in place.\<close>

lemma capnp_list_loop:
  assumes "capnp_laws api content limit"
    and "cc_list (content b) = done_part @ replicate (length ps) []"
    and "length done_part + length ps < 2 ^ 32"
  shows "\<exists>b'. exec_fold (cp_set_element api) (enumerate (length done_part) ps) b = Ret b' \<and>
    content b' = content b\<lparr>cc_list := done_part @ ps\<rparr>"
  using assms(2,3)
proof (induction ps arbitrary: b done_part)
  case (Cons p ps)
  obtain i where i: "u32_try_from (length done_part) = Some i" "unat i = length done_part"
    using Cons.prems(2) by (simp add: u32_try_from_def unat_of_nat)
  let ?b = "cp_list_set api i p b"
  have step: "cp_set_element api (length done_part, p) b = Ret ?b"
    by (simp add: cp_set_element_def i)
  have cont: "content ?b = content b\<lparr>cc_list := (done_part @ [p]) @ replicate (length ps) []\<rparr>"
    using Cons.prems(1) by (simp add: capnp_set(5) [OF assms(1)] i(2) list_update_append)
  then have "\<exists>b'. exec_fold (cp_set_element api) (enumerate (length (done_part @ [p])) ps) ?b = Ret b' \<and>
      content b' = content ?b\<lparr>cc_list := (done_part @ [p]) @ ps\<rparr>"
    using Cons.prems(2) by (intro Cons.IH) simp_all
  then show ?case using step cont by simp
qed simp

lemma capnp_list_build:
  assumes "capnp_laws api content limit" "length ps < 2 ^ 32"
  shows "\<exists>n b'. u32_try_from (length ps) = Some n \<and>
    exec_fold (cp_set_element api) (enumerate 0 ps)
      (cp_init_key_packages api n (cp_init_root api R_Mls_Key_Package_List)) = Ret b' \<and>
    content b' = (empty_content R_Mls_Key_Package_List)\<lparr>cc_list := ps\<rparr>"
proof -
  obtain n where n: "u32_try_from (length ps) = Some n" "unat n = length ps"
    using try_from_fits(1) [OF assms(2)] try_from_SomeD(1) by blast
  let ?b = "cp_init_key_packages api n (cp_init_root api R_Mls_Key_Package_List)"
  have b: "content ?b = (empty_content R_Mls_Key_Package_List)\<lparr>cc_list := replicate (length ps) []\<rparr>"
    by (simp add: capnp_set(1,4) [OF assms(1)] n(2))
  have "\<exists>b'. exec_fold (cp_set_element api) (enumerate (length ([] :: bytes list)) ps) ?b = Ret b' \<and>
      content b' = content ?b\<lparr>cc_list := [] @ ps\<rparr>"
    using assms(2) by (intro capnp_list_loop [OF assms(1)]) (simp_all add: b)
  then show ?thesis using n(1) by (auto simp: b)
qed

section \<open>A serialiser that satisfies the laws\<close>

text \<open>
  For the witnesses: a message is its content, written as chunks of bytes each preceded by its
  length in unary; the chunks are the root, the timestamp, the data fields and the list.
\<close>

fun put_chunks :: "bytes list \<Rightarrow> bytes" where
  "put_chunks [] = []"
| "put_chunks (c # cs) = replicate (length c) 1 @ 0 # c @ put_chunks cs"

fun get_chunks :: "bytes \<Rightarrow> bytes list" where
  "get_chunks [] = []"
| "get_chunks (b # bs) =
     (let n = length (takeWhile (\<lambda>x. x = 1) (b # bs));
          rest = drop n bs
      in take n rest # get_chunks (drop n rest))"

lemma takeWhile_ones: "takeWhile (\<lambda>x. x = 1) (replicate n 1 @ 0 # xs) = replicate n (1 :: u8)"
  by (induction n) simp_all

lemma get_chunk:
  "get_chunks (replicate n 1 @ 0 # xs) = take n xs # get_chunks (drop n xs)"
proof (cases n)
  case (Suc k)
  have "get_chunks (replicate n 1 @ 0 # xs) =
      (let m = length (takeWhile (\<lambda>x. x = 1) (replicate n 1 @ 0 # xs));
           rest = drop m (replicate k 1 @ 0 # xs)
       in take m rest # get_chunks (drop m rest))"
    by (simp add: Suc)
  then show ?thesis by (simp add: takeWhile_ones Let_def Suc del: takeWhile.simps replicate_Suc)
qed simp

lemma get_put_chunks [simp]: "get_chunks (put_chunks cs) = cs"
  by (induction cs) (simp_all add: get_chunk)

fun root_code :: "capnp_root \<Rightarrow> bytes" where
  "root_code R_Envelope = [0]"
| "root_code R_Typing_Event = [1]"
| "root_code R_Read_Receipt = [2]"
| "root_code R_Mls_Key_Package = [3]"
| "root_code R_Mls_Key_Package_List = [4]"
| "root_code R_Mls_Commit = [5]"
| "root_code R_Mls_Welcome = [6]"

fun field_index :: "capnp_field \<Rightarrow> nat" where
  "field_index F_Tenant_Id = 0"
| "field_index F_Channel_Id = 1"
| "field_index F_Sender_Id = 2"
| "field_index F_Message_Id = 3"
| "field_index F_Payload = 4"
| "field_index F_User_Id = 5"
| "field_index F_Key_Package = 6"
| "field_index F_Commit = 7"
| "field_index F_Welcome = 8"

definition u64_bytes :: "u64 \<Rightarrow> bytes" where
  "u64_bytes w =
     u32_to_be_bytes (of_nat (unat w div 2 ^ 32)) @ u32_to_be_bytes (of_nat (unat w mod 2 ^ 32))"

definition bytes_u64 :: "bytes \<Rightarrow> u64" where
  "bytes_u64 bs = of_nat (be_nat (take 4 bs) * 2 ^ 32 + be_nat (drop 4 bs))"

lemma bytes_u64_bytes [simp]: "bytes_u64 (u64_bytes w) = w"
proof -
  have "unat w < 2 ^ LENGTH(64)" by (rule unsigned_less)
  then have "unat w div 4294967296 mod 4294967296 = unat w div 4294967296" by simp
  moreover have "unat w div 4294967296 * 4294967296 + unat w mod 4294967296 = unat w"
    by (rule div_mult_mod_eq)
  ultimately show ?thesis
    by (simp add: bytes_u64_def u64_bytes_def unat_of_nat word_unat_eq_iff)
qed

definition chunk_capnp :: "(capnp_content, bytes list, bytes list, bytes list, string) capnp" where
  "chunk_capnp =
     \<lparr>cp_init_root = empty_content,
      cp_set_data = (\<lambda>f v b. b\<lparr>cc_data := (cc_data b)(f := v)\<rparr>),
      cp_set_timestamp = (\<lambda>ts b. b\<lparr>cc_timestamp := ts\<rparr>),
      cp_init_key_packages = (\<lambda>n b. b\<lparr>cc_list := replicate (unat n) []\<rparr>),
      cp_list_set = (\<lambda>i v b. b\<lparr>cc_list := (cc_list b)[unat i := v]\<rparr>),
      cp_write_message = (\<lambda>b. Some (put_chunks
        (root_code (cc_root b) # u64_bytes (cc_timestamp b) #
         map (cc_data b) all_fields @ cc_list b))),
      cp_read_message = (\<lambda>bs. Ok (get_chunks bs)),
      cp_get_root = (\<lambda>t m.
        if take 1 m = [root_code t] then Ok m else Err ''unexpected root''),
      cp_get_data = (\<lambda>f r. Ok (r ! (field_index f + 2))),
      cp_get_timestamp = (\<lambda>r. bytes_u64 (r ! 1)),
      cp_get_key_packages = (\<lambda>r. Ok (drop 11 r)),
      cp_list_len = (\<lambda>l. of_nat (length l)),
      cp_list_get = (\<lambda>i l. Ok (l ! unat i))\<rparr>"

lemma chunk_capnp_laws: "capnp_laws chunk_capnp (\<lambda>b. b) 67108864"
proof -
  have data: "(map (cc_data b) all_fields @ cc_list b) ! field_index f = cc_data b f" for b f
    by (cases f) (simp_all add: all_fields_def)
  have [simp]: "length all_fields = 9" by (simp add: all_fields_def)
  have len: "length (cc_list b) < 2 ^ 32" if "content_size b \<le> 67108864" for b
  proof -
    have "length xs \<le> sum_list (map (\<lambda>p. 8 + length p) xs)" for xs :: "bytes list"
      by (induction xs) auto
    from this [of "cc_list b"] show ?thesis using that by (simp add: content_size_def)
  qed
  show ?thesis
    by (auto simp: capnp_laws_def chunk_capnp_def reads_as_def cp_open_def data
        unat_of_nat simp del: put_chunks.simps dest!: len)
qed

section \<open>Correctness\<close>

lemma reads_as_data:
  assumes "reads_as api out c"
  obtains r where "cp_open api (cc_root c) out = Ok r"
    "\<And>f. f \<in> schema_fields (cc_root c) \<Longrightarrow> cp_get_data api f r = Ok (cc_data c f)"
  using assms unfolding reads_as_def by blast

lemma envelope_carries:
  assumes "capnp_laws api content limit"
    and "length t + length c + length s + length m + length p \<le> limit"
  shows "\<exists>out. envelope_encode api t c s m ts p = Ret out \<and>
    envelope_decode api out = Ok \<lparr>de_tenant_id = t, de_channel_id = c, de_sender_id = s,
      de_message_id = m, de_timestamp = ts, de_payload = p\<rparr>"
proof -
  define b where "b = cp_set_data api F_Payload p (cp_set_timestamp api ts
    (cp_set_data api F_Message_Id m (cp_set_data api F_Sender_Id s (cp_set_data api F_Channel_Id c
    (cp_set_data api F_Tenant_Id t (cp_init_root api R_Envelope))))))"
  define k where "k = \<lparr>cc_root = R_Envelope,
    cc_data = (\<lambda>_. [])(F_Tenant_Id := t, F_Channel_Id := c, F_Sender_Id := s, F_Message_Id := m,
      F_Payload := p), cc_timestamp = ts, cc_list = []\<rparr>"
  have "content b = k"
    by (simp add: b_def k_def capnp_set [OF assms(1)] empty_content_def fun_upd_def)
  moreover have "content_size k \<le> limit"
    using assms(2) by (simp add: k_def content_size_def all_fields_def)
  ultimately obtain out where out: "cp_finish api b = Ret out" "reads_as api out k"
    by (rule capnp_write [OF assms(1)])
  from out(2) obtain r where "cp_open api (cc_root k) out = Ok r"
    "\<forall>f \<in> schema_fields (cc_root k). cp_get_data api f r = Ok (cc_data k f)"
    "cp_get_timestamp api r = ts"
    unfolding reads_as_def by (auto simp: k_def)
  then have "envelope_decode api out = Ok \<lparr>de_tenant_id = t, de_channel_id = c,
      de_sender_id = s, de_message_id = m, de_timestamp = ts, de_payload = p\<rparr>"
    by (simp add: envelope_decode_def k_def)
  then show ?thesis using out(1) by (simp add: envelope_encode_def b_def Let_def)
qed

text \<open>
  Envelope round trip: encoding an envelope whose fields are within the limit returns, and
  decoding the bytes gives back every field, each in its place, for identifiers and payloads
  of any length (empty ones, as under sealed sender, included).
\<close>

theorem envelope_roundtrip:
  assumes "capnp_laws api content limit"
    and "length t + length c + length s + length m + length p \<le> limit"
  shows "\<exists>out. envelope_encode api t c s m ts p = Ret out \<and>
    envelope_decode api out = Ok \<lparr>de_tenant_id = t, de_channel_id = c, de_sender_id = s,
      de_message_id = m, de_timestamp = ts, de_payload = p\<rparr>"
  using assms by (rule envelope_carries)

theorem envelope_roundtrip_witness:
  "\<exists>out. envelope_encode chunk_capnp [1, 2] [3] [] [4] 1704067200000 [255, 0] = Ret out \<and>
     envelope_decode chunk_capnp out = Ok \<lparr>de_tenant_id = [1, 2], de_channel_id = [3],
       de_sender_id = [], de_message_id = [4], de_timestamp = 1704067200000, de_payload = [255, 0]\<rparr>"
  by (rule envelope_roundtrip [OF chunk_capnp_laws]) simp

lemma key_package_list_carries:
  assumes "capnp_laws api content limit" "sum_list (map (\<lambda>p. 8 + length p) ps) \<le> limit"
  shows "if length ps \<le> 10000
    then \<exists>out. mls_key_package_list_encode api ps = Ret out \<and>
      mls_key_package_list_decode api out = Ok ps
    else mls_key_package_list_encode api ps = Panic (Assertion_Failed ''too many key packages'')"
proof (cases "length ps \<le> 10000")
  case False
  then show ?thesis by (simp add: mls_key_package_list_encode_def)
next
  case True
  let ?k = "(empty_content R_Mls_Key_Package_List)\<lparr>cc_list := ps\<rparr>"
  obtain n b' where n: "u32_try_from (length ps) = Some n"
    and b': "exec_fold (cp_set_element api) (enumerate 0 ps)
        (cp_init_key_packages api n (cp_init_root api R_Mls_Key_Package_List)) = Ret b'"
      "content b' = ?k"
    using capnp_list_build [OF assms(1), of ps] True by auto
  have "content_size ?k \<le> limit"
    using assms(2) by (simp add: content_size_def all_fields_def empty_content_def)
  with b'(2) obtain out where out: "cp_finish api b' = Ret out" "reads_as api out ?k"
    by (rule capnp_write [OF assms(1)])
  obtain r l where r: "cp_open api R_Mls_Key_Package_List out = Ok r"
    and l: "cp_get_key_packages api r = Ok l" "unat (cp_list_len api l) = length ps"
      "\<forall>i < length ps. cp_list_get api (of_nat i) l = Ok (ps ! i)"
    using out(2) unfolding reads_as_def by (auto simp: empty_content_def)
  have "map (\<lambda>i. cp_list_get api (of_nat i) l) [0..<length ps] = map Ok ps"
    using l(3) by (intro nth_equalityI) simp_all
  then have "mls_key_package_list_decode api out = Ok ps"
    by (simp add: mls_key_package_list_decode_def r l(1,2))
  moreover have "mls_key_package_list_encode api ps = Ret out"
    using True out(1) b'(1) by (simp add: mls_key_package_list_encode_def n)
  ultimately show ?thesis using True by simp
qed

text \<open>
  C37. The key package list: a list of at most 10000 packages within the limit is encoded
  without a panic, and decoding gives back the packages in their order, empty list and empty
  packages included; a longer list panics on its assertion before anything is written.
\<close>

theorem key_package_list_roundtrip:
  assumes "capnp_laws api content limit" "sum_list (map (\<lambda>p. 8 + length p) ps) \<le> limit"
  shows "if length ps \<le> 10000
    then \<exists>out. mls_key_package_list_encode api ps = Ret out \<and>
      mls_key_package_list_decode api out = Ok ps
    else mls_key_package_list_encode api ps = Panic (Assertion_Failed ''too many key packages'')"
  using assms by (rule key_package_list_carries)

theorem key_package_list_roundtrip_witness:
  "\<exists>out. mls_key_package_list_encode chunk_capnp [[7, 8], [], [9]] = Ret out \<and>
     mls_key_package_list_decode chunk_capnp out = Ok [[7, 8], [], [9]]"
  using key_package_list_roundtrip [OF chunk_capnp_laws, of "[[7, 8], [], [9]]"] by simp

text \<open>The events are all one or two data fields; their round trips share one argument.\<close>

lemma event_roundtrip:
  assumes "capnp_laws api content limit" "content b = k" "cc_root k \<noteq> R_Mls_Key_Package_List"
    and "content_size k \<le> limit"
  shows "\<exists>out r. cp_finish api b = Ret out \<and> cp_open api (cc_root k) out = Ok r \<and>
    (\<forall>f \<in> schema_fields (cc_root k). cp_get_data api f r = Ok (cc_data k f))"
  using capnp_write [OF assms(1,2,4)] reads_as_data by metis

lemma event1_roundtrip:
  assumes "capnp_laws api content limit" "schema_fields t = {f}" "length v \<le> limit"
  shows "\<exists>out. cp_finish api (cp_set_data api f v (cp_init_root api t)) = Ret out \<and>
    result_bind (cp_open api t out) (cp_get_data api f) = Ok v"
proof -
  let ?k = "(empty_content t)\<lparr>cc_data := (\<lambda>_. [])(f := v)\<rparr>"
  have "content (cp_set_data api f v (cp_init_root api t)) = ?k"
    by (simp add: capnp_set [OF assms(1)] empty_content_def)
  moreover have "content_size ?k \<le> limit"
    using assms(3) by (cases f) (simp_all add: content_size_def all_fields_def empty_content_def)
  moreover have "t \<noteq> R_Mls_Key_Package_List" using assms(2) by auto
  ultimately show ?thesis
    using event_roundtrip [OF assms(1), of _ ?k] assms(2) by (fastforce simp: empty_content_def)
qed

lemma event2_roundtrip:
  assumes "capnp_laws api content limit" "schema_fields t = {f, g}" "f \<noteq> g"
    and "length v + length w \<le> limit"
  shows "\<exists>out r. cp_finish api (cp_set_data api g w (cp_set_data api f v (cp_init_root api t))) = Ret out \<and>
    cp_open api t out = Ok r \<and> cp_get_data api f r = Ok v \<and> cp_get_data api g r = Ok w"
proof -
  let ?k = "(empty_content t)\<lparr>cc_data := (\<lambda>_. [])(f := v, g := w)\<rparr>"
  have "content (cp_set_data api g w (cp_set_data api f v (cp_init_root api t))) = ?k"
    by (simp add: capnp_set [OF assms(1)] empty_content_def)
  moreover have "content_size ?k \<le> limit"
    using assms(3,4)
    by (cases f; cases g) (simp_all add: content_size_def all_fields_def empty_content_def)
  moreover have "t \<noteq> R_Mls_Key_Package_List" using assms(2) by auto
  ultimately show ?thesis
    using event_roundtrip [OF assms(1), of _ ?k] assms(2,3) by (fastforce simp: empty_content_def)
qed

lemma events_carry:
  assumes "capnp_laws api content limit" "length v + length w \<le> limit"
  shows "(\<exists>out. typing_encode api v = Ret out \<and> typing_decode api out = Ok v) \<and>
    (\<exists>out. mls_key_package_encode api v = Ret out \<and> mls_key_package_decode api out = Ok v) \<and>
    (\<exists>out. mls_commit_encode api v = Ret out \<and> mls_commit_decode api out = Ok v) \<and>
    (\<exists>out. read_receipt_encode api v w = Ret out \<and>
      read_receipt_decode api out = Ok \<lparr>dr_user_id = v, dr_message_id = w\<rparr>) \<and>
    (\<exists>out. mls_welcome_encode api v w = Ret out \<and>
      mls_welcome_decode api out = Ok \<lparr>dw_welcome = v, dw_user_id = w\<rparr>)"
proof -
  have v: "length v \<le> limit" using assms(2) by simp
  note one = event1_roundtrip [OF assms(1) _ v] and two = event2_roundtrip [OF assms(1) _ _ assms(2)]
  show ?thesis
    unfolding typing_encode_def typing_decode_def mls_key_package_encode_def
      mls_key_package_decode_def mls_commit_encode_def mls_commit_decode_def
    using one [of R_Typing_Event F_User_Id] one [of R_Mls_Key_Package F_Key_Package]
      one [of R_Mls_Commit F_Commit] two [of R_Read_Receipt F_User_Id F_Message_Id]
      two [of R_Mls_Welcome F_Welcome F_User_Id]
    by (auto simp: read_receipt_encode_def read_receipt_decode_def mls_welcome_encode_def
        mls_welcome_decode_def Let_def)
qed

text \<open>
  C38. Event round trips: typing events, read receipts, key packages, commits and welcomes
  whose fields fit the runtime's size limit are encoded and decode to the same fields, the two fields of a read receipt
  and of a welcome never exchanged.
\<close>

theorem event_roundtrips:
  assumes "capnp_laws api content limit" "length v + length w \<le> limit"
  shows "(\<exists>out. typing_encode api v = Ret out \<and> typing_decode api out = Ok v) \<and>
    (\<exists>out. mls_key_package_encode api v = Ret out \<and> mls_key_package_decode api out = Ok v) \<and>
    (\<exists>out. mls_commit_encode api v = Ret out \<and> mls_commit_decode api out = Ok v) \<and>
    (\<exists>out. read_receipt_encode api v w = Ret out \<and>
      read_receipt_decode api out = Ok \<lparr>dr_user_id = v, dr_message_id = w\<rparr>) \<and>
    (\<exists>out. mls_welcome_encode api v w = Ret out \<and>
      mls_welcome_decode api out = Ok \<lparr>dw_welcome = v, dw_user_id = w\<rparr>)"
  using assms by (rule events_carry)

theorem event_roundtrips_witness:
  "\<exists>out. mls_welcome_encode chunk_capnp [1, 2, 3] [4] = Ret out \<and>
     mls_welcome_decode chunk_capnp out = Ok \<lparr>dw_welcome = [1, 2, 3], dw_user_id = [4]\<rparr>"
  using event_roundtrips [OF chunk_capnp_laws, of "[1, 2, 3]" "[4]"] by simp

end
