(* ===== verification/Stubs.thy ===== *)
theory Stubs
  imports Prelude
begin

text \<open>
  The placeholder crates \<^verbatim>\<open>crates/mercury-db\<close> and \<^verbatim>\<open>crates/mercury-transport\<close>, which
  export a greeting each and nothing else.
\<close>

definition db_hello :: string where
  "db_hello = ''mercury-db''"

definition transport_hello :: string where
  "transport_hello = ''mercury-transport''"

definition test_db_works :: "unit exec" where
  "test_db_works = check (db_hello = ''mercury-db'')"

definition test_transport_works :: "unit exec" where
  "test_transport_works = check (transport_hello = ''mercury-transport'')"

lemma stub_tests_pass: "test_db_works = Ret ()" "test_transport_works = Ret ()"
  by (simp_all add: test_db_works_def test_transport_works_def db_hello_def transport_hello_def)

end
