(* ===== verification/Mls.thy ===== *)
theory Mls
  imports Collections
begin

text \<open>
  The group manager of \<^verbatim>\<open>crates/mercury-crypto/src/mls.rs\<close>. The cryptography is the
  \<^verbatim>\<open>openmls\<close> crate: the parameter \<open>openmls\<close> has one field per call the manager
  makes, over types of the library's choosing: \<open>'p\<close> the provider with its key store and
  random numbers, which most calls change, \<open>'c\<close> credentials, \<open>'s\<close> signers,
  \<open>'g\<close> group states and \<open>'o\<close> its other objects. A call that may fail returns an
  option; the manager attaches a context to the failure, and that text is all of the error its
  callers display. Calls on a group change provider and group also when they fail.
\<close>

section \<open>The library as a parameter\<close>

datatype 'o processed_content =
    Application_Message bytes
  | Staged_Commit_Message 'o
  | Other_Content

record ('p, 'c, 's, 'g, 'o) openmls =
  om_store_signer :: "'s \<Rightarrow> 'p \<Rightarrow> 'p \<times> unit option"
  om_credential :: "bytes \<Rightarrow> 's \<Rightarrow> 'c"
  om_build_key_package :: "'s \<Rightarrow> 'c \<Rightarrow> 'p \<Rightarrow> 'p \<times> 'o option"
  om_tls_serialize :: "'o \<Rightarrow> bytes option"
  om_build_group :: "bytes \<Rightarrow> 's \<Rightarrow> 'c \<Rightarrow> 'p \<Rightarrow> 'p \<times> 'g option"
  om_member_count :: "'g \<Rightarrow> nat"
  om_parse_key_package :: "bytes \<Rightarrow> 'o option"
  om_validate_key_package :: "'o \<Rightarrow> 'p \<Rightarrow> 'o option"
  om_add_members :: "'s \<Rightarrow> 'o list \<Rightarrow> 'p \<times> 'g \<Rightarrow> ('p \<times> 'g) \<times> ('o \<times> 'o) option"
  om_remove_members :: "'s \<Rightarrow> u32 list \<Rightarrow> 'p \<times> 'g \<Rightarrow> ('p \<times> 'g) \<times> 'o option"
  om_merge_pending_commit :: "'p \<times> 'g \<Rightarrow> ('p \<times> 'g) \<times> unit option"
  om_create_message :: "'s \<Rightarrow> bytes \<Rightarrow> 'p \<times> 'g \<Rightarrow> ('p \<times> 'g) \<times> 'o option"
  om_parse_message :: "bytes \<Rightarrow> 'o option"
  om_into_protocol :: "'o \<Rightarrow> (string, 'o) result"
  om_into_welcome :: "'o \<Rightarrow> 'o option"
  om_process_message :: "'o \<Rightarrow> 'p \<times> 'g \<Rightarrow> ('p \<times> 'g) \<times> 'o processed_content option"
  om_merge_staged_commit :: "'o \<Rightarrow> 'p \<times> 'g \<Rightarrow> ('p \<times> 'g) \<times> unit option"
  om_stage_welcome :: "'o \<Rightarrow> 'p \<Rightarrow> 'p \<times> 'o option"
  om_into_group :: "'o \<Rightarrow> 'p \<Rightarrow> 'p \<times> 'g option"
  om_group_id :: "'g \<Rightarrow> bytes"

section \<open>The manager\<close>

definition MAX_GROUP_MEMBERS :: nat where
  "MAX_GROUP_MEMBERS = 1000"

definition MAX_MESSAGE_SIZE :: nat where
  "MAX_MESSAGE_SIZE = 65536"

record ('p, 'c, 's, 'g) mls_manager =
  mg_provider :: 'p
  mg_credential_with_key :: 'c
  mg_signer :: 's
  mg_groups :: "(bytes, 'g) hashmap"

definition to_bytes :: "('p, 'c, 's, 'g, 'o) openmls \<Rightarrow> 'o \<Rightarrow> (string, bytes) result" where
  "to_bytes api val = ok_or ''TLS serialize failed'' (om_tls_serialize api val)"

text \<open>
  \<^verbatim>\<open>new\<close>: the fresh provider and the outcome of generating the key pair come from the
  operating system's randomness and are arguments.
\<close>

definition mls_new ::
  "('p, 'c, 's, 'g, 'o) openmls \<Rightarrow> 'p \<Rightarrow> 's option \<Rightarrow> bytes \<Rightarrow>
   (string, ('p, 'c, 's, 'g) mls_manager) result exec" where
  "mls_new api provider keypair identity =
     assert_then (identity \<noteq> []) ''identity must not be empty''
       (Ret (result_bind (ok_or ''failed to generate signature keypair'' keypair) (\<lambda>signer.
          case om_store_signer api signer provider of (provider', stored) \<Rightarrow>
            result_bind (ok_or ''failed to store signature keypair'' stored) (\<lambda>_.
              Ok \<lparr>mg_provider = provider',
                  mg_credential_with_key = om_credential api identity signer,
                  mg_signer = signer, mg_groups = []\<rparr>))))"

definition mls_generate_key_package ::
  "('p, 'c, 's, 'g, 'o) openmls \<Rightarrow> (('p, 'c, 's, 'g) mls_manager, string, bytes) st_result" where
  "mls_generate_key_package api self =
     (case om_build_key_package api (mg_signer self) (mg_credential_with_key self)
             (mg_provider self) of
        (provider', kp) \<Rightarrow>
          (self\<lparr>mg_provider := provider'\<rparr>,
           result_bind (ok_or ''failed to build key package'' kp) (to_bytes api)))"

definition mls_create_group ::
  "('p, 'c, 's, 'g, 'o) openmls \<Rightarrow> bytes \<Rightarrow> ('p, 'c, 's, 'g) mls_manager \<Rightarrow>
   (('p, 'c, 's, 'g) mls_manager \<times> (string, unit) result) exec" where
  "mls_create_group api group_id self =
     assert_then (group_id \<noteq> []) ''group_id must not be empty''
       (Ret (if map_of (mg_groups self) group_id \<noteq> None then (self, Err ''group already exists'')
             else case om_build_group api group_id (mg_signer self) (mg_credential_with_key self)
                    (mg_provider self) of
               (provider', None) \<Rightarrow>
                 (self\<lparr>mg_provider := provider'\<rparr>, Err ''failed to create MLS group'')
             | (provider', Some grp) \<Rightarrow>
                 (self\<lparr>mg_provider := provider',
                       mg_groups := hm_insert group_id grp (mg_groups self)\<rparr>, Ok ())))"

text \<open>
  \<^verbatim>\<open>self.groups.get_mut(group_id).context("group not found")?\<close> followed by code that works
  on the provider and the borrowed group in place.
\<close>

definition with_group ::
  "bytes \<Rightarrow> ('p \<times> 'g, string, 'a) st_result \<Rightarrow> (('p, 'c, 's, 'g) mls_manager, string, 'a) st_result" where
  "with_group group_id body self =
     (case map_of (mg_groups self) group_id of
        None \<Rightarrow> (self, Err ''group not found'')
      | Some grp \<Rightarrow>
          (case body (mg_provider self, grp) of
             ((provider', grp'), r) \<Rightarrow>
               (self\<lparr>mg_provider := provider',
                     mg_groups := hm_insert group_id grp' (mg_groups self)\<rparr>, r)))"

definition add_member_body ::
  "('p, 'c, 's, 'g, 'o) openmls \<Rightarrow> 's \<Rightarrow> bytes \<Rightarrow> ('p \<times> 'g, string, bytes \<times> bytes) st_result" where
  "add_member_body api signer key_package_bytes st =
     (if om_member_count api (snd st) \<ge> MAX_GROUP_MEMBERS then
        (st, Err (''group member limit ('' @ show_nat MAX_GROUP_MEMBERS @ '') reached''))
      else
        (st_bind (st_lift (ok_or ''failed to deserialize key package''
            (om_parse_key_package api key_package_bytes))) (\<lambda>kp_in.
         st_bind (st_lift (ok_or ''key package validation failed''
            (om_validate_key_package api kp_in (fst st)))) (\<lambda>kp_verified.
         st_bind (st_context ''failed to add member''
            (om_add_members api signer [kp_verified])) (\<lambda>(commit_msg, welcome).
         st_bind (st_context ''failed to merge pending commit''
            (om_merge_pending_commit api)) (\<lambda>_.
         st_bind (st_lift (to_bytes api commit_msg)) (\<lambda>commit_bytes.
         st_bind (st_lift (to_bytes api welcome)) (\<lambda>welcome_bytes.
         st_lift (Ok (commit_bytes, welcome_bytes))))))))) st)"

definition mls_add_member ::
  "('p, 'c, 's, 'g, 'o) openmls \<Rightarrow> bytes \<Rightarrow> bytes \<Rightarrow>
   (('p, 'c, 's, 'g) mls_manager, string, bytes \<times> bytes) st_result" where
  "mls_add_member api group_id key_package_bytes self =
     with_group group_id (add_member_body api (mg_signer self) key_package_bytes) self"

definition mls_remove_member ::
  "('p, 'c, 's, 'g, 'o) openmls \<Rightarrow> bytes \<Rightarrow> u32 \<Rightarrow>
   (('p, 'c, 's, 'g) mls_manager, string, bytes) st_result" where
  "mls_remove_member api group_id member_index self =
     with_group group_id
       (st_bind (st_context ''failed to remove member''
          (om_remove_members api (mg_signer self) [member_index])) (\<lambda>commit_msg.
        st_bind (st_context ''failed to merge pending commit'' (om_merge_pending_commit api)) (\<lambda>_.
        st_lift (to_bytes api commit_msg)))) self"

definition mls_encrypt ::
  "('p, 'c, 's, 'g, 'o) openmls \<Rightarrow> bytes \<Rightarrow> bytes \<Rightarrow> ('p, 'c, 's, 'g) mls_manager \<Rightarrow>
   (('p, 'c, 's, 'g) mls_manager \<times> (string, bytes) result) exec" where
  "mls_encrypt api group_id plaintext self =
     assert_then (length plaintext \<le> MAX_MESSAGE_SIZE)
       (''message exceeds '' @ show_nat MAX_MESSAGE_SIZE @ '' bytes'')
       (Ret (with_group group_id
         (st_bind (st_context ''failed to encrypt message''
            (om_create_message api (mg_signer self) plaintext)) (\<lambda>mls_msg.
          st_lift (to_bytes api mls_msg))) self))"

text \<open>The two handlers of incoming protocol messages open with the same three steps.\<close>

definition receive_protocol ::
  "('p, 'c, 's, 'g, 'o) openmls \<Rightarrow> string \<Rightarrow> string \<Rightarrow> bytes \<Rightarrow>
   ('p \<times> 'g, string, 'o processed_content) st_result" where
  "receive_protocol api parse_context process_context bytes =
     st_bind (st_lift (ok_or parse_context (om_parse_message api bytes))) (\<lambda>mls_msg_in.
     st_bind (st_lift (map_err (\<lambda>e. ''not a protocol message: '' @ e)
        (om_into_protocol api mls_msg_in))) (\<lambda>protocol_msg.
     st_context process_context (om_process_message api protocol_msg)))"

definition mls_decrypt ::
  "('p, 'c, 's, 'g, 'o) openmls \<Rightarrow> bytes \<Rightarrow> bytes \<Rightarrow>
   (('p, 'c, 's, 'g) mls_manager, string, bytes) st_result" where
  "mls_decrypt api group_id ciphertext =
     with_group group_id
       (st_bind (receive_protocol api ''failed to deserialize MLS message''
          ''failed to process MLS message'' ciphertext) (\<lambda>content.
        st_lift (case content of
            Application_Message app_msg \<Rightarrow> Ok app_msg
          | _ \<Rightarrow> Err ''expected application message'')))"

definition mls_process_welcome ::
  "('p, 'c, 's, 'g, 'o) openmls \<Rightarrow> bytes \<Rightarrow>
   (('p, 'c, 's, 'g) mls_manager, string, bytes) st_result" where
  "mls_process_welcome api welcome_bytes self =
     (case result_bind (ok_or ''failed to deserialize welcome'' (om_parse_message api welcome_bytes))
             (\<lambda>m. ok_or ''not a welcome message'' (om_into_welcome api m)) of
        Err e \<Rightarrow> (self, Err e)
      | Ok welcome \<Rightarrow>
          (case st_bind (st_context ''failed to stage welcome'' (om_stage_welcome api welcome))
                  (\<lambda>staged. st_context ''failed to join group from welcome'' (om_into_group api staged))
                  (mg_provider self) of
             (provider', Err e) \<Rightarrow> (self\<lparr>mg_provider := provider'\<rparr>, Err e)
           | (provider', Ok grp) \<Rightarrow>
               (self\<lparr>mg_provider := provider',
                     mg_groups := hm_insert (om_group_id api grp) grp (mg_groups self)\<rparr>,
                Ok (om_group_id api grp))))"

definition mls_process_commit ::
  "('p, 'c, 's, 'g, 'o) openmls \<Rightarrow> bytes \<Rightarrow> bytes \<Rightarrow>
   (('p, 'c, 's, 'g) mls_manager, string, unit) st_result" where
  "mls_process_commit api group_id commit_bytes =
     with_group group_id
       (st_bind (receive_protocol api ''failed to deserialize commit''
          ''failed to process commit'' commit_bytes) (\<lambda>content.
        case content of
            Staged_Commit_Message staged_commit \<Rightarrow>
              st_context ''failed to merge staged commit'' (om_merge_staged_commit api staged_commit)
          | _ \<Rightarrow> st_lift (Err ''expected commit message'')))"

definition mls_member_count ::
  "('p, 'c, 's, 'g, 'o) openmls \<Rightarrow> bytes \<Rightarrow> ('p, 'c, 's, 'g) mls_manager \<Rightarrow> nat option" where
  "mls_member_count api group_id self =
     map_option (om_member_count api) (map_of (mg_groups self) group_id)"

lemmas [rust_defs] =
  MAX_GROUP_MEMBERS_def MAX_MESSAGE_SIZE_def to_bytes_def mls_new_def mls_generate_key_package_def
  mls_create_group_def mls_add_member_def mls_remove_member_def mls_encrypt_def
  mls_decrypt_def mls_process_welcome_def mls_process_commit_def mls_member_count_def

section \<open>Any call\<close>

text \<open>The calls that change a manager and their replies, to speak of sequences of them.\<close>

datatype mls_request =
    Generate_Key_Package
  | Create_Group bytes
  | Add_Member bytes bytes
  | Remove_Member bytes u32
  | Encrypt bytes bytes
  | Decrypt bytes bytes
  | Process_Welcome bytes
  | Process_Commit bytes bytes

datatype mls_reply = Reply_Unit | Reply_Bytes bytes | Reply_Pair bytes bytes

definition reply_map :: "('a \<Rightarrow> 'b) \<Rightarrow> 'm \<times> ('e, 'a) result \<Rightarrow> 'm \<times> ('e, 'b) result" where
  "reply_map f mr = (fst mr, result_bind (snd mr) (\<lambda>a. Ok (f a)))"

fun mls_call ::
  "('p, 'c, 's, 'g, 'o) openmls \<Rightarrow> mls_request \<Rightarrow> ('p, 'c, 's, 'g) mls_manager \<Rightarrow>
   (('p, 'c, 's, 'g) mls_manager \<times> (string, mls_reply) result) exec" where
  "mls_call api Generate_Key_Package m = Ret (reply_map Reply_Bytes (mls_generate_key_package api m))"
| "mls_call api (Create_Group gid) m =
     exec_bind (mls_create_group api gid m) (\<lambda>r. Ret (reply_map (\<lambda>_. Reply_Unit) r))"
| "mls_call api (Add_Member gid kp) m =
     Ret (reply_map (\<lambda>(c, w). Reply_Pair c w) (mls_add_member api gid kp m))"
| "mls_call api (Remove_Member gid i) m = Ret (reply_map Reply_Bytes (mls_remove_member api gid i m))"
| "mls_call api (Encrypt gid pt) m =
     exec_bind (mls_encrypt api gid pt m) (\<lambda>r. Ret (reply_map Reply_Bytes r))"
| "mls_call api (Decrypt gid ct) m = Ret (reply_map Reply_Bytes (mls_decrypt api gid ct m))"
| "mls_call api (Process_Welcome w) m = Ret (reply_map Reply_Bytes (mls_process_welcome api w m))"
| "mls_call api (Process_Commit gid c) m =
     Ret (reply_map (\<lambda>_. Reply_Unit) (mls_process_commit api gid c m))"

text \<open>The group a call may touch; a welcome touches the one it returns.\<close>

fun call_target :: "mls_request \<Rightarrow> (string, mls_reply) result \<Rightarrow> bytes option" where
  "call_target Generate_Key_Package r = None"
| "call_target (Create_Group gid) r = Some gid"
| "call_target (Add_Member gid kp) r = Some gid"
| "call_target (Remove_Member gid i) r = Some gid"
| "call_target (Encrypt gid pt) r = Some gid"
| "call_target (Decrypt gid ct) r = Some gid"
| "call_target (Process_Welcome w) r = (case r of Ok (Reply_Bytes gid) \<Rightarrow> Some gid | _ \<Rightarrow> None)"
| "call_target (Process_Commit gid c) r = Some gid"

fun call_panics :: "mls_request \<Rightarrow> bool" where
  "call_panics (Create_Group gid) = (gid = [])"
| "call_panics (Encrypt gid pt) = (65536 < length pt)"
| "call_panics _ = False"

section \<open>What a call may change\<close>

text \<open>The manager \<open>m'\<close> is \<open>m\<close> after a call on the group \<open>target\<close>.\<close>

definition mgr_frame ::
  "bytes option \<Rightarrow> ('p, 'c, 's, 'g) mls_manager \<Rightarrow> ('p, 'c, 's, 'g) mls_manager \<Rightarrow> bool" where
  "mgr_frame target m m' \<longleftrightarrow>
     mg_signer m' = mg_signer m \<and> mg_credential_with_key m' = mg_credential_with_key m \<and>
     (\<forall>gid. target \<noteq> Some gid \<longrightarrow> map_of (mg_groups m') gid = map_of (mg_groups m) gid) \<and>
     dom (map_of (mg_groups m)) \<subseteq> dom (map_of (mg_groups m')) \<and>
     (hm_ok (mg_groups m) \<longrightarrow> hm_ok (mg_groups m'))"

lemma mgr_frame_refl [simp]: "mgr_frame t m m"
  by (simp add: mgr_frame_def)

lemma mgr_frame_provider [simp]: "mgr_frame t m (m\<lparr>mg_provider := p\<rparr>)"
  by (simp add: mgr_frame_def)

lemma mgr_frame_insert [simp]:
  "mgr_frame (Some gid) m (m\<lparr>mg_provider := p, mg_groups := hm_insert gid g (mg_groups m)\<rparr>)"
  by (auto simp: mgr_frame_def)

lemma with_group_unknown [simp]:
  "map_of (mg_groups m) gid = None \<Longrightarrow> with_group gid body m = (m, Err ''group not found'')"
  by (simp add: with_group_def)

lemma with_group_known:
  assumes "map_of (mg_groups m) gid = Some g" "body (mg_provider m, g) = ((p', g'), r)"
  shows "with_group gid body m =
    (m\<lparr>mg_provider := p', mg_groups := hm_insert gid g' (mg_groups m)\<rparr>, r)"
  using assms by (simp add: with_group_def)

lemma with_group_same:
  assumes "map_of (mg_groups m) gid = Some g" "body (mg_provider m, g) = ((mg_provider m, g), r)"
  shows "with_group gid body m = (m, r)"
  using assms by (simp add: with_group_def hm_insert_def update_triv)

lemma fst_reply_map [simp]: "fst (reply_map f mr) = fst mr"
  by (simp add: reply_map_def)

lemma snd_reply_map [simp]: "snd (reply_map f mr) = result_bind (snd mr) (\<lambda>a. Ok (f a))"
  by (simp add: reply_map_def)

lemma mls_call_panics: "is_ret (mls_call api call m) \<longleftrightarrow> \<not> call_panics call"
  by (cases call)
    (auto simp: mls_create_group_def mls_encrypt_def assert_then_def MAX_MESSAGE_SIZE_def
      split: option.splits prod.splits)

section \<open>Adding a member, stage by stage\<close>

definition early_add_errors :: "string set" where
  "early_add_errors =
     {''group not found'', ''group member limit ('' @ show_nat 1000 @ '') reached'',
      ''failed to deserialize key package'', ''key package validation failed''}"

lemma add_member_body_eq:
  "add_member_body api s kp st =
     (if 1000 \<le> om_member_count api (snd st) then
        (st, Err (''group member limit ('' @ show_nat 1000 @ '') reached''))
      else case om_parse_key_package api kp of
        None \<Rightarrow> (st, Err ''failed to deserialize key package'')
      | Some k \<Rightarrow> (case om_validate_key_package api k (fst st) of
          None \<Rightarrow> (st, Err ''key package validation failed'')
        | Some v \<Rightarrow> (case om_add_members api s [v] st of
            (st1, None) \<Rightarrow> (st1, Err ''failed to add member'')
          | (st1, Some (c, w)) \<Rightarrow> (case om_merge_pending_commit api st1 of
              (st2, None) \<Rightarrow> (st2, Err ''failed to merge pending commit'')
            | (st2, Some u) \<Rightarrow> (st2,
                result_bind (to_bytes api c) (\<lambda>cb.
                result_bind (to_bytes api w) (\<lambda>wb. Ok (cb, wb))))))))"
proof -
  have tail: "st_bind (st_lift (to_bytes api c)) (\<lambda>cb.
      st_bind (st_lift (to_bytes api w)) (\<lambda>wb. st_lift (Ok (cb, wb)))) st =
      (st, result_bind (to_bytes api c) (\<lambda>cb. result_bind (to_bytes api w) (\<lambda>wb. Ok (cb, wb))))"
    for c w and st :: "'zp \<times> 'zg"
    by (cases "to_bytes api c"; cases "to_bytes api w") (simp_all add: st_lift_def)
  show ?thesis
    by (cases "om_parse_key_package api kp"; simp add: add_member_body_def MAX_GROUP_MEMBERS_def;
        cases "om_validate_key_package api (the (om_parse_key_package api kp)) (fst st)";
        simp add: st_bind_context tail split: prod.splits option.splits)
qed

lemma add_member_Ok:
  assumes "mls_add_member api gid kp m = (m', Ok (cb, wb))"
  obtains g k v st1 c w st2 where
    "map_of (mg_groups m) gid = Some g" "om_member_count api g < 1000"
    "om_parse_key_package api kp = Some k" "om_validate_key_package api k (mg_provider m) = Some v"
    "om_add_members api (mg_signer m) [v] (mg_provider m, g) = (st1, Some (c, w))"
    "om_merge_pending_commit api st1 = (st2, Some ())"
    "to_bytes api c = Ok cb" "to_bytes api w = Ok wb"
    "map_of (mg_groups m') gid = Some (snd st2)"
  using assms unfolding mls_add_member_def with_group_def add_member_body_eq
  by (auto split: option.splits prod.splits if_splits)

section \<open>Calls that succeed\<close>

lemma encrypt_Ok:
  assumes "map_of (mg_groups a) gid = Some g" "length pt \<le> 65536"
    and "om_create_message api (mg_signer a) pt (mg_provider a, g) = ((p', g'), Some msg)"
    and "om_tls_serialize api msg = Some ct"
  shows "mls_encrypt api gid pt a =
    Ret (a\<lparr>mg_provider := p', mg_groups := hm_insert gid g' (mg_groups a)\<rparr>, Ok ct)"
  using assms
  by (simp add: mls_encrypt_def MAX_MESSAGE_SIZE_def with_group_known [OF assms(1)]
      st_bind_context st_lift_def to_bytes_def)

lemma receive_protocol_Ok:
  assumes "om_parse_message api ct = Some msg_in" "om_into_protocol api msg_in = Ok prot"
    and "om_process_message api prot st = (st', Some content)"
  shows "receive_protocol api c1 c2 ct st = (st', Ok content)"
  using assms by (simp add: receive_protocol_def st_bind_def st_lift_def st_context_def)

lemma decrypt_Ok:
  assumes "map_of (mg_groups a) gid = Some g"
    and "om_parse_message api ct = Some msg_in" "om_into_protocol api msg_in = Ok prot"
    and "om_process_message api prot (mg_provider a, g) = ((p', g'), Some (Application_Message pt))"
  shows "mls_decrypt api gid ct a =
    (a\<lparr>mg_provider := p', mg_groups := hm_insert gid g' (mg_groups a)\<rparr>, Ok pt)"
  by (simp add: mls_decrypt_def with_group_known [OF assms(1)] st_bind_def st_lift_def
      receive_protocol_Ok [OF assms(2-4)])

lemma process_commit_Ok:
  assumes "map_of (mg_groups a) gid = Some g"
    and "om_parse_message api cb = Some msg_in" "om_into_protocol api msg_in = Ok prot"
    and "om_process_message api prot (mg_provider a, g) = (st', Some (Staged_Commit_Message sc))"
    and "om_merge_staged_commit api sc st' = ((p', g'), Some ())"
  shows "mls_process_commit api gid cb a =
    (a\<lparr>mg_provider := p', mg_groups := hm_insert gid g' (mg_groups a)\<rparr>, Ok ())"
  by (simp add: mls_process_commit_def with_group_known [OF assms(1)] st_bind_def st_context_def
      receive_protocol_Ok [OF assms(2-4)] assms(5))

lemma add_member_succeeds:
  assumes "map_of (mg_groups a) gid = Some g" "om_member_count api g < 1000"
    and "om_parse_key_package api kpb = Some k" "om_validate_key_package api k (mg_provider a) = Some v"
    and "om_add_members api (mg_signer a) [v] (mg_provider a, g) = (st1, Some (c, w))"
    and "om_merge_pending_commit api st1 = ((p', g'), Some ())"
    and "om_tls_serialize api c = Some cb" "om_tls_serialize api w = Some wb"
  shows "mls_add_member api gid kpb a =
    (a\<lparr>mg_provider := p', mg_groups := hm_insert gid g' (mg_groups a)\<rparr>, Ok (cb, wb))"
  using assms
  by (simp add: mls_add_member_def with_group_known [OF assms(1)] add_member_body_eq to_bytes_def)

lemma remove_member_succeeds:
  assumes "map_of (mg_groups a) gid = Some g"
    and "om_remove_members api (mg_signer a) [l] (mg_provider a, g) = (st1, Some c)"
    and "om_merge_pending_commit api st1 = ((p', g'), Some ())" "om_tls_serialize api c = Some cb"
  shows "mls_remove_member api gid l a =
    (a\<lparr>mg_provider := p', mg_groups := hm_insert gid g' (mg_groups a)\<rparr>, Ok cb)"
  using assms(2-4)
  by (simp add: mls_remove_member_def with_group_known [OF assms(1)] st_bind_def st_context_def st_lift_def
      to_bytes_def)

lemma process_welcome_Ok:
  assumes "om_parse_message api wb = Some m" "om_into_welcome api m = Some wel"
    and "om_stage_welcome api wel (mg_provider b) = (q1, Some staged)"
    and "om_into_group api staged q1 = (q2, Some h)"
  shows "mls_process_welcome api wb b =
    (b\<lparr>mg_provider := q2, mg_groups := hm_insert (om_group_id api h) h (mg_groups b)\<rparr>,
     Ok (om_group_id api h))"
  using assms by (simp add: mls_process_welcome_def st_bind_def st_context_def)

section \<open>Groups are filed under their own id\<close>

text \<open>What the library guarantees of a group's id: it is fixed when the group is made.\<close>

definition id_laws :: "('p, 'c, 's, 'g, 'o) openmls \<Rightarrow> bool" where
  "id_laws api \<longleftrightarrow>
     (\<forall>gid s c p p' g. om_build_group api gid s c p = (p', Some g) \<longrightarrow> om_group_id api g = gid) \<and>
     (\<forall>s os st. om_group_id api (snd (fst (om_add_members api s os st))) = om_group_id api (snd st)) \<and>
     (\<forall>s is st. om_group_id api (snd (fst (om_remove_members api s is st))) = om_group_id api (snd st)) \<and>
     (\<forall>st. om_group_id api (snd (fst (om_merge_pending_commit api st))) = om_group_id api (snd st)) \<and>
     (\<forall>s pt st. om_group_id api (snd (fst (om_create_message api s pt st))) = om_group_id api (snd st)) \<and>
     (\<forall>o' st. om_group_id api (snd (fst (om_process_message api o' st))) = om_group_id api (snd st)) \<and>
     (\<forall>o' st. om_group_id api (snd (fst (om_merge_staged_commit api o' st))) = om_group_id api (snd st))"

definition mgr_keyed :: "('p, 'c, 's, 'g, 'o) openmls \<Rightarrow> ('p, 'c, 's, 'g) mls_manager \<Rightarrow> bool" where
  "mgr_keyed api m \<longleftrightarrow> (\<forall>gid g. map_of (mg_groups m) gid = Some g \<longrightarrow> om_group_id api g = gid)"

text \<open>A step on provider and group that leaves the group's id.\<close>

definition keeps_id :: "('g \<Rightarrow> bytes) \<Rightarrow> ('p \<times> 'g, string, 'a) st_result \<Rightarrow> bool" where
  "keeps_id gid_of body \<longleftrightarrow> (\<forall>st. gid_of (snd (fst (body st))) = gid_of (snd st))"

lemma keeps_id_bind:
  "keeps_id i m \<Longrightarrow> (\<And>a. keeps_id i (f a)) \<Longrightarrow> keeps_id i (st_bind m f)"
  unfolding keeps_id_def st_bind_def
  by (simp split: prod.splits result.splits) (metis fst_conv snd_conv)

lemma keeps_id_lift: "keeps_id i (st_lift r)"
  by (simp add: keeps_id_def st_lift_def)

lemma keeps_id_context:
  "(\<And>st. i (snd (fst (m st))) = i (snd st)) \<Longrightarrow> keeps_id i (st_context msg m)"
  by (simp add: keeps_id_def st_context_def case_prod_beta)

lemma keeps_id_prod: "(\<And>a b. keeps_id i (f a b)) \<Longrightarrow> keeps_id i (case x of (a, b) \<Rightarrow> f a b)"
  by (cases x) simp

lemma id_lawsD:
  assumes "id_laws api"
  shows "om_group_id api (snd (fst (om_add_members api s os st))) = om_group_id api (snd st)"
    and "om_group_id api (snd (fst (om_remove_members api s is st))) = om_group_id api (snd st)"
    and "om_group_id api (snd (fst (om_merge_pending_commit api st))) = om_group_id api (snd st)"
    and "om_group_id api (snd (fst (om_create_message api s pt st))) = om_group_id api (snd st)"
    and "om_group_id api (snd (fst (om_process_message api o' st))) = om_group_id api (snd st)"
    and "om_group_id api (snd (fst (om_merge_staged_commit api o' st))) = om_group_id api (snd st)"
  using assms unfolding id_laws_def by blast+

lemma keeps_id_content:
  "(\<And>o'. keeps_id i (f o')) \<Longrightarrow>
   keeps_id i (case content of Staged_Commit_Message o' \<Rightarrow> f o' | _ \<Rightarrow> st_lift (Err e))"
  by (cases content) (simp_all add: keeps_id_lift)

lemma bodies_keep_id:
  assumes "id_laws api"
  shows "keeps_id (om_group_id api) (add_member_body api s kp)"
    and "keeps_id (om_group_id api) (st_bind (st_context c1 (om_remove_members api s is)) (\<lambda>msg.
        st_bind (st_context c2 (om_merge_pending_commit api)) (\<lambda>_. st_lift (to_bytes api msg))))"
    and "keeps_id (om_group_id api) (st_bind (st_context c1 (om_create_message api s pt)) (\<lambda>msg.
        st_lift (to_bytes api msg)))"
    and "keeps_id (om_group_id api) (receive_protocol api c1 c2 bs)"
    and "keeps_id (om_group_id api) (st_context c1 (om_merge_staged_commit api o'))"
proof -
  note laws = id_lawsD [OF assms]
  have add: "keeps_id (om_group_id api)
      (st_bind (st_lift (ok_or c1 (om_parse_key_package api kp))) (\<lambda>kp_in.
       st_bind (st_lift (ok_or c2 (om_validate_key_package api kp_in p))) (\<lambda>kp_verified.
       st_bind (st_context c3 (om_add_members api s [kp_verified])) (\<lambda>(commit_msg, welcome).
       st_bind (st_context c4 (om_merge_pending_commit api)) (\<lambda>_.
       st_bind (st_lift (to_bytes api commit_msg)) (\<lambda>commit_bytes.
       st_bind (st_lift (to_bytes api welcome)) (\<lambda>welcome_bytes.
       st_lift (Ok (commit_bytes, welcome_bytes)))))))))" for p c1 c2 c3 c4
    by (intro keeps_id_bind keeps_id_context keeps_id_lift keeps_id_prod laws)
  show "keeps_id (om_group_id api) (add_member_body api s kp)"
    unfolding keeps_id_def add_member_body_def
    using add [unfolded keeps_id_def] by simp
  show "keeps_id (om_group_id api) (st_bind (st_context c1 (om_remove_members api s is)) (\<lambda>msg.
        st_bind (st_context c2 (om_merge_pending_commit api)) (\<lambda>_. st_lift (to_bytes api msg))))"
    "keeps_id (om_group_id api) (st_bind (st_context c1 (om_create_message api s pt)) (\<lambda>msg.
        st_lift (to_bytes api msg)))"
    "keeps_id (om_group_id api) (receive_protocol api c1 c2 bs)"
    "keeps_id (om_group_id api) (st_context c1 (om_merge_staged_commit api o'))"
    unfolding receive_protocol_def
    by (intro keeps_id_bind keeps_id_context keeps_id_lift laws)+
qed

section \<open>The effect of a call\<close>

text \<open>
  All a call can do to a manager: change the provider, and replace or add the state of its
  target group, under the group's own id if all groups were filed so before.
\<close>

definition call_effect ::
  "('p, 'c, 's, 'g, 'o) openmls \<Rightarrow> bytes option \<Rightarrow> ('p, 'c, 's, 'g) mls_manager \<Rightarrow>
   ('p, 'c, 's, 'g) mls_manager \<Rightarrow> bool" where
  "call_effect api target m m' \<longleftrightarrow>
     (\<exists>p. m' = m\<lparr>mg_provider := p\<rparr>) \<or>
     (\<exists>gid p g. target = Some gid \<and>
        m' = m\<lparr>mg_provider := p, mg_groups := hm_insert gid g (mg_groups m)\<rparr> \<and>
        (id_laws api \<and> mgr_keyed api m \<longrightarrow> om_group_id api g = gid))"

lemma call_effect_provider [simp]: "call_effect api target m (m\<lparr>mg_provider := p\<rparr>)"
  by (auto simp: call_effect_def)

lemma call_effect_refl [simp]: "call_effect api target m m"
  using call_effect_provider [of api target m "mg_provider m"] by simp

lemma call_effect_insert:
  "(id_laws api \<Longrightarrow> mgr_keyed api m \<Longrightarrow> om_group_id api g = gid) \<Longrightarrow>
   call_effect api (Some gid) m (m\<lparr>mg_provider := p, mg_groups := hm_insert gid g (mg_groups m)\<rparr>)"
  unfolding call_effect_def by blast

lemma with_group_effect:
  assumes "id_laws api \<Longrightarrow> keeps_id (om_group_id api) body"
  shows "call_effect api (Some gid) m (fst (with_group gid body m))"
proof (cases "map_of (mg_groups m) gid")
  case (Some g)
  obtain p' g' r where body: "body (mg_provider m, g) = ((p', g'), r)"
    by (metis surj_pair)
  have "om_group_id api g' = gid" if "id_laws api" "mgr_keyed api m"
  proof -
    have "om_group_id api (snd (fst (body (mg_provider m, g)))) = om_group_id api g"
      using assms [OF that(1)] by (simp add: keeps_id_def)
    then show ?thesis using that(2) Some body by (simp add: mgr_keyed_def)
  qed
  then show ?thesis using Some body by (simp add: with_group_known call_effect_insert)
qed simp

lemma create_group_effect:
  "mls_create_group api gid m = Ret (m', r) \<Longrightarrow> call_effect api (Some gid) m m'"
  by (auto simp: mls_create_group_def id_laws_def
      split: if_splits prod.splits option.splits intro!: call_effect_insert)

lemma process_welcome_effect:
  "mls_process_welcome api w m = (m', Ok gid) \<Longrightarrow> call_effect api (Some gid) m m'"
  "mls_process_welcome api w m = (m', Err e) \<Longrightarrow> call_effect api None m m'"
  by (auto simp: mls_process_welcome_def split: result.splits prod.splits intro!: call_effect_insert)

lemma mls_call_effect:
  assumes "mls_call api call m = Ret (m', r)"
  shows "call_effect api (call_target call r) m m'"
proof -
  note keep = bodies_keep_id keeps_id_bind keeps_id_content keeps_id_lift
  note effect = with_group_effect [where m = m and api = api]
  show ?thesis
  proof (cases call)
    case Generate_Key_Package
    then show ?thesis
      using assms by (auto simp: mls_generate_key_package_def reply_map_def split: prod.splits)
  next
    case (Create_Group gid)
    then show ?thesis using assms by (auto simp: reply_map_def intro: create_group_effect)
  next
    case (Process_Welcome w)
    then show ?thesis
      using assms by (cases "mls_process_welcome api w m"; cases "snd (mls_process_welcome api w m)")
        (auto simp: reply_map_def dest: process_welcome_effect)
  qed (use assms in \<open>auto simp: reply_map_def mls_add_member_def mls_remove_member_def
      mls_encrypt_def mls_decrypt_def mls_process_commit_def intro!: effect keep\<close>)
qed

lemma mls_call_frame:
  "mls_call api call m = Ret (m', r) \<Longrightarrow> mgr_frame (call_target call r) m m'"
  using mls_call_effect [of api call m m' r] by (auto simp: call_effect_def)

lemma mls_call_keyed:
  "id_laws api \<Longrightarrow> mgr_keyed api m \<Longrightarrow> mls_call api call m = Ret (m', r) \<Longrightarrow> mgr_keyed api m'"
  using mls_call_effect [of api call m m' r] by (auto simp: call_effect_def mgr_keyed_def split: if_splits)

section \<open>A library for the witnesses\<close>

text \<open>
  A stand-in for the library with the message flow of MLS and no secrets: a group is its id,
  its number of members and whether a commit is pending; messages are tagged bytes.
\<close>

record plain_group =
  pg_id :: bytes
  pg_members :: nat
  pg_pending :: nat

definition plain_openmls :: "(nat, bytes, unit, plain_group, bytes) openmls" where
  "plain_openmls =
     \<lparr>om_store_signer = (\<lambda>s p. (Suc p, Some ())),
      om_credential = (\<lambda>identity s. identity),
      om_build_key_package = (\<lambda>s c p. (Suc p, Some (0 # c))),
      om_tls_serialize = Some,
      om_build_group = (\<lambda>gid s c p. (Suc p, Some \<lparr>pg_id = gid, pg_members = 1, pg_pending = 1\<rparr>)),
      om_member_count = pg_members,
      om_parse_key_package = (\<lambda>b. if b = [] then None else Some b),
      om_validate_key_package = (\<lambda>k p. if hd k = 0 then Some k else None),
      om_add_members = (\<lambda>s ks (p, g).
        ((Suc p, g\<lparr>pg_pending := pg_members g + length ks\<rparr>), Some ([2], 3 # pg_id g))),
      om_remove_members = (\<lambda>s is (p, g).
        ((Suc p, g\<lparr>pg_pending := pg_members g - length is\<rparr>), Some [2])),
      om_merge_pending_commit = (\<lambda>(p, g). ((p, g\<lparr>pg_members := pg_pending g\<rparr>), Some ())),
      om_create_message = (\<lambda>s pt (p, g). ((Suc p, g), Some (1 # pt))),
      om_parse_message = (\<lambda>b. if b = [] then None else Some b),
      om_into_protocol = (\<lambda>m. if hd m = 3 then Err ''Welcome'' else Ok m),
      om_into_welcome = (\<lambda>m. if hd m = 3 then Some (tl m) else None),
      om_process_message = (\<lambda>m (p, g). ((Suc p, g),
        if hd m = 1 then Some (Application_Message (tl m))
        else if hd m = 2 then Some (Staged_Commit_Message m) else None)),
      om_merge_staged_commit = (\<lambda>c (p, g). ((p, g\<lparr>pg_members := pg_members g + 1\<rparr>), Some ())),
      om_stage_welcome = (\<lambda>w p. (Suc p, Some w)),
      om_into_group = (\<lambda>w p. (Suc p, Some \<lparr>pg_id = w, pg_members = 2, pg_pending = 2\<rparr>)),
      om_group_id = pg_id\<rparr>"

definition plain_manager :: "(nat, bytes, unit, plain_group) mls_manager" where
  "plain_manager =
     \<lparr>mg_provider = 5, mg_credential_with_key = [9], mg_signer = (),
      mg_groups = [([1], \<lparr>pg_id = [1], pg_members = 2, pg_pending = 2\<rparr>),
                   ([2], \<lparr>pg_id = [2], pg_members = 1000, pg_pending = 1000\<rparr>)]\<rparr>"

lemma plain_id_laws: "id_laws plain_openmls"
  by (auto simp: id_laws_def plain_openmls_def)

section \<open>Correctness\<close>

text \<open>
  The manager panics exactly on a group with an empty id and on a plaintext above 64 KB;
  every other call returns a value or an error.
\<close>

theorem mls_panics_exactly:
  "(\<exists>p. mls_call api call m = Panic p) \<longleftrightarrow>
     call = Create_Group [] \<or> (\<exists>gid pt. call = Encrypt gid pt \<and> 65536 < length pt)"
proof -
  have "(\<exists>p. mls_call api call m = Panic p) \<longleftrightarrow> call_panics call"
    using mls_call_panics [of api call m] by (cases "mls_call api call m") auto
  then show ?thesis by (cases call) auto
qed

text \<open>
  C20. Isolation: a call changes no group but its target, forgets no group, keeps the identity's
  signer and credential and the table's keys distinct, whatever the library does and also when
  it fails.
\<close>

theorem mls_isolation:
  assumes "mls_call api call m = Ret (m', r)"
  shows "mg_signer m' = mg_signer m \<and> mg_credential_with_key m' = mg_credential_with_key m \<and>
    (\<forall>gid. call_target call r \<noteq> Some gid \<longrightarrow>
      map_of (mg_groups m') gid = map_of (mg_groups m) gid) \<and>
    dom (map_of (mg_groups m)) \<subseteq> dom (map_of (mg_groups m')) \<and>
    (hm_ok (mg_groups m) \<longrightarrow> hm_ok (mg_groups m'))"
  using mls_call_frame [OF assms] by (simp add: mgr_frame_def)

theorem mls_isolation_witness:
  "\<exists>m' r. mls_call plain_openmls (Add_Member [1] [0, 7]) plain_manager = Ret (m', r) \<and>
     map_of (mg_groups m') [2] = map_of (mg_groups plain_manager) [2] \<and>
     map_of (mg_groups m') [1] \<noteq> map_of (mg_groups plain_manager) [1]"
proof -
  obtain m' r where call: "mls_call plain_openmls (Add_Member [1] [0, 7]) plain_manager = Ret (m', r)"
    by (auto simp: reply_map_def)
  moreover have "map_of (mg_groups m') [1] \<noteq> map_of (mg_groups plain_manager) [1]"
    using call by (auto simp: reply_map_def mls_add_member_def with_group_def add_member_body_eq
        plain_manager_def plain_openmls_def)
  ultimately show ?thesis
    using mls_isolation [OF call] by auto
qed

text \<open>
  C30. A refused request leaves no trace: a call on an unknown group, the creation of a group
  that exists, and an addition refused for the member limit or the key package (unknown group,
  full group, unreadable or invalid package) return their error with the manager unchanged.
\<close>

theorem mls_refusals_leave_no_trace:
  "(map_of (mg_groups m) gid = None \<longrightarrow>
     mls_add_member api gid kp m = (m, Err ''group not found'') \<and>
     mls_remove_member api gid i m = (m, Err ''group not found'') \<and>
     mls_decrypt api gid ct m = (m, Err ''group not found'') \<and>
     mls_process_commit api gid ct m = (m, Err ''group not found'') \<and>
     (length pt \<le> 65536 \<longrightarrow> mls_encrypt api gid pt m = Ret (m, Err ''group not found'')) \<and>
     mls_member_count api gid m = None) \<and>
   (gid \<noteq> [] \<and> map_of (mg_groups m) gid \<noteq> None \<longrightarrow>
     mls_create_group api gid m = Ret (m, Err ''group already exists'')) \<and>
   (\<forall>m' e. mls_add_member api gid kp m = (m', Err e) \<and> e \<in> early_add_errors \<longrightarrow> m' = m)"
proof (intro conjI impI allI)
  fix m' e
  assume err: "mls_add_member api gid kp m = (m', Err e) \<and> e \<in> early_add_errors"
  show "m' = m"
  proof (cases "map_of (mg_groups m) gid")
    case None
    then show ?thesis using err by (simp add: mls_add_member_def)
  next
    case (Some g)
    have late: "''failed to add member'' \<notin> early_add_errors"
      "''failed to merge pending commit'' \<notin> early_add_errors"
      "''TLS serialize failed'' \<notin> early_add_errors"
      by (simp_all add: early_add_errors_def)
    obtain st r where body: "add_member_body api (mg_signer m) kp (mg_provider m, g) = (st, r)"
      by (cases "add_member_body api (mg_signer m) kp (mg_provider m, g)")
    have r: "r = Err e" using err Some body by (cases st) (auto simp: mls_add_member_def with_group_known)
    have "st = (mg_provider m, g)"
      using body err late unfolding r add_member_body_eq to_bytes_def
      by (auto simp: result_bind_eq_Err split: if_splits option.splits prod.splits)
    then show ?thesis
      using err body r Some by (simp add: mls_add_member_def with_group_same)
  qed
qed (auto simp: mls_add_member_def mls_remove_member_def mls_decrypt_def mls_process_commit_def
    mls_encrypt_def mls_member_count_def mls_create_group_def MAX_MESSAGE_SIZE_def)

theorem mls_refusals_leave_no_trace_witness:
  "mls_create_group plain_openmls [1] plain_manager = Ret (plain_manager, Err ''group already exists'') \<and>
   mls_decrypt plain_openmls [3] [1, 2] plain_manager = (plain_manager, Err ''group not found'')"
  using mls_refusals_leave_no_trace [of plain_manager "[1]" plain_openmls "[]" 0 "[]" "[]"]
    mls_refusals_leave_no_trace [of plain_manager "[3]" plain_openmls "[]" 0 "[1, 2]" "[]"]
  by (simp add: plain_manager_def)

text \<open>
  The member limit of the adder: when the library's commit of one added member raises the
  count by one, a successful addition started below the limit and ends at or below it with one
  member more, and a group at the limit refuses every addition with its error, unchanged.
\<close>

theorem mls_member_limit:
  assumes "\<And>s v st st1 cw st2. om_add_members api s [v] st = (st1, Some cw) \<Longrightarrow>
      om_merge_pending_commit api st1 = (st2, Some ()) \<Longrightarrow>
      om_member_count api (snd st2) = om_member_count api (snd st) + 1"
    and "mls_member_count api gid m = Some n"
  shows "(\<forall>m' cw. mls_add_member api gid kp m = (m', Ok cw) \<longrightarrow>
      n < 1000 \<and> mls_member_count api gid m' = Some (n + 1)) \<and>
    (1000 \<le> n \<longrightarrow> mls_add_member api gid kp m =
      (m, Err (''group member limit ('' @ show_nat 1000 @ '') reached'')))"
proof (intro conjI allI impI)
  fix m' cw
  assume "mls_add_member api gid kp m = (m', Ok cw)"
  then show "n < 1000" "mls_member_count api gid m' = Some (n + 1)"
    using assms by (cases cw; auto elim!: add_member_Ok simp: mls_member_count_def)+
next
  assume "1000 \<le> n"
  moreover obtain g where "map_of (mg_groups m) gid = Some g" "om_member_count api g = n"
    using assms(2) by (auto simp: mls_member_count_def)
  ultimately show "mls_add_member api gid kp m =
      (m, Err (''group member limit ('' @ show_nat 1000 @ '') reached''))"
    by (simp add: mls_add_member_def with_group_same add_member_body_eq)
qed

theorem mls_member_limit_witness:
  "mls_add_member plain_openmls [2] [0, 7] plain_manager =
     (plain_manager, Err (''group member limit ('' @ show_nat 1000 @ '') reached''))"
proof -
  have "om_member_count plain_openmls (snd st2) = om_member_count plain_openmls (snd st) + 1"
    if "om_add_members plain_openmls s [v] st = (st1, Some cw)"
      "om_merge_pending_commit plain_openmls st1 = (st2, Some ())" for s v st st1 cw st2
    using that by (auto simp: plain_openmls_def split: prod.splits)
  moreover have "mls_member_count plain_openmls [2] plain_manager = Some 1000"
    by (simp add: mls_member_count_def plain_manager_def plain_openmls_def)
  ultimately show ?thesis using mls_member_limit [of plain_openmls "[2]" plain_manager 1000] by blast
qed

text \<open>
  A welcome replaces: when joining succeeds the group is filed under the id the library
  reports, whatever was there before, other groups untouched, and the outcome does not depend
  on the groups already held; unlike \<^verbatim>\<open>create_group\<close> there is no check for a group of
  that id, so the state of an existing one is lost.
\<close>

theorem mls_welcome_replaces:
  assumes "mls_process_welcome api w m = (m', Ok gid)"
  shows "\<exists>g. om_group_id api g = gid \<and>
    map_of (mg_groups m') = (map_of (mg_groups m))(gid \<mapsto> g) \<and>
    (\<forall>G. mls_process_welcome api w (m\<lparr>mg_groups := G\<rparr>) =
      (m'\<lparr>mg_groups := hm_insert gid g G\<rparr>, Ok gid))"
  using assms
  by (auto simp: mls_process_welcome_def split: result.splits prod.splits)

theorem mls_welcome_replaces_witness:
  "\<exists>m'. mls_process_welcome plain_openmls [3, 2] plain_manager = (m', Ok [2]) \<and>
     mls_member_count plain_openmls [2] plain_manager = Some 1000 \<and>
     mls_member_count plain_openmls [2] m' = Some 2"
proof -
  have join: "mls_process_welcome plain_openmls [3, 2] plain_manager =
      (plain_manager\<lparr>mg_provider := 7,
         mg_groups := hm_insert [2] \<lparr>pg_id = [2], pg_members = 2, pg_pending = 2\<rparr>
           (mg_groups plain_manager)\<rparr>, Ok [2])"
    by (simp add: mls_process_welcome_def plain_openmls_def plain_manager_def st_bind_context
        st_context_def)
  from mls_welcome_replaces [OF this] show ?thesis
    using join by (auto simp: mls_member_count_def plain_manager_def plain_openmls_def)
qed

end
