(* ===== verification/Mls_Typing.thy ===== *)
theory Mls_Typing
  imports Mls
begin

text \<open>
  Typing of the manager's calls. The interface of \<^verbatim>\<open>mls.rs\<close> promises each request a
  reply of its own shape, has two preconditions it asserts, and keeps a table of groups; the
  theorem is the soundness of these promises over whole sequences of calls: progress (a
  sequence that respects the preconditions runs to its end), typing of the replies, and
  preservation of the table's invariant.
\<close>

definition request_typed :: "mls_request \<Rightarrow> bool" where
  "request_typed q \<longleftrightarrow>
     (case q of Create_Group gid \<Rightarrow> gid \<noteq> [] | Encrypt gid pt \<Rightarrow> length pt \<le> 65536 | _ \<Rightarrow> True)"

fun reply_typed :: "mls_request \<Rightarrow> mls_reply \<Rightarrow> bool" where
  "reply_typed (Create_Group gid) a \<longleftrightarrow> a = Reply_Unit"
| "reply_typed (Process_Commit gid c) a \<longleftrightarrow> a = Reply_Unit"
| "reply_typed (Add_Member gid kp) a \<longleftrightarrow> (\<exists>c w. a = Reply_Pair c w)"
| "reply_typed _ a \<longleftrightarrow> (\<exists>b. a = Reply_Bytes b)"

definition result_typed :: "mls_request \<Rightarrow> (string, mls_reply) result \<Rightarrow> bool" where
  "result_typed q r \<longleftrightarrow> (case r of Err e \<Rightarrow> True | Ok a \<Rightarrow> reply_typed q a)"

definition manager_typed :: "('p, 'c, 's, 'g, 'o) openmls \<Rightarrow> ('p, 'c, 's, 'g) mls_manager \<Rightarrow> bool" where
  "manager_typed api m \<longleftrightarrow> hm_ok (mg_groups m) \<and> mgr_keyed api m"

fun mls_calls ::
  "('p, 'c, 's, 'g, 'o) openmls \<Rightarrow> mls_request list \<Rightarrow> ('p, 'c, 's, 'g) mls_manager \<Rightarrow>
   (('p, 'c, 's, 'g) mls_manager \<times> (string, mls_reply) result list) exec" where
  "mls_calls api [] m = Ret (m, [])"
| "mls_calls api (q # qs) m =
     exec_bind (mls_call api q m) (\<lambda>(m', r).
       exec_bind (mls_calls api qs m') (\<lambda>(m'', rs). Ret (m'', r # rs)))"

lemma request_typed_iff: "request_typed q \<longleftrightarrow> \<not> call_panics q"
  by (cases q) (auto simp: request_typed_def)

lemma result_typed_bind:
  "(\<And>a. reply_typed q (f a)) \<Longrightarrow> result_typed q (result_bind x (\<lambda>a. Ok (f a)))"
  by (cases x) (simp_all add: result_typed_def)

lemma mls_call_result_typed: "mls_call api q m = Ret (m', r) \<Longrightarrow> result_typed q r"
  by (cases q) (auto simp: reply_map_def intro!: result_typed_bind)

lemma mls_call_typed:
  assumes "id_laws api" "manager_typed api m" "request_typed q"
  obtains m' r where "mls_call api q m = Ret (m', r)" "manager_typed api m'" "result_typed q r"
proof -
  obtain m' r where call: "mls_call api q m = Ret (m', r)"
    using assms(3) mls_call_panics [of api q m] by (auto simp: request_typed_iff is_ret_iff)
  moreover have "manager_typed api m'"
    using mls_call_frame [OF call] mls_call_keyed [OF assms(1) _ call] assms(2)
    by (simp add: manager_typed_def mgr_frame_def)
  ultimately show ?thesis using that mls_call_result_typed by blast
qed

lemma mls_calls_typed:
  assumes "id_laws api" "manager_typed api m" "list_all request_typed qs"
  shows "\<exists>m' rs. mls_calls api qs m = Ret (m', rs) \<and> manager_typed api m' \<and>
    list_all2 result_typed qs rs"
  using assms(2,3)
proof (induction qs arbitrary: m)
  case (Cons q qs)
  obtain m1 r where one: "mls_call api q m = Ret (m1, r)" "manager_typed api m1" "result_typed q r"
    using mls_call_typed [OF assms(1) Cons.prems(1)] Cons.prems(2) by auto
  with Cons.IH [OF one(2)] Cons.prems(2) show ?case by auto
qed simp

section \<open>Correctness\<close>

text \<open>
  C13. Well-typed sequences of calls do not go wrong: when no request creates a group with an empty
  id or encrypts more than 64 KB, every call of the sequence returns, each reply is an error or
  has the shape its request promises (a commit and a welcome for an addition, nothing for a
  creation or a commit, bytes otherwise), and the table of groups keeps its keys distinct and
  each group under its own id; and a sequence panics exactly when a request breaks its
  precondition.
\<close>

theorem mls_type_soundness:
  assumes "id_laws api" "hm_ok (mg_groups m)"
    and "\<forall>gid g. map_of (mg_groups m) gid = Some g \<longrightarrow> om_group_id api g = gid"
    and "list_all request_typed qs" "\<not> request_typed bad"
  shows "\<exists>m' rs. mls_calls api qs m = Ret (m', rs) \<and> list_all2 result_typed qs rs \<and>
    hm_ok (mg_groups m') \<and>
    (\<forall>gid g. map_of (mg_groups m') gid = Some g \<longrightarrow> om_group_id api g = gid) \<and>
    (\<exists>p. mls_calls api (qs @ bad # later) m = Panic p)"
proof -
  have "manager_typed api m" using assms(2,3) by (simp add: manager_typed_def mgr_keyed_def)
  from mls_calls_typed [OF assms(1) this assms(4)] obtain m' rs
    where run: "mls_calls api qs m = Ret (m', rs)" "list_all2 result_typed qs rs" "manager_typed api m'"
    by blast
  obtain p where bad: "mls_call api bad m' = Panic p"
    using assms(5) mls_call_panics [of api bad m'] by (cases "mls_call api bad m'") (auto simp: request_typed_iff)
  have "mls_calls api (qs @ bad # later) m = Panic p" if "mls_calls api qs m = Ret (m', rs)"
    using that
  proof (induction qs arbitrary: m rs)
    case Nil
    then show ?case by (simp add: bad)
  next
    case (Cons q qs)
    then show ?case by (fastforce simp: exec_bind_eq_Panic split: prod.splits)
  qed
  then show ?thesis using run by (auto simp: manager_typed_def mgr_keyed_def)
qed

theorem mls_type_soundness_witness:
  "\<exists>m' rs. mls_calls plain_openmls [Add_Member [1] [0, 7], Encrypt [1] [9], Process_Welcome [5]] plain_manager =
       Ret (m', rs) \<and>
     list_all2 result_typed [Add_Member [1] [0, 7], Encrypt [1] [9], Process_Welcome [5]] rs \<and>
     (\<exists>p. mls_calls plain_openmls [Add_Member [1] [0, 7], Encrypt [1] [9], Process_Welcome [5],
        Create_Group []] plain_manager = Panic p)"
proof -
  have "hm_ok (mg_groups plain_manager)" by (simp add: plain_manager_def hm_ok_def)
  moreover have "\<forall>gid g. map_of (mg_groups plain_manager) gid = Some g \<longrightarrow>
      om_group_id plain_openmls g = gid"
    by (auto simp: plain_manager_def plain_openmls_def split: if_splits)
  ultimately show ?thesis
    using mls_type_soundness [OF plain_id_laws, of plain_manager
        "[Add_Member [1] [0, 7], Encrypt [1] [9], Process_Welcome [5]]" "Create_Group []" "[]"]
    by (simp add: request_typed_def del: mls_calls.simps) blast
qed

end
