(* ===== verification/Mls_Group.thy ===== *)
theory Mls_Group
  imports Mls
begin

text \<open>
  The managers of all members of a group together, as the clients run them: a member encrypts
  and every other decrypts; a member adds a new one from its key package, the others process
  the commit and the new one the welcome; a member removes another and the rest process the
  commit. What MLS promises the members of an epoch is \<open>mls_laws\<close> of the library; what is
  shown is that the managers, with their tables, limits and error paths, carry it through.
\<close>

section \<open>What the library promises\<close>

text \<open>
  \<open>epoch ms\<close>: the members \<open>ms\<close>, each with its signer, provider and group state, are
  in the same epoch of a group and have processed the same messages. \<open>outside ms x\<close>: the
  provider and group state \<open>x\<close> is that of a former member, which holds none of the keys of
  this epoch. A message one of the members creates reaches every other one and no one outside.
\<close>

type_synonym ('p, 's, 'g) mls_member = "'s \<times> 'p \<times> 'g"

text \<open>The members \<open>js\<close> with their new states \<open>f\<close>.\<close>

definition next_members ::
  "('p, 's, 'g) mls_member list \<Rightarrow> nat list \<Rightarrow> (nat \<Rightarrow> 'p \<times> 'g) \<Rightarrow> ('p, 's, 'g) mls_member list" where
  "next_members ms js f = map (\<lambda>j. (fst (ms ! j), f j)) js"

definition sealed ::
  "('p, 'c, 's, 'g, 'o) openmls \<Rightarrow> (('p, 's, 'g) mls_member list \<Rightarrow> 'p \<times> 'g \<Rightarrow> bool) \<Rightarrow> 'o \<Rightarrow>
   ('p, 's, 'g) mls_member list \<Rightarrow> ('p, 's, 'g) mls_member list \<Rightarrow> bool" where
  "sealed api outside prot ms ms' \<longleftrightarrow>
     (\<forall>x. outside ms x \<longrightarrow> (\<exists>x'. om_process_message api prot x = (x', None) \<and> outside ms' x'))"

definition create_law ::
  "('p, 'c, 's, 'g, 'o) openmls \<Rightarrow> bytes \<Rightarrow> (('p, 's, 'g) mls_member list \<Rightarrow> bool) \<Rightarrow> ('g \<Rightarrow> u32) \<Rightarrow> bool" where
  "create_law api gid epoch leaf \<longleftrightarrow>
     (\<forall>s c p p' g. om_build_group api gid s c p = (p', Some g) \<longrightarrow> epoch [(s, p', g)] \<and> leaf g = 0)"

definition roster_law ::
  "('p, 'c, 's, 'g, 'o) openmls \<Rightarrow> bytes \<Rightarrow> (('p, 's, 'g) mls_member list \<Rightarrow> bool) \<Rightarrow> bool" where
  "roster_law api gid epoch \<longleftrightarrow>
     (\<forall>ms s p g. epoch ms \<longrightarrow> (s, p, g) \<in> set ms \<longrightarrow>
       om_member_count api g = length ms \<and> om_group_id api g = gid)"

text \<open>A member keeps its leaf, its index in the tree of the group, as long as it is a member.\<close>

definition keeps_leaves :: "('g \<Rightarrow> u32) \<Rightarrow> ('p, 's, 'g) mls_member list \<Rightarrow> (nat \<Rightarrow> 'p \<times> 'g) \<Rightarrow> bool" where
  "keeps_leaves leaf ms f \<longleftrightarrow> (\<forall>j < length ms. leaf (snd (f j)) = leaf (snd (snd (ms ! j))))"

definition send_law ::
  "('p, 'c, 's, 'g, 'o) openmls \<Rightarrow> (('p, 's, 'g) mls_member list \<Rightarrow> bool) \<Rightarrow>
   (('p, 's, 'g) mls_member list \<Rightarrow> 'p \<times> 'g \<Rightarrow> bool) \<Rightarrow> ('g \<Rightarrow> u32) \<Rightarrow> bool" where
  "send_law api epoch outside leaf \<longleftrightarrow>
     (\<forall>ms i s st pt. epoch ms \<longrightarrow> i < length ms \<longrightarrow> ms ! i = (s, st) \<longrightarrow>
       (\<exists>msg ct msg_in prot f.
          om_create_message api s pt st = (f i, Some msg) \<and> om_tls_serialize api msg = Some ct \<and>
          om_parse_message api ct = Some msg_in \<and> om_into_protocol api msg_in = Ok prot \<and>
          (\<forall>j < length ms. j \<noteq> i \<longrightarrow>
             om_process_message api prot (snd (ms ! j)) = (f j, Some (Application_Message pt))) \<and> keeps_leaves leaf ms f \<and>
          epoch (next_members ms [0..<length ms] f) \<and>
          sealed api outside prot ms (next_members ms [0..<length ms] f)))"

text \<open>
  A commit that the member \<open>i\<close> made reaches the members \<open>js\<close>, which merge it into the
  states \<open>f\<close>.
\<close>

definition commit_reaches ::
  "('p, 'c, 's, 'g, 'o) openmls \<Rightarrow> 'o \<Rightarrow> ('p, 's, 'g) mls_member list \<Rightarrow> nat set \<Rightarrow> (nat \<Rightarrow> 'p \<times> 'g) \<Rightarrow> bool" where
  "commit_reaches api prot ms js f \<longleftrightarrow>
     (\<forall>j. \<exists>staged_at sc. j < length ms \<longrightarrow> j \<in> js \<longrightarrow>
        om_process_message api prot (snd (ms ! j)) = (staged_at, Some (Staged_Commit_Message sc)) \<and>
        om_merge_staged_commit api sc staged_at = (f j, Some ()))"

text \<open>
  Right after a commit the members bear the loss of a message: one that only the members
  \<open>R\<close> process leaves all of them in the same epoch.
\<close>

definition bears_loss ::
  "('p, 'c, 's, 'g, 'o) openmls \<Rightarrow> (('p, 's, 'g) mls_member list \<Rightarrow> bool) \<Rightarrow>
   (('p, 's, 'g) mls_member list \<Rightarrow> 'p \<times> 'g \<Rightarrow> bool) \<Rightarrow> ('g \<Rightarrow> u32) \<Rightarrow> ('p, 's, 'g) mls_member list \<Rightarrow> bool" where
  "bears_loss api epoch outside leaf ms \<longleftrightarrow>
     (\<forall>i s st pt R. i < length ms \<longrightarrow> ms ! i = (s, st) \<longrightarrow>
       (\<exists>msg ct msg_in prot f.
          om_create_message api s pt st = (f i, Some msg) \<and> om_tls_serialize api msg = Some ct \<and>
          om_parse_message api ct = Some msg_in \<and> om_into_protocol api msg_in = Ok prot \<and>
          (\<forall>j < length ms. j \<noteq> i \<longrightarrow>
             om_process_message api prot (snd (ms ! j)) = (f j, Some (Application_Message pt))) \<and>
          keeps_leaves leaf ms f \<and>
          (let ms' = next_members ms [0..<length ms] (\<lambda>j. if j = i \<or> j \<in> R then f j else snd (ms ! j))
           in epoch ms' \<and> (\<forall>x. outside ms x \<longrightarrow> outside ms' x))))"

text \<open>
  The leaf of the creator is 0, that of a new member the leftmost free one. A key package that a client has just built is still valid and
  any member can add its client, who is not in the group and whose welcome makes it a member.
\<close>

definition free_leaf :: "u32 list \<Rightarrow> u32" where
  "free_leaf ls = of_nat (length (takeWhile (\<lambda>n. of_nat n \<in> set ls) [0..<length ls]))"

definition fresh_joins ::
  "('p, 'c, 's, 'g, 'o) openmls \<Rightarrow> ('p, 's, 'g) mls_member list \<Rightarrow> 's \<Rightarrow> 'p \<Rightarrow> 'o \<Rightarrow> bool" where
  "fresh_joins api ms s q kp \<longleftrightarrow>
     length ms < 1000 \<and> s \<notin> fst ` set ms \<and> (\<exists>c p. om_build_key_package api s c p = (q, Some kp))"

definition add_law ::
  "('p, 'c, 's, 'g, 'o) openmls \<Rightarrow> (('p, 's, 'g) mls_member list \<Rightarrow> bool) \<Rightarrow>
   (('p, 's, 'g) mls_member list \<Rightarrow> 'p \<times> 'g \<Rightarrow> bool) \<Rightarrow> ('g \<Rightarrow> u32) \<Rightarrow> bool" where
  "add_law api epoch outside leaf \<longleftrightarrow>
     (\<forall>ms i s p g sb q kp kpb. epoch ms \<longrightarrow> i < length ms \<longrightarrow> ms ! i = (s, p, g) \<longrightarrow>
       fresh_joins api ms sb q kp \<longrightarrow> om_tls_serialize api kp = Some kpb \<longrightarrow>
       (\<exists>kp_in kpv st1 c w cb wb m wel q1 staged q2 h msg_in prot f.
          om_parse_key_package api kpb = Some kp_in \<and> om_validate_key_package api kp_in p = Some kpv \<and>
          om_add_members api s [kpv] (p, g) = (st1, Some (c, w)) \<and>
          om_merge_pending_commit api st1 = (f i, Some ()) \<and>
          om_tls_serialize api c = Some cb \<and> om_tls_serialize api w = Some wb \<and>
          om_parse_message api wb = Some m \<and> om_into_welcome api m = Some wel \<and>
          om_stage_welcome api wel q = (q1, Some staged) \<and> om_into_group api staged q1 = (q2, Some h) \<and>
          leaf h = free_leaf (map (leaf \<circ> snd \<circ> snd) ms) \<and>
          om_parse_message api cb = Some msg_in \<and> om_into_protocol api msg_in = Ok prot \<and>
          commit_reaches api prot ms (- {i}) f \<and> keeps_leaves leaf ms f \<and>
          epoch (next_members ms [0..<length ms] f @ [(sb, q2, h)]) \<and>
          bears_loss api epoch outside leaf (next_members ms [0..<length ms] f @ [(sb, q2, h)]) \<and>
          sealed api outside prot ms (next_members ms [0..<length ms] f @ [(sb, q2, h)])))"

text \<open>
  Any member can remove another by its leaf. The removed one is outside from then on, whether or
  not it learns of its removal by processing the commit.
\<close>

definition remove_law ::
  "('p, 'c, 's, 'g, 'o) openmls \<Rightarrow> (('p, 's, 'g) mls_member list \<Rightarrow> bool) \<Rightarrow>
   (('p, 's, 'g) mls_member list \<Rightarrow> 'p \<times> 'g \<Rightarrow> bool) \<Rightarrow> ('g \<Rightarrow> u32) \<Rightarrow> bool" where
  "remove_law api epoch outside leaf \<longleftrightarrow>
     (\<forall>ms i k s st. epoch ms \<longrightarrow> i < length ms \<longrightarrow> k < length ms \<longrightarrow> i \<noteq> k \<longrightarrow> ms ! i = (s, st) \<longrightarrow>
       (\<exists>st1 c cb msg_in prot f.
          om_remove_members api s [leaf (snd (snd (ms ! k)))] st = (st1, Some c) \<and>
          om_merge_pending_commit api st1 = (f i, Some ()) \<and> om_tls_serialize api c = Some cb \<and>
          om_parse_message api cb = Some msg_in \<and> om_into_protocol api msg_in = Ok prot \<and>
          commit_reaches api prot ms (- {i}) f \<and> keeps_leaves leaf ms f \<and>
          (let ms' = next_members ms [j \<leftarrow> [0..<length ms]. j \<noteq> k] f
           in epoch ms' \<and> outside ms' (snd (ms ! k)) \<and> outside ms' (f k) \<and>
             sealed api outside prot ms ms')))"

definition mls_laws ::
  "('p, 'c, 's, 'g, 'o) openmls \<Rightarrow> bytes \<Rightarrow> (('p, 's, 'g) mls_member list \<Rightarrow> bool) \<Rightarrow>
   (('p, 's, 'g) mls_member list \<Rightarrow> 'p \<times> 'g \<Rightarrow> bool) \<Rightarrow> ('g \<Rightarrow> u32) \<Rightarrow> bool" where
  "mls_laws api gid epoch outside leaf \<longleftrightarrow>
     create_law api gid epoch leaf \<and> roster_law api gid epoch \<and> send_law api epoch outside leaf \<and>
     add_law api epoch outside leaf \<and> remove_law api epoch outside leaf"

lemma mls_lawsD:
  assumes "mls_laws api gid epoch outside leaf"
  shows "create_law api gid epoch leaf" "roster_law api gid epoch" "send_law api epoch outside leaf"
    "add_law api epoch outside leaf" "remove_law api epoch outside leaf"
  using assms by (simp_all add: mls_laws_def)

section \<open>The clients\<close>

definition member_of :: "bytes \<Rightarrow> ('p, 'c, 's, 'g) mls_manager \<Rightarrow> ('p, 's, 'g) mls_member" where
  "member_of gid a = (mg_signer a, mg_provider a, the (map_of (mg_groups a) gid))"

definition knows_group :: "bytes \<Rightarrow> ('p, 'c, 's, 'g) mls_manager \<Rightarrow> bool" where
  "knows_group gid a \<longleftrightarrow> map_of (mg_groups a) gid \<noteq> None"

text \<open>The managers \<open>as\<close> of the members of a group, and \<open>xs\<close> of those who were.\<close>

definition mls_session ::
  "(('p, 's, 'g) mls_member list \<Rightarrow> bool) \<Rightarrow> (('p, 's, 'g) mls_member list \<Rightarrow> 'p \<times> 'g \<Rightarrow> bool) \<Rightarrow>
   bytes \<Rightarrow> ('p, 'c, 's, 'g) mls_manager list \<Rightarrow> ('p, 'c, 's, 'g) mls_manager list \<Rightarrow> bool" where
  "mls_session epoch outside gid as xs \<longleftrightarrow>
     (\<forall>a \<in> set as. knows_group gid a) \<and> epoch (map (member_of gid) as) \<and>
     (\<forall>x \<in> set xs. knows_group gid x \<and> outside (map (member_of gid) as) (snd (member_of gid x)))"

text \<open>The manager with a new provider and state of its group.\<close>

definition set_member ::
  "bytes \<Rightarrow> ('p, 'c, 's, 'g) mls_manager \<Rightarrow> 'p \<times> 'g \<Rightarrow> ('p, 'c, 's, 'g) mls_manager" where
  "set_member gid a st =
     a\<lparr>mg_provider := fst st, mg_groups := hm_insert gid (snd st) (mg_groups a)\<rparr>"

lemma member_of_set_member [simp]: "member_of gid (set_member gid a st) = (mg_signer a, st)"
  by (simp add: member_of_def set_member_def)

lemma set_member_signer [simp]: "mg_signer (set_member gid a st) = mg_signer a"
  by (simp add: set_member_def)

lemma set_member_knows [simp]: "knows_group gid (set_member gid a st)"
  by (simp add: set_member_def knows_group_def)

text \<open>The leaf of a client, and that a client is still the same member.\<close>

definition leaf_at :: "('g \<Rightarrow> u32) \<Rightarrow> bytes \<Rightarrow> ('p, 'c, 's, 'g) mls_manager \<Rightarrow> u32" where
  "leaf_at leaf gid a = leaf (snd (snd (member_of gid a)))"

definition same_member ::
  "('g \<Rightarrow> u32) \<Rightarrow> bytes \<Rightarrow> ('p, 'c, 's, 'g) mls_manager \<Rightarrow> ('p, 'c, 's, 'g) mls_manager \<Rightarrow> bool" where
  "same_member leaf gid a d \<longleftrightarrow> mg_signer d = mg_signer a \<and> leaf_at leaf gid d = leaf_at leaf gid a"

lemma same_members:
  assumes "keeps_leaves leaf (map (member_of gid) as) f"
  shows "\<forall>j < length as. same_member leaf gid (as ! j) (set_member gid (as ! j) (f j))"
  using assms by (simp add: keeps_leaves_def same_member_def leaf_at_def)

lemma snd_member_of: "snd (member_of gid a) = (mg_provider a, the (map_of (mg_groups a) gid))"
  by (simp add: member_of_def)

lemma fst_members: "fst ` set (map (member_of gid) as) = mg_signer ` set as"
  by (simp add: image_image member_of_def)

lemma member_at:
  assumes "mls_session epoch outside gid as xs" "j < length as"
  shows "map_of (mg_groups (as ! j)) gid = Some (snd (snd (member_of gid (as ! j))))"
    "map (member_of gid) as ! j = (mg_signer (as ! j), mg_provider (as ! j), snd (snd (member_of gid (as ! j))))"
  using assms by (auto simp: mls_session_def knows_group_def member_of_def)

text \<open>The members \<open>js\<close> move to the states \<open>f\<close>.\<close>

lemma members_set_member:
  assumes "\<forall>j \<in> set js. j < length as"
  shows "map (member_of gid) (map (\<lambda>j. set_member gid (as ! j) (f j)) js) =
    next_members (map (member_of gid) as) js f"
  using assms by (auto simp: next_members_def member_of_def [of gid "as ! _"])

lemma session_update:
  assumes "epoch (next_members (map (member_of gid) as) js f @ map (member_of gid) bs)"
    and "\<forall>b \<in> set bs. knows_group gid b" "\<forall>j \<in> set js. j < length as"
    and "\<forall>x \<in> set xs. knows_group gid x \<and>
      outside (next_members (map (member_of gid) as) js f @ map (member_of gid) bs) (snd (member_of gid x))"
  shows "mls_session epoch outside gid (map (\<lambda>j. set_member gid (as ! j) (f j)) js @ bs) xs"
proof -
  have "map (member_of gid) (map (\<lambda>j. set_member gid (as ! j) (f j)) js @ bs) =
      next_members (map (member_of gid) as) js f @ map (member_of gid) bs"
    unfolding map_append members_set_member [OF assms(3)] ..
  then show ?thesis using assms(1,2,4) unfolding mls_session_def by (auto simp del: map_append)
qed

text \<open>Whoever is outside gets an error from any message of the members and stays outside.\<close>

lemma outsiders_refuse:
  assumes "sealed api outside prot ms ms'"
    and "\<forall>x \<in> set xs. knows_group gid x \<and> outside ms (snd (member_of gid x))"
    and "om_parse_message api b = Some msg_in" "om_into_protocol api msg_in = Ok prot"
  obtains es where
    "\<forall>x \<in> set xs. mls_decrypt api gid b x = (es x, Err ''failed to process MLS message'')"
    "\<forall>x \<in> set xs. mls_process_commit api gid b x = (es x, Err ''failed to process commit'')"
    "\<forall>x \<in> set xs. knows_group gid (es x) \<and> outside ms' (snd (member_of gid (es x)))"
proof -
  have "\<forall>x \<in> set xs. \<exists>x'. om_process_message api prot (snd (member_of gid x)) = (x', None) \<and> outside ms' x'"
    using assms(1,2) unfolding sealed_def by blast
  then obtain h where h: "\<forall>x \<in> set xs. om_process_message api prot (snd (member_of gid x)) = (h x, None)"
    "\<forall>x \<in> set xs. outside ms' (h x)"
    by metis
  let ?es = "\<lambda>x. set_member gid x (h x)"
  have refused: "mls_decrypt api gid b x = (?es x, Err ''failed to process MLS message'') \<and>
      mls_process_commit api gid b x = (?es x, Err ''failed to process commit'')" if x: "x \<in> set xs" for x
  proof -
    obtain g where g: "map_of (mg_groups x) gid = Some g"
      using assms(2) x unfolding knows_group_def by blast
    then have p: "om_process_message api prot (mg_provider x, g) = (h x, None)"
      using h(1) x by (force simp: member_of_def)
    have "receive_protocol api c1 c2 b (mg_provider x, g) = (h x, Err c2)" for c1 c2
      using assms(3,4) p by (simp add: receive_protocol_def st_bind_def st_lift_def st_context_def)
    then show ?thesis
      using g by (simp add: mls_decrypt_def mls_process_commit_def with_group_def st_bind_def
          set_member_def case_prod_beta)
  qed
  show ?thesis
    by (rule that [of ?es]) (use refused h(2) in simp_all)
qed

lemma members_commit:
  assumes "mls_session epoch outside gid as xs" "commit_reaches api prot (map (member_of gid) as) js f"
    and "om_parse_message api cb = Some msg_in" "om_into_protocol api msg_in = Ok prot"
    and "j < length as" "j \<in> js"
  shows "mls_process_commit api gid cb (as ! j) = (set_member gid (as ! j) (f j), Ok ())"
proof -
  obtain staged_at sc where
    "om_process_message api prot (snd (map (member_of gid) as ! j)) = (staged_at, Some (Staged_Commit_Message sc))"
    "om_merge_staged_commit api sc staged_at = (f j, Some ())"
    using assms(2,5,6) unfolding commit_reaches_def by (metis length_map)
  then show ?thesis
    using process_commit_Ok [OF member_at(1) [OF assms(1,5)] assms(3,4), of staged_at sc "fst (f j)" "snd (f j)"]
      member_at(2) [OF assms(1,5)]
    by (simp add: set_member_def)
qed

lemma members_read:
  assumes "mls_session epoch outside gid as xs"
    and "om_parse_message api ct = Some msg_in" "om_into_protocol api msg_in = Ok prot"
    and "\<forall>j < length as. j \<noteq> i \<longrightarrow>
      om_process_message api prot (snd (map (member_of gid) as ! j)) = (f j, Some (Application_Message pt))"
  shows "\<forall>j < length as. j \<noteq> i \<longrightarrow> mls_decrypt api gid ct (as ! j) = (set_member gid (as ! j) (f j), Ok pt)"
proof (intro allI impI)
  fix j assume j: "j < length as" "j \<noteq> i"
  show "mls_decrypt api gid ct (as ! j) = (set_member gid (as ! j) (f j), Ok pt)"
    using decrypt_Ok [OF member_at(1) [OF assms(1) j(1)] assms(2,3), of "fst (f j)" "snd (f j)" pt]
      assms(4) [rule_format, of j] j member_at(2) [OF assms(1) j(1)]
    by (simp add: set_member_def)
qed

section \<open>One call after the other\<close>

text \<open>A message of a member: the call that encrypts it, and what everybody else gets from it.\<close>

lemma session_say:
  assumes law: "send_law api epoch outside leaf" and session: "mls_session epoch outside gid as xs"
    and i: "i < length as" and size: "length pt \<le> 65536"
  obtains ct ds es where
    "mls_encrypt api gid pt (as ! i) = Ret (ds i, Ok ct)"
    "\<forall>j < length as. j \<noteq> i \<longrightarrow> mls_decrypt api gid ct (as ! j) = (ds j, Ok pt)"
    "\<forall>x \<in> set xs. mls_decrypt api gid ct x = (es x, Err ''failed to process MLS message'')"
    "\<forall>j < length as. same_member leaf gid (as ! j) (ds j)"
    "mls_session epoch outside gid (map ds [0..<length as]) (map es xs)"
proof -
  let ?ms = "map (member_of gid) as"
  have epoch: "epoch ?ms" "i < length ?ms" using session i by (simp_all add: mls_session_def)
  from law [unfolded send_law_def, rule_format, OF this member_at(2) [OF session i], of pt]
  obtain msg ct msg_in prot f where
    send: "om_create_message api (mg_signer (as ! i)) pt (mg_provider (as ! i), snd (snd (member_of gid (as ! i)))) =
        (f i, Some msg)" "om_tls_serialize api msg = Some ct" and
    parse: "om_parse_message api ct = Some msg_in" "om_into_protocol api msg_in = Ok prot" and
    read: "\<forall>j < length ?ms. j \<noteq> i \<longrightarrow>
      om_process_message api prot (snd (?ms ! j)) = (f j, Some (Application_Message pt))" and
    leaves: "keeps_leaves leaf ?ms f" and
    next_epoch: "epoch (next_members ?ms [0..<length ?ms] f)"
      "sealed api outside prot ?ms (next_members ?ms [0..<length ?ms] f)"
    by (elim exE conjE) (rule that)
  let ?ds = "\<lambda>j. set_member gid (as ! j) (f j)"
  have "\<forall>x \<in> set xs. knows_group gid x \<and> outside ?ms (snd (member_of gid x))"
    using session by (simp add: mls_session_def)
  from outsiders_refuse [OF next_epoch(2) this parse]
  obtain es where es: "\<forall>x \<in> set xs. mls_decrypt api gid ct x = (es x, Err ''failed to process MLS message'')"
    "\<forall>x \<in> set xs. knows_group gid (es x) \<and>
      outside (next_members ?ms [0..<length ?ms] f) (snd (member_of gid (es x)))" by metis
  have "mls_encrypt api gid pt (as ! i) = Ret (?ds i, Ok ct)"
    using encrypt_Ok [OF member_at(1) [OF session i] size, of api "fst (f i)" "snd (f i)" msg ct] send
    by (simp add: set_member_def)
  moreover have "\<forall>j < length as. j \<noteq> i \<longrightarrow> mls_decrypt api gid ct (as ! j) = (?ds j, Ok pt)"
    by (rule members_read [OF session parse]) (use read in simp)
  moreover have "mls_session epoch outside gid (map ?ds [0..<length as]) (map es xs)"
    using session_update [of epoch gid as "[0..<length as]" f "[]" "map es xs" outside] next_epoch(1) es(2)
    by simp
  ultimately show ?thesis using es(1) same_members [OF leaves] by (intro that [of ?ds]) simp_all
qed

text \<open>An invitation: the client \<open>b\<close> has made the key package, its welcome makes it \<open>b'\<close>.\<close>

lemma session_invite:
  assumes law: "add_law api epoch outside leaf" "roster_law api gid epoch"
    and session: "mls_session epoch outside gid as xs" and i: "i < length as" and room: "length as < 1000"
    and kp: "mls_generate_key_package api b0 = (b, Ok kpb)" and fresh: "mg_signer b0 \<notin> mg_signer ` set as"
  obtains cb wb b' ds es where
    "mls_add_member api gid kpb (as ! i) = (ds i, Ok (cb, wb))"
    "mls_process_welcome api wb b = (b', Ok gid)"
    "\<forall>j < length as. j \<noteq> i \<longrightarrow> mls_process_commit api gid cb (as ! j) = (ds j, Ok ())"
    "\<forall>x \<in> set xs. mls_process_commit api gid cb x = (es x, Err ''failed to process commit'')"
    "\<forall>j < length as. same_member leaf gid (as ! j) (ds j)" "mg_signer b' = mg_signer b0"
    "mls_session epoch outside gid (map ds [0..<length as] @ [b']) (map es xs)"
    "leaf_at leaf gid b' = free_leaf (map (leaf_at leaf gid) as)"
    "bears_loss api epoch outside leaf (map (member_of gid) (map ds [0..<length as] @ [b']))"
proof -
  let ?ms = "map (member_of gid) as"
  obtain q kp where kp': "om_build_key_package api (mg_signer b0) (mg_credential_with_key b0) (mg_provider b0) =
      (q, Some kp)" "om_tls_serialize api kp = Some kpb" "b = b0\<lparr>mg_provider := q\<rparr>"
    using kp by (auto simp: mls_generate_key_package_def to_bytes_def split: prod.splits)
  have joins: "fresh_joins api ?ms (mg_signer b0) q kp"
    unfolding fresh_joins_def fst_members using kp'(1) fresh room by auto
  have epoch: "epoch ?ms" "i < length ?ms" using session i by (simp_all add: mls_session_def)
  from law(1) [unfolded add_law_def, rule_format, OF this member_at(2) [OF session i] joins kp'(2)]
  obtain kp_in kpv st1 c w cb wb m wel q1 staged q2 h msg_in prot f where
    add: "om_parse_key_package api kpb = Some kp_in"
      "om_validate_key_package api kp_in (mg_provider (as ! i)) = Some kpv"
      "om_add_members api (mg_signer (as ! i)) [kpv] (mg_provider (as ! i), snd (snd (member_of gid (as ! i)))) =
        (st1, Some (c, w))" "om_merge_pending_commit api st1 = (f i, Some ())"
      "om_tls_serialize api c = Some cb" "om_tls_serialize api w = Some wb" and
    join: "om_parse_message api wb = Some m" "om_into_welcome api m = Some wel"
      "om_stage_welcome api wel q = (q1, Some staged)" "om_into_group api staged q1 = (q2, Some h)" and
    leaf: "leaf h = free_leaf (map (leaf \<circ> snd \<circ> snd) ?ms)" and
    parse: "om_parse_message api cb = Some msg_in" "om_into_protocol api msg_in = Ok prot" and
    commit: "commit_reaches api prot ?ms (- {i}) f" and leaves: "keeps_leaves leaf ?ms f" and
    next_epoch: "epoch (next_members ?ms [0..<length ?ms] f @ [(mg_signer b0, q2, h)])"
      "bears_loss api epoch outside leaf (next_members ?ms [0..<length ?ms] f @ [(mg_signer b0, q2, h)])"
      "sealed api outside prot ?ms (next_members ?ms [0..<length ?ms] f @ [(mg_signer b0, q2, h)])"
    by (elim exE conjE) (rule that)
  let ?ds = "\<lambda>j. set_member gid (as ! j) (f j)"
  let ?b = "set_member gid b (q2, h)"
  have b: "map (member_of gid) [?b] = [(mg_signer b0, q2, h)]" using kp'(3) by simp
  have roster: "om_group_id api h = gid"
    using law(2) next_epoch(1) unfolding roster_law_def by fastforce
  have room': "om_member_count api (snd (snd (member_of gid (as ! i)))) < 1000"
  proof -
    have "member_of gid (as ! i) \<in> set ?ms" using i by simp
    then show ?thesis using law(2) epoch(1) room unfolding roster_law_def by (metis length_map prod.collapse)
  qed
  have "\<forall>x \<in> set xs. knows_group gid x \<and> outside ?ms (snd (member_of gid x))"
    using session by (simp add: mls_session_def)
  from outsiders_refuse [OF next_epoch(3) this parse]
  obtain es where es: "\<forall>x \<in> set xs. mls_process_commit api gid cb x = (es x, Err ''failed to process commit'')"
    "\<forall>x \<in> set xs. knows_group gid (es x) \<and>
      outside (next_members ?ms [0..<length ?ms] f @ [(mg_signer b0, q2, h)]) (snd (member_of gid (es x)))"
    by metis
  have "mls_add_member api gid kpb (as ! i) = (?ds i, Ok (cb, wb))"
    using add_member_succeeds [OF member_at(1) [OF session i] room' add(1-3), of "fst (f i)" "snd (f i)"] add(4-6)
    by (simp add: set_member_def)
  moreover have "mls_process_welcome api wb b = (?b, Ok gid)"
    using process_welcome_Ok [OF join(1,2), of b q1 staged q2 h] join(3,4) kp'(3) roster
    by (simp add: set_member_def)
  moreover have "mls_session epoch outside gid (map ?ds [0..<length as] @ [?b]) (map es xs)"
    by (rule session_update, unfold b) (use next_epoch(1) es(2) in simp_all)
  moreover have "leaf_at leaf gid ?b = free_leaf (map (leaf_at leaf gid) as)"
    using leaf by (simp add: comp_def leaf_at_def [abs_def])
  moreover have "\<forall>j < length as. j \<noteq> i \<longrightarrow> mls_process_commit api gid cb (as ! j) = (?ds j, Ok ())"
    using members_commit [OF session commit parse] by simp
  moreover have "bears_loss api epoch outside leaf (map (member_of gid) (map ?ds [0..<length as] @ [?b]))"
  proof -
    have "map (member_of gid) (map ?ds [0..<length as]) = next_members ?ms [0..<length ?ms] f"
      using members_set_member [of "[0..<length as]" as gid f] by simp
    then show ?thesis using next_epoch(2) b by (simp del: map_map)
  qed
  moreover have "mg_signer ?b = mg_signer b0" using kp'(3) by simp
  ultimately show ?thesis using es(1) same_members [OF leaves] by (intro that [of ?ds cb wb ?b es]) simp_all
qed

text \<open>A message that only the members \<open>R\<close> read, after an invitation.\<close>

lemma session_say_some:
  assumes law: "bears_loss api epoch outside leaf (map (member_of gid) as)"
    and session: "mls_session epoch outside gid as xs"
    and i: "i < length as" and size: "length pt \<le> 65536"
  obtains ct ds where
    "mls_encrypt api gid pt (as ! i) = Ret (ds i, Ok ct)"
    "\<forall>j < length as. j \<noteq> i \<longrightarrow> mls_decrypt api gid ct (as ! j) = (ds j, Ok pt)"
    "\<forall>j < length as. same_member leaf gid (as ! j) (ds j)"
    "mls_session epoch outside gid (map (\<lambda>j. if j = i \<or> j \<in> R then ds j else as ! j) [0..<length as]) xs"
proof -
  let ?ms = "map (member_of gid) as"
  have "i < length ?ms" using i by simp
  from law [unfolded bears_loss_def, rule_format, OF this member_at(2) [OF session i], of pt R]
  obtain msg ct msg_in prot f where
    send: "om_create_message api (mg_signer (as ! i)) pt (mg_provider (as ! i), snd (snd (member_of gid (as ! i)))) =
        (f i, Some msg)" "om_tls_serialize api msg = Some ct" and
    parse: "om_parse_message api ct = Some msg_in" "om_into_protocol api msg_in = Ok prot" and
    read: "\<forall>j < length ?ms. j \<noteq> i \<longrightarrow>
      om_process_message api prot (snd (?ms ! j)) = (f j, Some (Application_Message pt))" and
    leaves: "keeps_leaves leaf ?ms f" and
    next_epoch: "epoch (next_members ?ms [0..<length ?ms] (\<lambda>j. if j = i \<or> j \<in> R then f j else snd (?ms ! j)))"
      "\<forall>x. outside ?ms x \<longrightarrow>
        outside (next_members ?ms [0..<length ?ms] (\<lambda>j. if j = i \<or> j \<in> R then f j else snd (?ms ! j))) x"
    unfolding Let_def by (elim exE conjE) (rule that)
  let ?ds = "\<lambda>j. set_member gid (as ! j) (f j)"
  have "mls_encrypt api gid pt (as ! i) = Ret (?ds i, Ok ct)"
    using encrypt_Ok [OF member_at(1) [OF session i] size, of api "fst (f i)" "snd (f i)" msg ct] send
    by (simp add: set_member_def)
  moreover have "\<forall>j < length as. j \<noteq> i \<longrightarrow> mls_decrypt api gid ct (as ! j) = (?ds j, Ok pt)"
    by (rule members_read [OF session parse]) (use read in simp)
  moreover note same_members [OF leaves]
  moreover have "mls_session epoch outside gid (map (\<lambda>j. if j = i \<or> j \<in> R then ?ds j else as ! j) [0..<length as]) xs"
  proof -
    have eq: "map (member_of gid) (map (\<lambda>j. if j = i \<or> j \<in> R then ?ds j else as ! j) [0..<length as]) =
        next_members ?ms [0..<length ?ms] (\<lambda>j. if j = i \<or> j \<in> R then f j else snd (?ms ! j))"
      by (rule nth_equalityI) (simp_all add: next_members_def member_of_def [of gid "as ! _"])
    have "\<forall>a \<in> set (map (\<lambda>j. if j = i \<or> j \<in> R then ?ds j else as ! j) [0..<length as]). knows_group gid a"
      using session by (auto simp: mls_session_def)
    then show ?thesis
      unfolding mls_session_def eq using session next_epoch unfolding mls_session_def by blast
  qed
  ultimately show ?thesis by (rule that)
qed

text \<open>A removal; whether the removed client processes the commit or not, it is outside.\<close>

lemma session_expel:
  assumes law: "remove_law api epoch outside leaf" and session: "mls_session epoch outside gid as xs"
    and ik: "i < length as" "k < length as" "i \<noteq> k"
  obtains cb ds es where
    "mls_remove_member api gid (leaf_at leaf gid (as ! k)) (as ! i) = (ds i, Ok cb)"
    "\<forall>j < length as. j \<noteq> i \<longrightarrow> mls_process_commit api gid cb (as ! j) = (ds j, Ok ())"
    "\<forall>x \<in> set xs. mls_process_commit api gid cb x = (es x, Err ''failed to process commit'')"
    "\<forall>j < length as. same_member leaf gid (as ! j) (ds j)"
    "\<forall>told. mls_session epoch outside gid (map ds [j \<leftarrow> [0..<length as]. j \<noteq> k])
      ((if told then ds k else as ! k) # map es xs)"
proof -
  let ?ms = "map (member_of gid) as" and ?js = "[j \<leftarrow> [0..<length as]. j \<noteq> k]"
  have epoch: "epoch ?ms" "i < length ?ms" "k < length ?ms" using session ik by (simp_all add: mls_session_def)
  from law [unfolded remove_law_def, rule_format, OF this ik(3) member_at(2) [OF session ik(1)]]
  obtain st1 c cb msg_in prot f where
    remove: "om_remove_members api (mg_signer (as ! i)) [leaf (snd (snd (?ms ! k)))]
        (mg_provider (as ! i), snd (snd (member_of gid (as ! i)))) = (st1, Some c)"
      "om_merge_pending_commit api st1 = (f i, Some ())" "om_tls_serialize api c = Some cb" and
    parse: "om_parse_message api cb = Some msg_in" "om_into_protocol api msg_in = Ok prot" and
    commit: "commit_reaches api prot ?ms (- {i}) f" and leaves: "keeps_leaves leaf ?ms f" and
    next_epoch: "epoch (next_members ?ms ?js f)" "outside (next_members ?ms ?js f) (snd (?ms ! k))"
      "outside (next_members ?ms ?js f) (f k)" "sealed api outside prot ?ms (next_members ?ms ?js f)"
    unfolding Let_def length_map by (elim exE conjE) (rule that)
  let ?ds = "\<lambda>j. set_member gid (as ! j) (f j)"
  have "\<forall>x \<in> set xs. knows_group gid x \<and> outside ?ms (snd (member_of gid x))"
    using session by (simp add: mls_session_def)
  from outsiders_refuse [OF next_epoch(4) this parse]
  obtain es where es: "\<forall>x \<in> set xs. mls_process_commit api gid cb x = (es x, Err ''failed to process commit'')"
    "\<forall>x \<in> set xs. knows_group gid (es x) \<and> outside (next_members ?ms ?js f) (snd (member_of gid (es x)))"
    by metis
  have "mls_remove_member api gid (leaf_at leaf gid (as ! k)) (as ! i) = (?ds i, Ok cb)"
    unfolding set_member_def leaf_at_def
    by (rule remove_member_succeeds [OF member_at(1) [OF session ik(1)] _ _ remove(3)])
      (use remove(1,2) ik(2) in \<open>simp_all only: nth_map prod.collapse\<close>)
  moreover have "\<forall>j < length as. j \<noteq> i \<longrightarrow> mls_process_commit api gid cb (as ! j) = (?ds j, Ok ())"
    using members_commit [OF session commit parse] by simp
  moreover note es(1)
  moreover note same_members [OF leaves]
  moreover have "\<forall>told. mls_session epoch outside gid (map ?ds ?js) ((if told then ?ds k else as ! k) # map es xs)"
  proof
    fix told
    let ?x = "if told then ?ds k else as ! k"
    have "knows_group gid (as ! k)" using session ik(2) by (simp add: mls_session_def)
    then have "knows_group gid ?x \<and> outside (next_members ?ms ?js f) (snd (member_of gid ?x))"
      using next_epoch(2,3) ik(2) by (cases told) simp_all
    then have "\<forall>x \<in> set (?x # map es xs). knows_group gid x \<and>
        outside (next_members ?ms ?js f @ map (member_of gid) []) (snd (member_of gid x))"
      unfolding list.map append_Nil2 list.set set_map ball_simps using es(2) by (rule conjI)
    moreover have "epoch (next_members ?ms ?js f @ map (member_of gid) [])"
      using next_epoch(1) by simp
    moreover have "\<forall>j \<in> set ?js. j < length as" by simp
    ultimately have "mls_session epoch outside gid (map ?ds ?js @ []) (?x # map es xs)"
      by (intro session_update [where epoch = epoch and outside = outside and as = as and f = f and js = ?js
          and bs = "[]" and gid = gid]) (assumption | simp only: list.set ball_empty)+
    then show "mls_session epoch outside gid (map ?ds ?js) (?x # map es xs)"
      unfolding append_Nil2 .
  qed
  ultimately show ?thesis by (rule that [of ?ds cb es])
qed

end
