(* ===== verification/Mls_Leaves.thy ===== *)
theory Mls_Leaves
  imports Mls_Group
begin

text \<open>
  A library that keeps all the laws of a group, so that they can hold together: its groups carry
  their epoch and the leaves of their members, its messages the epoch they were made in. It has
  no cryptography; a state of an older epoch refuses the messages of the group as the real
  library does. An object is a list of numbers that begins with its kind, in unary on the wire.
\<close>

section \<open>Objects on the wire\<close>

fun enc_nats :: "nat list \<Rightarrow> bytes" where
  "enc_nats [] = []"
| "enc_nats (n # ns) = replicate n 0 @ 1 # enc_nats ns"

fun dec_nats :: "nat \<Rightarrow> bytes \<Rightarrow> nat list" where
  "dec_nats n [] = []"
| "dec_nats n (b # bs) = (if b = 0 then dec_nats (Suc n) bs else n # dec_nats 0 bs)"

lemma dec_nats_unary: "dec_nats k (replicate n 0 @ 1 # bs) = (k + n) # dec_nats 0 bs"
  by (induction n arbitrary: k) simp_all

lemma dec_enc_nats [simp]: "dec_nats 0 (enc_nats ns) = ns"
  by (induction ns) (simp_all add: dec_nats_unary)

lemma enc_nats_eq_Nil [simp]: "enc_nats ns = [] \<longleftrightarrow> ns = []"
  by (cases ns) simp_all

lemma map_of_nat_unat [simp]: "map (of_nat \<circ> unat) ws = (ws :: 'a::len word list)"
  by (induction ws) simp_all

section \<open>The library\<close>

record leaf_group =
  lg_id :: bytes
  lg_epoch :: nat
  lg_leaves :: "u32 list"
  lg_own :: u32
  lg_active :: bool
  lg_pending :: "u32 list"

definition leaf_openmls :: "(nat, bytes, nat, leaf_group, nat list) openmls" where
  "leaf_openmls =
     \<lparr>om_store_signer = (\<lambda>s p. (Suc p, Some ())),
      om_credential = (\<lambda>identity s. identity),
      om_build_key_package = (\<lambda>s c p. (Suc p, Some [0, s])),
      om_tls_serialize = (\<lambda>ns. if ns = [] then None else Some (enc_nats ns)),
      om_build_group = (\<lambda>gid s c p. (Suc p, Some
        \<lparr>lg_id = gid, lg_epoch = 0, lg_leaves = [0], lg_own = 0, lg_active = True, lg_pending = []\<rparr>)),
      om_member_count = length \<circ> lg_leaves,
      om_parse_key_package = (\<lambda>b. if b = [] then None else Some (dec_nats 0 b)),
      om_validate_key_package = (\<lambda>k p. if hd k = 0 then Some k else None),
      om_add_members = (\<lambda>s ks (p, g). let l = free_leaf (lg_leaves g); ls = lg_leaves g @ [l] in
        ((Suc p, g\<lparr>lg_pending := ls\<rparr>), Some ([2, lg_epoch g, unat l],
          [3, Suc (lg_epoch g), unat l, length ls] @ map unat ls @ map unat (lg_id g)))),
      om_remove_members = (\<lambda>s is (p, g).
        ((Suc p, g\<lparr>lg_pending := removeAll (hd is) (lg_leaves g)\<rparr>), Some [4, lg_epoch g, unat (hd is)])),
      om_merge_pending_commit = (\<lambda>(p, g).
        ((p, g\<lparr>lg_leaves := lg_pending g, lg_epoch := Suc (lg_epoch g)\<rparr>), Some ())),
      om_create_message = (\<lambda>s pt (p, g). ((Suc p, g),
        if lg_active g then Some ([1, lg_epoch g] @ map unat pt) else None)),
      om_parse_message = (\<lambda>b. if b = [] then None else Some (dec_nats 0 b)),
      om_into_protocol = (\<lambda>m. if hd m = 3 then Err ''Welcome'' else Ok m),
      om_into_welcome = (\<lambda>m. if hd m = 3 then Some (tl m) else None),
      om_process_message = (\<lambda>m (p, g). ((Suc p, g),
        if \<not> lg_active g \<or> m ! 1 \<noteq> lg_epoch g then None
        else if hd m = 1 then Some (Application_Message (map of_nat (drop 2 m)))
        else if hd m \<in> {2, 4} then Some (Staged_Commit_Message m) else None)),
      om_merge_staged_commit = (\<lambda>m (p, g). ((p,
        if hd m = 2 then g\<lparr>lg_leaves := lg_leaves g @ [of_nat (m ! 2)], lg_epoch := Suc (lg_epoch g)\<rparr>
        else if of_nat (m ! 2) = lg_own g then g\<lparr>lg_active := False\<rparr>
        else g\<lparr>lg_leaves := removeAll (of_nat (m ! 2)) (lg_leaves g), lg_epoch := Suc (lg_epoch g)\<rparr>),
        Some ())),
      om_stage_welcome = (\<lambda>w p. (Suc p, Some w)),
      om_into_group = (\<lambda>w p. (Suc p, Some
        \<lparr>lg_id = map of_nat (drop (w ! 2) (drop 3 w)), lg_epoch = w ! 0,
         lg_leaves = map of_nat (take (w ! 2) (drop 3 w)), lg_own = of_nat (w ! 1), lg_active = True,
         lg_pending = []\<rparr>)),
      om_group_id = lg_id\<rparr>"

section \<open>Its epochs\<close>

definition leaf_of :: "(nat, nat, leaf_group) mls_member \<Rightarrow> u32" where
  "leaf_of m = lg_own (snd (snd m))"

definition leaf_epoch_at :: "bytes \<Rightarrow> nat \<Rightarrow> (nat, nat, leaf_group) mls_member list \<Rightarrow> bool" where
  "leaf_epoch_at gid e ms \<longleftrightarrow> distinct (map leaf_of ms) \<and>
     (\<forall>m \<in> set ms. lg_id (snd (snd m)) = gid \<and> lg_epoch (snd (snd m)) = e \<and> lg_active (snd (snd m)) \<and>
        lg_leaves (snd (snd m)) = map leaf_of ms)"

definition leaf_epoch :: "bytes \<Rightarrow> (nat, nat, leaf_group) mls_member list \<Rightarrow> bool" where
  "leaf_epoch gid ms \<longleftrightarrow> (\<exists>e. leaf_epoch_at gid e ms)"

definition leaf_outside :: "(nat, nat, leaf_group) mls_member list \<Rightarrow> nat \<times> leaf_group \<Rightarrow> bool" where
  "leaf_outside ms x \<longleftrightarrow>
     \<not> lg_active (snd x) \<or> (\<forall>m \<in> set ms. lg_epoch (snd x) < lg_epoch (snd (snd m)))"

lemma leaf_epoch_atD:
  assumes "leaf_epoch_at gid e ms" "j < length ms"
  shows "lg_id (snd (snd (ms ! j))) = gid" "lg_epoch (snd (snd (ms ! j))) = e"
    "lg_active (snd (snd (ms ! j)))" "lg_leaves (snd (snd (ms ! j))) = map leaf_of ms"
  using assms nth_mem [OF assms(2)] unfolding leaf_epoch_at_def by blast+

lemma free_leaf_new:
  assumes "length ls < 1000"
  shows "free_leaf ls \<notin> set ls"
proof
  let ?k = "length (takeWhile (\<lambda>n. of_nat n \<in> set ls) [0..<length ls])"
  assume *: "free_leaf ls \<in> set ls"
  have all: "takeWhile (\<lambda>n. of_nat n \<in> set ls) [0..<length ls] = [0..<length ls]"
  proof (rule ccontr)
    assume "takeWhile (\<lambda>n. of_nat n \<in> set ls) [0..<length ls] \<noteq> [0..<length ls]"
    then have less: "?k < length [0..<length ls]"
      by (metis length_takeWhile_le linorder_not_less order_antisym_conv takeWhile_eq_take take_all)
    from nth_length_takeWhile [OF this] less * show False by (simp add: free_leaf_def)
  qed
  have "(of_nat :: nat \<Rightarrow> u32) ` {..length ls} \<subseteq> set ls"
  proof
    fix w assume "w \<in> (of_nat :: nat \<Rightarrow> u32) ` {..length ls}"
    then obtain n where n: "w = of_nat n" "n \<le> length ls" by auto
    show "w \<in> set ls"
    proof (cases "n = length ls")
      case True
      then show ?thesis using * all n by (simp add: free_leaf_def)
    next
      case False
      then have "n \<in> set (takeWhile (\<lambda>n. of_nat n \<in> set ls) [0..<length ls])"
        unfolding all using n(2) by simp
      then show ?thesis using n(1) set_takeWhileD by fast
    qed
  qed
  moreover have "inj_on (of_nat :: nat \<Rightarrow> u32) {..length ls}"
  proof (rule inj_onI)
    fix x y :: nat
    assume "x \<in> {..length ls}" "y \<in> {..length ls}" "(of_nat x :: u32) = of_nat y"
    moreover have "unat (of_nat n :: u32) = n" if "n \<in> {..length ls}" for n
      using that assms by (simp add: unat_of_nat)
    ultimately show "x = y" by metis
  qed
  ultimately have "card {..length ls} \<le> card (set ls)" by (metis List.finite_set card_image card_mono)
  then show False using card_length [of ls] by simp
qed

text \<open>The members that stay in an epoch, with their states.\<close>

lemma leaf_epoch_next:
  assumes "distinct (map leaf_of ms)" "distinct js" "\<forall>j \<in> set js. j < length ms"
    and "\<forall>j \<in> set js. lg_own (snd (f j)) = leaf_of (ms ! j)"
    and bs: "distinct (map leaf_of bs)" "set (map leaf_of bs) \<inter> set (map leaf_of ms) = {}"
    and "\<forall>j \<in> set js. lg_id (snd (f j)) = gid \<and> lg_epoch (snd (f j)) = e \<and> lg_active (snd (f j)) \<and>
      lg_leaves (snd (f j)) = map (\<lambda>j. leaf_of (ms ! j)) js @ map leaf_of bs"
    and "\<forall>b \<in> set bs. lg_id (snd (snd b)) = gid \<and> lg_epoch (snd (snd b)) = e \<and> lg_active (snd (snd b)) \<and>
      lg_leaves (snd (snd b)) = map (\<lambda>j. leaf_of (ms ! j)) js @ map leaf_of bs"
  shows "leaf_epoch_at gid e (next_members ms js f @ bs)"
proof -
  have leaves: "map leaf_of (next_members ms js f @ bs) = map (\<lambda>j. leaf_of (ms ! j)) js @ map leaf_of bs"
    using assms(4) by (simp add: next_members_def leaf_of_def)
  have "inj_on (\<lambda>j. leaf_of (ms ! j)) (set js)"
  proof (rule inj_onI)
    fix x y assume "x \<in> set js" "y \<in> set js" "leaf_of (ms ! x) = leaf_of (ms ! y)"
    then show "x = y" using assms(1,3) by (simp add: distinct_conv_nth) metis
  qed
  then have "distinct (map (\<lambda>j. leaf_of (ms ! j)) js @ map leaf_of bs)"
    using assms(2,3) bs by (fastforce simp: distinct_map)
  then show ?thesis
    unfolding leaf_epoch_at_def leaves using assms(7,8) by (auto simp: next_members_def)
qed

lemma leaf_of_comp: "lg_own \<circ> snd \<circ> snd = leaf_of"
  by (rule ext) (simp add: leaf_of_def)

lemma map_leaf_nth: "map (\<lambda>j. leaf_of (ms ! j)) [0..<length ms] = map leaf_of ms"
  by (rule nth_equalityI) simp_all

section \<open>It keeps the laws\<close>

lemma leaf_wire:
  "m \<noteq> [] \<Longrightarrow> om_tls_serialize leaf_openmls m = Some (enc_nats m)"
  "m \<noteq> [] \<Longrightarrow> om_parse_message leaf_openmls (enc_nats m) = Some m"
  "m \<noteq> [] \<Longrightarrow> om_parse_key_package leaf_openmls (enc_nats m) = Some m"
  "hd m \<noteq> 3 \<Longrightarrow> om_into_protocol leaf_openmls m = Ok m"
  by (simp_all add: leaf_openmls_def)

lemma leaf_welcome: "om_into_group leaf_openmls ([e, unat l, length ls] @ map unat ls @ map unat gid) q =
    (Suc q, Some \<lparr>lg_id = gid, lg_epoch = e, lg_leaves = ls, lg_own = l, lg_active = True, lg_pending = []\<rparr>)"
  by (simp add: leaf_openmls_def del: drop_drop)

lemma leaf_create_law: "create_law leaf_openmls gid (leaf_epoch gid) lg_own"
  by (auto simp: create_law_def leaf_openmls_def leaf_epoch_def leaf_epoch_at_def leaf_of_def)

lemma leaf_roster_law: "roster_law leaf_openmls gid (leaf_epoch gid)"
  by (force simp: roster_law_def leaf_openmls_def leaf_epoch_def leaf_epoch_at_def)

text \<open>Nothing made in the epoch is read outside, and time does not go back.\<close>

lemma leaf_sealed:
  assumes epoch: "leaf_epoch_at gid e ms" "ms \<noteq> []" and prot: "prot ! 1 = e"
    and later: "\<forall>m \<in> set ms'. e \<le> lg_epoch (snd (snd m))"
  shows "sealed leaf_openmls leaf_outside prot ms ms'"
  unfolding sealed_def
proof (intro allI impI)
  fix x assume x: "leaf_outside ms x"
  have *: "lg_active (snd x) \<longrightarrow> lg_epoch (snd x) < e"
    using x epoch(2) leaf_epoch_atD(2) [OF epoch(1), of 0] unfolding leaf_outside_def
    by (metis length_greater_0_conv nth_mem)
  then show "\<exists>x'. om_process_message leaf_openmls prot x = (x', None) \<and> leaf_outside ms' x'"
  proof (intro exI conjI)
    have "\<not> lg_active (snd x) \<or> prot ! 1 \<noteq> lg_epoch (snd x)" using * prot by auto
    then show "om_process_message leaf_openmls prot x = ((Suc (fst x), snd x), None)"
      by (simp add: leaf_openmls_def case_prod_beta)
    show "leaf_outside ms' (Suc (fst x), snd x)"
      using * later unfolding leaf_outside_def by fastforce
  qed
qed

text \<open>A message loses nobody, whoever of the members reads it.\<close>

lemma leaf_epoch_some:
  assumes e: "leaf_epoch_at gid e ms"
    and f: "\<forall>j < length ms. snd (f j) = snd (snd (ms ! j))"
  shows "leaf_epoch_at gid e (next_members ms [0..<length ms] f)"
    "leaf_outside (next_members ms [0..<length ms] f) = leaf_outside ms"
proof -
  let ?G = "map (\<lambda>m. snd (snd m))"
  have groups: "leaf_epoch_at gid e ns \<longleftrightarrow> distinct (map lg_own (?G ns)) \<and>
      (\<forall>g \<in> set (?G ns). lg_id g = gid \<and> lg_epoch g = e \<and> lg_active g \<and> lg_leaves g = map lg_own (?G ns))"
    "leaf_outside ns x \<longleftrightarrow> \<not> lg_active (snd x) \<or> (\<forall>g \<in> set (?G ns). lg_epoch (snd x) < lg_epoch g)" for ns x
    by (simp_all add: leaf_epoch_at_def leaf_outside_def leaf_of_def [abs_def] comp_def)
  have "?G (next_members ms [0..<length ms] f) = ?G ms"
    using f by (intro nth_equalityI) (simp_all add: next_members_def)
  then show "leaf_epoch_at gid e (next_members ms [0..<length ms] f)"
    "leaf_outside (next_members ms [0..<length ms] f) = leaf_outside ms"
    using e unfolding groups fun_eq_iff by (simp_all only: groups simp_thms) (erule conjunct2)
qed

lemma leaf_message:
  assumes e: "leaf_epoch_at gid e ms" and i: "i < length ms" "ms ! i = (s, st)"
  shows "om_create_message leaf_openmls s pt st =
      ((Suc (fst (snd (ms ! i))), snd (snd (ms ! i))), Some ([1, e] @ map unat pt))"
    and "\<forall>j < length ms. j \<noteq> i \<longrightarrow> om_process_message leaf_openmls ([1, e] @ map unat pt) (snd (ms ! j)) =
      ((Suc (fst (snd (ms ! j))), snd (snd (ms ! j))), Some (Application_Message pt))"
proof -
  have "lg_active (snd st)" "lg_epoch (snd st) = e" using leaf_epoch_atD(2,3) [OF e i(1)] i(2) by simp_all
  then show "om_create_message leaf_openmls s pt st =
      ((Suc (fst (snd (ms ! i))), snd (snd (ms ! i))), Some ([1, e] @ map unat pt))"
    using i(2) by (simp add: leaf_openmls_def case_prod_beta)
  show "\<forall>j < length ms. j \<noteq> i \<longrightarrow> om_process_message leaf_openmls ([1, e] @ map unat pt) (snd (ms ! j)) =
      ((Suc (fst (snd (ms ! j))), snd (snd (ms ! j))), Some (Application_Message pt))"
    using leaf_epoch_atD(2,3) [OF e] by (simp add: leaf_openmls_def case_prod_beta)
qed

lemma leaf_send_law: "send_law leaf_openmls (leaf_epoch gid) leaf_outside lg_own"
  unfolding send_law_def
proof (intro allI impI)
  fix ms :: "(nat, nat, leaf_group) mls_member list" and i s st and pt :: bytes
  assume epoch: "leaf_epoch gid ms" and i: "i < length ms" "ms ! i = (s, st)"
  obtain e where e: "leaf_epoch_at gid e ms" using epoch by (auto simp: leaf_epoch_def)
  let ?f = "\<lambda>j. (Suc (fst (snd (ms ! j))), snd (snd (ms ! j)))"
  let ?m = "[1, e] @ map unat pt"
  note leaf_message [OF e i, of pt]
  moreover have "keeps_leaves lg_own ms ?f" by (simp add: keeps_leaves_def)
  moreover have "leaf_epoch_at gid e (next_members ms [0..<length ms] ?f)"
    by (rule leaf_epoch_some [OF e]) simp
  moreover from this have "sealed leaf_openmls leaf_outside ?m ms (next_members ms [0..<length ms] ?f)"
    using i by (intro leaf_sealed [OF e]) (auto simp: leaf_epoch_at_def)
  ultimately show "\<exists>msg ct msg_in prot f.
      om_create_message leaf_openmls s pt st = (f i, Some msg) \<and>
      om_tls_serialize leaf_openmls msg = Some ct \<and> om_parse_message leaf_openmls ct = Some msg_in \<and>
      om_into_protocol leaf_openmls msg_in = Ok prot \<and>
      (\<forall>j < length ms. j \<noteq> i \<longrightarrow>
        om_process_message leaf_openmls prot (snd (ms ! j)) = (f j, Some (Application_Message pt))) \<and>
      keeps_leaves lg_own ms f \<and> leaf_epoch gid (next_members ms [0..<length ms] f) \<and>
      sealed leaf_openmls leaf_outside prot ms (next_members ms [0..<length ms] f)"
    unfolding leaf_epoch_def
    by (intro exI conjI)
      (assumption, rule leaf_wire(1), simp, rule leaf_wire(2), simp, rule leaf_wire(4), simp, assumption+)
qed

lemma leaf_bears_loss:
  assumes e: "leaf_epoch_at gid e ms"
  shows "bears_loss leaf_openmls (leaf_epoch gid) leaf_outside lg_own ms"
  unfolding bears_loss_def
proof (intro allI impI)
  fix i s st R and pt :: bytes
  assume i: "i < length ms" "ms ! i = (s, st)"
  let ?f = "\<lambda>j. (Suc (fst (snd (ms ! j))), snd (snd (ms ! j)))"
  let ?h = "\<lambda>j. if j = i \<or> j \<in> R then ?f j else snd (ms ! j)"
  let ?ms' = "next_members ms [0..<length ms] ?h"
  note leaf_message [OF e i, of pt]
  moreover have "keeps_leaves lg_own ms ?f" by (simp add: keeps_leaves_def)
  moreover have "\<forall>j < length ms. snd (?h j) = snd (snd (ms ! j))" by simp
  note some = leaf_epoch_some [OF e this]
  have "leaf_epoch gid ?ms'" unfolding leaf_epoch_def by (rule exI) (rule some(1))
  moreover have "\<forall>x. leaf_outside ms x \<longrightarrow> leaf_outside ?ms' x" unfolding some(2) by blast
  ultimately show "\<exists>msg ct msg_in prot f.
      om_create_message leaf_openmls s pt st = (f i, Some msg) \<and>
      om_tls_serialize leaf_openmls msg = Some ct \<and> om_parse_message leaf_openmls ct = Some msg_in \<and>
      om_into_protocol leaf_openmls msg_in = Ok prot \<and>
      (\<forall>j < length ms. j \<noteq> i \<longrightarrow>
        om_process_message leaf_openmls prot (snd (ms ! j)) = (f j, Some (Application_Message pt))) \<and>
      keeps_leaves lg_own ms f \<and>
      (let ms' = next_members ms [0..<length ms] (\<lambda>j. if j = i \<or> j \<in> R then f j else snd (ms ! j))
       in leaf_epoch gid ms' \<and> (\<forall>x. leaf_outside ms x \<longrightarrow> leaf_outside ms' x))"
    unfolding Let_def
    by (intro exI conjI)
      (assumption, rule leaf_wire(1), simp, rule leaf_wire(2), simp, rule leaf_wire(4), simp, assumption+)
qed

text \<open>Everybody but the committer merges the commit and moves to the next epoch.\<close>

lemma leaf_add_law: "add_law leaf_openmls (leaf_epoch gid) leaf_outside lg_own"
  unfolding add_law_def
proof (intro allI impI)
  fix ms :: "(nat, nat, leaf_group) mls_member list" and i s p g sb q kp kpb
  assume epoch: "leaf_epoch gid ms" and i: "i < length ms" "ms ! i = (s, p, g)"
    and joins: "fresh_joins leaf_openmls ms sb q kp" and kpb: "om_tls_serialize leaf_openmls kp = Some kpb"
  obtain e where e: "leaf_epoch_at gid e ms" using epoch by (auto simp: leaf_epoch_def)
  note at = leaf_epoch_atD [OF e]
  have g: "lg_id g = gid" "lg_epoch g = e" "lg_active g" "lg_leaves g = map leaf_of ms"
    using at [OF i(1)] i(2) by simp_all
  let ?l = "free_leaf (map leaf_of ms)"
  let ?ls = "map leaf_of ms @ [?l]"
  have kp: "kp = [0, sb]" "kpb = enc_nats kp" "length ms < 1000"
    using joins kpb by (auto simp: fresh_joins_def leaf_openmls_def)
  define st1 where "st1 = (Suc p, g\<lparr>lg_pending := ?ls\<rparr>)"
  define f where "f = (\<lambda>j. if j = i then (Suc p, g\<lparr>lg_pending := ?ls, lg_leaves := ?ls, lg_epoch := Suc e\<rparr>)
    else (Suc (fst (snd (ms ! j))), (snd (snd (ms ! j)))\<lparr>lg_leaves := ?ls, lg_epoch := Suc e\<rparr>))"
  define h where "h = \<lparr>lg_id = gid, lg_epoch = Suc e, lg_leaves = ?ls, lg_own = ?l, lg_active = True, lg_pending = []\<rparr>"
  let ?c = "[2, e, unat ?l]"
  let ?wel = "[Suc e, unat ?l, length ?ls] @ map unat ?ls @ map unat gid"
  have package: "om_parse_key_package leaf_openmls kpb = Some kp" "om_validate_key_package leaf_openmls kp p = Some kp"
    using kp leaf_wire(3) [of kp] by (simp_all del: enc_nats.simps) (simp add: leaf_openmls_def)
  have add: "om_add_members leaf_openmls s [kp] (p, g) = (st1, Some (?c, 3 # ?wel))"
      "om_merge_pending_commit leaf_openmls st1 = (f i, Some ())"
    by (simp_all add: leaf_openmls_def st1_def f_def g Let_def)
  have join: "om_into_welcome leaf_openmls (3 # ?wel) = Some ?wel"
      "om_stage_welcome leaf_openmls ?wel q = (Suc q, Some ?wel)"
      "om_into_group leaf_openmls ?wel (Suc q) = (Suc (Suc q), Some h)"
    by (simp add: leaf_openmls_def, simp add: leaf_openmls_def)
      (simp only: leaf_welcome [of "Suc e" ?l ?ls gid "Suc q"] h_def)
  have reach: "commit_reaches leaf_openmls ?c ms (- {i}) f"
    unfolding commit_reaches_def
  proof (intro allI exI impI)
    fix j assume j: "j < length ms" "j \<in> - {i}"
    show "om_process_message leaf_openmls ?c (snd (ms ! j)) =
        ((Suc (fst (snd (ms ! j))), snd (snd (ms ! j))), Some (Staged_Commit_Message ?c)) \<and>
      om_merge_staged_commit leaf_openmls ?c (Suc (fst (snd (ms ! j))), snd (snd (ms ! j))) = (f j, Some ())"
      using at [OF j(1)] j(2) by (simp add: leaf_openmls_def f_def case_prod_beta)
  qed
  have own: "lg_own g = leaf_of (ms ! i)" using i(2) by (simp add: leaf_of_def)
  have next_epoch: "leaf_epoch_at gid (Suc e) (next_members ms [0..<length ms] f @ [(sb, Suc (Suc q), h)])"
  proof (rule leaf_epoch_next)
    show "distinct (map leaf_of ms)" using e by (simp add: leaf_epoch_at_def)
    show "set (map leaf_of [(sb, Suc (Suc q), h)]) \<inter> set (map leaf_of ms) = {}"
      using free_leaf_new [of "map leaf_of ms"] kp(3) by (simp add: leaf_of_def h_def)
    show "\<forall>j \<in> set [0..<length ms]. lg_own (snd (f j)) = leaf_of (ms ! j)"
      using own by (simp add: f_def leaf_of_def)
  qed (simp_all add: f_def h_def g at map_leaf_nth leaf_of_def [of "(_, _, _)"])
  then have "sealed leaf_openmls leaf_outside ?c ms (next_members ms [0..<length ms] f @ [(sb, Suc (Suc q), h)])"
    using i by (intro leaf_sealed [OF e]) (auto simp: leaf_epoch_at_def)
  moreover have "lg_own h = free_leaf (map (lg_own \<circ> snd \<circ> snd) ms)"
    unfolding leaf_of_comp by (simp add: h_def)
  moreover have "leaf_epoch gid (next_members ms [0..<length ms] f @ [(sb, Suc (Suc q), h)])"
    using next_epoch by (auto simp: leaf_epoch_def)
  moreover have "keeps_leaves lg_own ms f" using i(2) by (simp add: keeps_leaves_def f_def)
  moreover note leaf_bears_loss [OF next_epoch]
  ultimately show "\<exists>kp_in kpv st1 c w cb wb m wel q1 staged q2 h msg_in prot f.
      om_parse_key_package leaf_openmls kpb = Some kp_in \<and> om_validate_key_package leaf_openmls kp_in p = Some kpv \<and>
      om_add_members leaf_openmls s [kpv] (p, g) = (st1, Some (c, w)) \<and>
      om_merge_pending_commit leaf_openmls st1 = (f i, Some ()) \<and>
      om_tls_serialize leaf_openmls c = Some cb \<and> om_tls_serialize leaf_openmls w = Some wb \<and>
      om_parse_message leaf_openmls wb = Some m \<and> om_into_welcome leaf_openmls m = Some wel \<and>
      om_stage_welcome leaf_openmls wel q = (q1, Some staged) \<and> om_into_group leaf_openmls staged q1 = (q2, Some h) \<and>
      lg_own h = free_leaf (map (lg_own \<circ> snd \<circ> snd) ms) \<and>
      om_parse_message leaf_openmls cb = Some msg_in \<and> om_into_protocol leaf_openmls msg_in = Ok prot \<and>
      commit_reaches leaf_openmls prot ms (- {i}) f \<and> keeps_leaves lg_own ms f \<and>
      leaf_epoch gid (next_members ms [0..<length ms] f @ [(sb, q2, h)]) \<and>
      bears_loss leaf_openmls (leaf_epoch gid) leaf_outside lg_own (next_members ms [0..<length ms] f @ [(sb, q2, h)]) \<and>
      sealed leaf_openmls leaf_outside prot ms (next_members ms [0..<length ms] f @ [(sb, q2, h)])"
    using reach
    by (intro exI conjI)
      (rule package(1), rule package(2), rule add(1), rule add(2), rule leaf_wire(1), simp, rule leaf_wire(1), simp,
       rule leaf_wire(2), simp, rule join(1), rule join(2), rule join(3), assumption, rule leaf_wire(2), simp,
       rule leaf_wire(4), simp, assumption+)
qed

lemma leaf_remove_law: "remove_law leaf_openmls (leaf_epoch gid) leaf_outside lg_own"
  unfolding remove_law_def
proof (intro allI impI)
  fix ms :: "(nat, nat, leaf_group) mls_member list" and i k s st
  assume epoch: "leaf_epoch gid ms" and ik: "i < length ms" "k < length ms" "i \<noteq> k" "ms ! i = (s, st)"
  obtain e where e: "leaf_epoch_at gid e ms" using epoch by (auto simp: leaf_epoch_def)
  note at = leaf_epoch_atD [OF e]
  obtain p g where st: "st = (p, g)" by (cases st)
  have g: "lg_id g = gid" "lg_epoch g = e" "lg_active g" "lg_leaves g = map leaf_of ms"
    using at [OF ik(1)] ik(4) st by simp_all
  let ?l = "leaf_of (ms ! k)" and ?js = "[j \<leftarrow> [0..<length ms]. j \<noteq> k]"
  let ?ls = "removeAll ?l (map leaf_of ms)"
  have apart: "leaf_of (ms ! j) = ?l \<longleftrightarrow> j = k" if "j < length ms" for j
    using e that ik(2) unfolding leaf_epoch_at_def by (simp add: distinct_conv_nth) metis
  then have apart': "?l = leaf_of (ms ! j) \<longleftrightarrow> j = k" if "j < length ms" for j
    using that by metis
  have ls: "?ls = map (\<lambda>j. leaf_of (ms ! j)) ?js"
    unfolding map_leaf_nth [symmetric] removeAll_filter_not_eq filter_map comp_def
    by (rule arg_cong [of _ _ "map _"], rule filter_cong) (auto simp: apart')
  define st1 where "st1 = (Suc p, g\<lparr>lg_pending := ?ls\<rparr>)"
  define f where "f = (\<lambda>j. if j = i then (Suc p, g\<lparr>lg_pending := ?ls, lg_leaves := ?ls, lg_epoch := Suc e\<rparr>)
    else (Suc (fst (snd (ms ! j))), if j = k then (snd (snd (ms ! j)))\<lparr>lg_active := False\<rparr>
      else (snd (snd (ms ! j)))\<lparr>lg_leaves := ?ls, lg_epoch := Suc e\<rparr>))"
  let ?c = "[4, e, unat ?l]"
  have remove: "om_remove_members leaf_openmls s [lg_own (snd (snd (ms ! k)))] st = (st1, Some ?c)"
      "om_merge_pending_commit leaf_openmls st1 = (f i, Some ())"
    by (simp_all add: leaf_openmls_def st1_def f_def g st leaf_of_def)
  have reach: "commit_reaches leaf_openmls ?c ms (- {i}) f"
    unfolding commit_reaches_def
  proof (intro allI exI impI)
    fix j assume j: "j < length ms" "j \<in> - {i}"
    show "om_process_message leaf_openmls ?c (snd (ms ! j)) =
        ((Suc (fst (snd (ms ! j))), snd (snd (ms ! j))), Some (Staged_Commit_Message ?c)) \<and>
      om_merge_staged_commit leaf_openmls ?c (Suc (fst (snd (ms ! j))), snd (snd (ms ! j))) = (f j, Some ())"
      using at [OF j(1)] j(2) apart [OF j(1)]
      by (auto simp: leaf_openmls_def f_def case_prod_beta leaf_of_def)
  qed
  have own: "lg_own g = leaf_of (ms ! i)" using ik(4) st by (simp add: leaf_of_def)
  have "leaf_epoch_at gid (Suc e) (next_members ms ?js f @ [])"
  proof (rule leaf_epoch_next)
    show "distinct (map leaf_of ms)" using e by (simp add: leaf_epoch_at_def)
    show "\<forall>j \<in> set ?js. lg_id (snd (f j)) = gid \<and> lg_epoch (snd (f j)) = Suc e \<and> lg_active (snd (f j)) \<and>
        lg_leaves (snd (f j)) = map (\<lambda>j. leaf_of (ms ! j)) ?js @ map leaf_of []"
      unfolding ls [symmetric] using at by (auto simp: f_def g)
    show "\<forall>j \<in> set ?js. lg_own (snd (f j)) = leaf_of (ms ! j)"
      using own by (auto simp: f_def leaf_of_def)
  qed simp_all
  then have next_epoch: "leaf_epoch_at gid (Suc e) (next_members ms ?js f)" by simp
  have "sealed leaf_openmls leaf_outside ?c ms (next_members ms ?js f)"
    using next_epoch ik by (intro leaf_sealed [OF e]) (auto simp: leaf_epoch_at_def)
  moreover have "leaf_outside (next_members ms ?js f) (snd (ms ! k))"
    using next_epoch at(2) [OF ik(2)] by (auto simp: leaf_outside_def leaf_epoch_at_def)
  moreover have "leaf_outside (next_members ms ?js f) (f k)"
    using ik(3) by (simp add: leaf_outside_def f_def)
  moreover have "leaf_epoch gid (next_members ms ?js f)"
    using next_epoch by (auto simp: leaf_epoch_def)
  moreover have "keeps_leaves lg_own ms f" using ik(4) st by (simp add: keeps_leaves_def f_def)
  ultimately show "\<exists>st1 c cb msg_in prot f.
      om_remove_members leaf_openmls s [lg_own (snd (snd (ms ! k)))] st = (st1, Some c) \<and>
      om_merge_pending_commit leaf_openmls st1 = (f i, Some ()) \<and> om_tls_serialize leaf_openmls c = Some cb \<and>
      om_parse_message leaf_openmls cb = Some msg_in \<and> om_into_protocol leaf_openmls msg_in = Ok prot \<and>
      commit_reaches leaf_openmls prot ms (- {i}) f \<and> keeps_leaves lg_own ms f \<and>
      (let ms' = next_members ms ?js f
       in leaf_epoch gid ms' \<and> leaf_outside ms' (snd (ms ! k)) \<and> leaf_outside ms' (f k) \<and>
         sealed leaf_openmls leaf_outside prot ms ms')"
    using reach unfolding Let_def
    by (intro exI conjI)
      (rule remove(1), rule remove(2), rule leaf_wire(1), simp, rule leaf_wire(2), simp, rule leaf_wire(4), simp,
       assumption+)
qed

lemma leaf_laws: "mls_laws leaf_openmls gid (leaf_epoch gid) leaf_outside lg_own"
  by (simp add: mls_laws_def leaf_create_law leaf_roster_law leaf_send_law leaf_add_law leaf_remove_law)

end
