(* ===== verification/Mls_Lifecycle.thy ===== *)
theory Mls_Lifecycle
  imports Mls_Leaves
begin

text \<open>
  The whole life of a group, from its creation by one client through any history of messages,
  invitations and removals, as the tests \<^verbatim>\<open>two_party_encrypt_decrypt\<close>,
  \<^verbatim>\<open>three_party_group\<close> and \<^verbatim>\<open>remove_member_cannot_decrypt\<close> run it with two and
  three clients. Former members are kept beside the members: they get every message and commit
  too, and try to read it.
\<close>

section \<open>Histories of a group\<close>

text \<open>
  \<open>Say i pt\<close>: member \<open>i\<close> says something; \<open>Invite i b\<close>: it invites the client
  \<open>b\<close>, which becomes the last of the members; \<open>Expel i k told\<close>: it removes member
  \<open>k\<close>, which processes the commit or (\<open>told\<close> false) never gets it.
\<close>

datatype 'm group_event =
    Say nat bytes
  | Invite nat 'm
  | Expel nat nat bool

text \<open>What the calls of the members, and of the former members, return.\<close>

datatype group_outcome =
    Heard "(string, bytes) result list" "(string, bytes) result list"
  | Changed "(string, unit) result list" "(string, unit) result list"

type_synonym ('p, 'c, 's, 'g) clients =
  "('p, 'c, 's, 'g) mls_manager list \<times> ('p, 'c, 's, 'g) mls_manager list"

definition group_say ::
  "('p, 'c, 's, 'g, 'o) openmls \<Rightarrow> bytes \<Rightarrow> nat \<Rightarrow> bytes \<Rightarrow> ('p, 'c, 's, 'g) clients \<Rightarrow>
   (('p, 'c, 's, 'g) clients \<times> group_outcome) option" where
  "group_say api gid i pt cl =
     (case mls_encrypt api gid pt (fst cl ! i) of
        Ret (a', Ok ct) \<Rightarrow>
          (let rs = map (\<lambda>j. if j = i then (a', Ok pt) else mls_decrypt api gid ct (fst cl ! j)) [0..<length (fst cl)];
               os = map (mls_decrypt api gid ct) (snd cl)
           in Some ((map fst rs, map fst os), Heard (map snd rs) (map snd os)))
      | _ \<Rightarrow> None)"

text \<open>The other members, and the former ones, process the commit of the member \<open>i\<close>.\<close>

definition group_commit ::
  "('p, 'c, 's, 'g, 'o) openmls \<Rightarrow> bytes \<Rightarrow> nat \<Rightarrow> ('p, 'c, 's, 'g) mls_manager \<Rightarrow> bytes \<Rightarrow>
   ('p, 'c, 's, 'g) clients \<Rightarrow> ('p, 'c, 's, 'g) clients \<times> group_outcome" where
  "group_commit api gid i a' commit cl =
     (let rs = map (\<lambda>j. if j = i then (a', Ok ()) else mls_process_commit api gid commit (fst cl ! j))
            [0..<length (fst cl)];
          os = map (mls_process_commit api gid commit) (snd cl)
      in ((map fst rs, map fst os), Changed (map snd rs) (map snd os)))"

definition group_invite ::
  "('p, 'c, 's, 'g, 'o) openmls \<Rightarrow> bytes \<Rightarrow> nat \<Rightarrow> ('p, 'c, 's, 'g) mls_manager \<Rightarrow>
   ('p, 'c, 's, 'g) clients \<Rightarrow> (('p, 'c, 's, 'g) clients \<times> group_outcome) option" where
  "group_invite api gid i b0 cl =
     (case mls_generate_key_package api b0 of
        (b, Err e) \<Rightarrow> None
      | (b, Ok kp) \<Rightarrow>
          (case mls_add_member api gid kp (fst cl ! i) of
             (a', Err e) \<Rightarrow> None
           | (a', Ok (commit, welcome)) \<Rightarrow>
               (case mls_process_welcome api welcome b of
                  (b', Ok gid') \<Rightarrow>
                    (if gid' = gid then
                       (case group_commit api gid i a' commit cl of
                          ((as, xs), out) \<Rightarrow> Some ((as @ [b'], xs), out))
                     else None)
                | (b', Err e) \<Rightarrow> None)))"

text \<open>The member to be removed is named by its leaf.\<close>

definition group_expel ::
  "('p, 'c, 's, 'g, 'o) openmls \<Rightarrow> ('g \<Rightarrow> u32) \<Rightarrow> bytes \<Rightarrow> nat \<Rightarrow> nat \<Rightarrow> bool \<Rightarrow> ('p, 'c, 's, 'g) clients \<Rightarrow>
   (('p, 'c, 's, 'g) clients \<times> group_outcome) option" where
  "group_expel api leaf gid i k told cl =
     (case mls_remove_member api gid (leaf_at leaf gid (fst cl ! k)) (fst cl ! i) of
        (a', Err e) \<Rightarrow> None
      | (a', Ok commit) \<Rightarrow>
          (case group_commit api gid i a' commit cl of
             ((as, xs), out) \<Rightarrow>
               Some ((map ((!) as) [j \<leftarrow> [0..<length as]. j \<noteq> k], (if told then as ! k else fst cl ! k) # xs), out)))"

fun group_step ::
  "('p, 'c, 's, 'g, 'o) openmls \<Rightarrow> ('g \<Rightarrow> u32) \<Rightarrow> bytes \<Rightarrow> ('p, 'c, 's, 'g) mls_manager group_event \<Rightarrow>
   ('p, 'c, 's, 'g) clients \<Rightarrow> (('p, 'c, 's, 'g) clients \<times> group_outcome) option" where
  "group_step api leaf gid (Say i pt) cl = group_say api gid i pt cl"
| "group_step api leaf gid (Invite i b) cl = group_invite api gid i b cl"
| "group_step api leaf gid (Expel i k told) cl = group_expel api leaf gid i k told cl"

fun group_run ::
  "('p, 'c, 's, 'g, 'o) openmls \<Rightarrow> ('g \<Rightarrow> u32) \<Rightarrow> bytes \<Rightarrow> ('p, 'c, 's, 'g) mls_manager group_event list \<Rightarrow>
   ('p, 'c, 's, 'g) clients \<Rightarrow> (('p, 'c, 's, 'g) clients \<times> group_outcome list) option" where
  "group_run api leaf gid [] cl = Some (cl, [])"
| "group_run api leaf gid (ev # evs) cl =
     (case group_step api leaf gid ev cl of
        None \<Rightarrow> None
      | Some (cl', out) \<Rightarrow> map_option (\<lambda>(cl'', outs). (cl'', out # outs)) (group_run api leaf gid evs cl'))"

section \<open>What is expected of them\<close>

text \<open>
  With \<open>n\<close> members and \<open>x\<close> former ones: the size of the group after an event, its
  outcome, and when it is allowed. Signers are used once.
\<close>

fun members_after :: "nat \<Rightarrow> 'm group_event \<Rightarrow> nat" where
  "members_after n (Say i pt) = n"
| "members_after n (Invite i b) = Suc n"
| "members_after n (Expel i k told) = n - 1"

fun expelled_after :: "nat \<Rightarrow> 'm group_event \<Rightarrow> nat" where
  "expelled_after x (Expel i k told) = Suc x"
| "expelled_after x ev = x"

fun signers_after :: "'s set \<Rightarrow> ('p, 'c, 's, 'g) mls_manager group_event \<Rightarrow> 's set" where
  "signers_after used (Invite i b) = insert (mg_signer b) used"
| "signers_after used ev = used"

fun event_outcome :: "nat \<Rightarrow> nat \<Rightarrow> 'm group_event \<Rightarrow> group_outcome" where
  "event_outcome n x (Say i pt) =
     Heard (replicate n (Ok pt)) (replicate x (Err ''failed to process MLS message''))"
| "event_outcome n x ev = Changed (replicate n (Ok ())) (replicate x (Err ''failed to process commit''))"

fun event_ok :: "('p, 'c, 's, 'g, 'o) openmls \<Rightarrow> 's set \<Rightarrow> nat \<Rightarrow> ('p, 'c, 's, 'g) mls_manager group_event \<Rightarrow> bool" where
  "event_ok api used n (Say i pt) \<longleftrightarrow> i < n \<and> length pt \<le> 65536"
| "event_ok api used n (Invite i b) \<longleftrightarrow>
     i < n \<and> n < 1000 \<and> mg_signer b \<notin> used \<and> is_ok (snd (mls_generate_key_package api b))"
| "event_ok api used n (Expel i k told) \<longleftrightarrow> i < n \<and> k < n \<and> i \<noteq> k"

fun history_ok :: "('p, 'c, 's, 'g, 'o) openmls \<Rightarrow> 's set \<Rightarrow> nat \<Rightarrow> ('p, 'c, 's, 'g) mls_manager group_event list \<Rightarrow> bool" where
  "history_ok api used n [] \<longleftrightarrow> True"
| "history_ok api used n (ev # evs) \<longleftrightarrow>
     event_ok api used n ev \<and> history_ok api (signers_after used ev) (members_after n ev) evs"

fun history_outcomes :: "nat \<Rightarrow> nat \<Rightarrow> 'm group_event list \<Rightarrow> group_outcome list" where
  "history_outcomes n x [] = []"
| "history_outcomes n x (ev # evs) =
     event_outcome n x ev # history_outcomes (members_after n ev) (expelled_after x ev) evs"

section \<open>Each event\<close>

lemma signers_kept:
  assumes "\<forall>j < length as. same_member leaf gid (as ! j) (ds j)"
  shows "mg_signer ` set (map ds [0..<length as]) = mg_signer ` set as"
proof -
  have "map mg_signer (map ds [0..<length as]) = map mg_signer as"
    using assms by (intro nth_equalityI) (simp_all add: same_member_def)
  from arg_cong [OF this, of set] show ?thesis by (simp add: image_image)
qed

lemma length_upt_without:
  assumes "k < n"
  shows "length [j \<leftarrow> [0..<n]. j \<noteq> k] = n - 1"
proof -
  have "[j \<leftarrow> [0..<n]. j \<noteq> k] = removeAll k [0..<n]"
    unfolding removeAll_filter_not_eq by (rule filter_cong) auto
  also have "\<dots> = remove1 k [0..<n]" by (simp add: distinct_remove1_removeAll)
  finally show ?thesis using assms by (simp add: length_remove1)
qed

lemma group_say_hears:
  assumes laws: "mls_laws api gid epoch outside leaf" and session: "mls_session epoch outside gid as xs"
    and ok: "i < length as" "length pt \<le> 65536"
  shows "\<exists>as' xs'. group_say api gid i pt (as, xs) =
      Some ((as', xs'), event_outcome (length as) (length xs) (Say i pt)) \<and>
    mls_session epoch outside gid as' xs' \<and> length as' = length as \<and> length xs' = length xs \<and>
    mg_signer ` set as' = mg_signer ` set as"
proof -
  obtain ct ds es where say: "mls_encrypt api gid pt (as ! i) = Ret (ds i, Ok ct)"
    "\<forall>j < length as. j \<noteq> i \<longrightarrow> mls_decrypt api gid ct (as ! j) = (ds j, Ok pt)"
    "\<forall>x \<in> set xs. mls_decrypt api gid ct x = (es x, Err ''failed to process MLS message'')"
    "\<forall>j < length as. same_member leaf gid (as ! j) (ds j)"
    "mls_session epoch outside gid (map ds [0..<length as]) (map es xs)"
    using session_say [OF mls_lawsD(3) [OF laws] session ok] .
  have rs: "map (\<lambda>j. if j = i then (ds i, Ok pt) else mls_decrypt api gid ct (as ! j)) [0..<length as] =
      map (\<lambda>j. (ds j, Ok pt)) [0..<length as]" using say(2) by simp
  have os: "map (mls_decrypt api gid ct) xs = map (\<lambda>x. (es x, Err ''failed to process MLS message'')) xs"
    using say(3) by simp
  have "mg_signer ` set (map ds [0..<length as]) = mg_signer ` set as"
    by (rule signers_kept [OF say(4)])
  moreover have "group_say api gid i pt (as, xs) =
      Some ((map ds [0..<length as], map es xs), event_outcome (length as) (length xs) (Say i pt))"
    unfolding group_say_def fst_conv snd_conv say(1) exec.case prod.case result.case rs os
    by (simp add: Let_def comp_def map_replicate_const)
  ultimately show ?thesis using say(5) by fastforce
qed

lemma group_commit_merges:
  assumes "\<forall>j < length as. j \<noteq> i \<longrightarrow> mls_process_commit api gid c (as ! j) = (ds j, Ok ())"
    and "\<forall>x \<in> set xs. mls_process_commit api gid c x = (es x, Err ''failed to process commit'')"
  shows "group_commit api gid i (ds i) c (as, xs) =
    ((map ds [0..<length as], map es xs),
     Changed (replicate (length as) (Ok ())) (replicate (length xs) (Err ''failed to process commit'')))"
proof -
  have rs: "map (\<lambda>j. if j = i then (ds i, Ok ()) else mls_process_commit api gid c (as ! j)) [0..<length as] =
      map (\<lambda>j. (ds j, Ok ())) [0..<length as]" using assms(1) by simp
  have os: "map (mls_process_commit api gid c) xs = map (\<lambda>x. (es x, Err ''failed to process commit'')) xs"
    using assms(2) by simp
  show ?thesis
    unfolding group_commit_def fst_conv snd_conv rs os
    by (simp add: Let_def comp_def map_replicate_const)
qed

lemma group_invite_joins:
  assumes laws: "mls_laws api gid epoch outside leaf" and session: "mls_session epoch outside gid as xs"
    and ok: "i < length as" "length as < 1000" "mg_signer b0 \<notin> mg_signer ` set as"
      "is_ok (snd (mls_generate_key_package api b0))"
  shows "\<exists>as' xs'. group_invite api gid i b0 (as, xs) =
      Some ((as', xs'), event_outcome (length as) (length xs) (Invite i b0)) \<and>
    mls_session epoch outside gid as' xs' \<and> length as' = Suc (length as) \<and> length xs' = length xs \<and>
    mg_signer ` set as' = insert (mg_signer b0) (mg_signer ` set as)"
proof -
  obtain b kpb where kp: "mls_generate_key_package api b0 = (b, Ok kpb)"
    using ok(4) by (cases "mls_generate_key_package api b0"; cases "snd (mls_generate_key_package api b0)") auto
  obtain cb wb b' ds es where inv: "mls_add_member api gid kpb (as ! i) = (ds i, Ok (cb, wb))"
    "mls_process_welcome api wb b = (b', Ok gid)"
    "\<forall>j < length as. j \<noteq> i \<longrightarrow> mls_process_commit api gid cb (as ! j) = (ds j, Ok ())"
    "\<forall>x \<in> set xs. mls_process_commit api gid cb x = (es x, Err ''failed to process commit'')"
    "\<forall>j < length as. same_member leaf gid (as ! j) (ds j)" "mg_signer b' = mg_signer b0"
    "mls_session epoch outside gid (map ds [0..<length as] @ [b']) (map es xs)"
    using session_invite [OF mls_lawsD(4,2) [OF laws] session ok(1,2) kp ok(3)] by metis
  have "mg_signer ` set (map ds [0..<length as] @ [b']) = insert (mg_signer b0) (mg_signer ` set as)"
    using signers_kept [OF inv(5)] inv(6) by simp
  moreover have "group_invite api gid i b0 (as, xs) = Some ((map ds [0..<length as] @ [b'], map es xs),
      event_outcome (length as) (length xs) (Invite i b0))"
    by (simp add: group_invite_def kp inv(1,2) group_commit_merges [OF inv(3,4)])
  ultimately show ?thesis using inv(7) by fastforce
qed

lemma group_expel_removes:
  assumes laws: "mls_laws api gid epoch outside leaf" and session: "mls_session epoch outside gid as xs"
    and ok: "i < length as" "k < length as" "i \<noteq> k"
  shows "\<exists>as' xs'. group_expel api leaf gid i k told (as, xs) =
      Some ((as', xs'), event_outcome (length as) (length xs) (Expel i k told)) \<and>
    mls_session epoch outside gid as' xs' \<and> length as' = length as - 1 \<and> length xs' = Suc (length xs) \<and>
    mg_signer ` set as' \<subseteq> mg_signer ` set as"
proof -
  let ?js = "[j \<leftarrow> [0..<length as]. j \<noteq> k]"
  obtain cb ds es where rem:
    "mls_remove_member api gid (leaf_at leaf gid (as ! k)) (as ! i) = (ds i, Ok cb)"
    "\<forall>j < length as. j \<noteq> i \<longrightarrow> mls_process_commit api gid cb (as ! j) = (ds j, Ok ())"
    "\<forall>x \<in> set xs. mls_process_commit api gid cb x = (es x, Err ''failed to process commit'')"
    "\<forall>j < length as. same_member leaf gid (as ! j) (ds j)"
    "\<forall>told. mls_session epoch outside gid (map ds ?js) ((if told then ds k else as ! k) # map es xs)"
    using session_expel [OF mls_lawsD(5) [OF laws] session ok] by metis
  have "length ?js = length as - 1"
    by (rule length_upt_without [OF ok(2)])
  moreover have "mg_signer ` set (map ds ?js) \<subseteq> mg_signer ` set as"
    using rem(4) by (auto simp: same_member_def)
  moreover have "map ((!) (map ds [0..<length as])) ?js = map ds ?js"
    by (rule map_cong) simp_all
  then have "group_expel api leaf gid i k told (as, xs) = Some ((map ds ?js,
      (if told then ds k else as ! k) # map es xs), event_outcome (length as) (length xs) (Expel i k told))"
    using rem(1) ok(2)
    by (simp add: group_expel_def group_commit_merges [OF rem(2,3)])
  ultimately show ?thesis using rem(5) by (intro exI conjI) (assumption, blast, simp_all)
qed

lemma group_step_succeeds:
  assumes laws: "mls_laws api gid epoch outside leaf" and session: "mls_session epoch outside gid as xs"
    and ok: "event_ok api used (length as) ev" and used: "mg_signer ` set as \<subseteq> used"
  shows "\<exists>as' xs'. group_step api leaf gid ev (as, xs) = Some ((as', xs'), event_outcome (length as) (length xs) ev) \<and>
    mls_session epoch outside gid as' xs' \<and> length as' = members_after (length as) ev \<and>
    length xs' = expelled_after (length xs) ev \<and> mg_signer ` set as' \<subseteq> signers_after used ev"
proof (cases ev)
  case (Say i pt)
  then show ?thesis using group_say_hears [OF laws session, of i pt] ok used by auto
next
  case (Invite i b)
  then show ?thesis using group_invite_joins [OF laws session, of i b] ok used by fastforce
next
  case (Expel i k told)
  then show ?thesis using group_expel_removes [OF laws session, of i k told] ok used by fastforce
qed

lemma group_run_succeeds:
  assumes laws: "mls_laws api gid epoch outside leaf"
  shows "mls_session epoch outside gid as xs \<Longrightarrow> history_ok api used (length as) evs \<Longrightarrow>
    mg_signer ` set as \<subseteq> used \<Longrightarrow>
    \<exists>as' xs'. group_run api leaf gid evs (as, xs) =
        Some ((as', xs'), history_outcomes (length as) (length xs) evs) \<and>
      mls_session epoch outside gid as' xs' \<and> length as' = fold (\<lambda>ev n. members_after n ev) evs (length as)"
proof (induction evs arbitrary: as xs used)
  case (Cons ev evs)
  have "event_ok api used (length as) ev" using Cons.prems(2) by simp
  then obtain as1 xs1 where one: "group_step api leaf gid ev (as, xs) =
      Some ((as1, xs1), event_outcome (length as) (length xs) ev)" "mls_session epoch outside gid as1 xs1"
    "length as1 = members_after (length as) ev" "length xs1 = expelled_after (length xs) ev"
    "mg_signer ` set as1 \<subseteq> signers_after used ev"
    using group_step_succeeds [OF laws Cons.prems(1) _ Cons.prems(3)] by blast
  have "history_ok api (signers_after used ev) (length as1) evs"
    using Cons.prems(2) one(3) by simp
  from Cons.IH [OF one(2) this one(5)] show ?case using one(1,3,4) by fastforce
qed simp

lemma session_member:
  assumes "mls_session epoch outside gid as xs" "roster_law api gid epoch" "a \<in> set as"
  obtains g where "map_of (mg_groups a) gid = Some g" "om_member_count api g = length as"
    "om_group_id api g = gid"
proof -
  obtain g where g: "map_of (mg_groups a) gid = Some g"
    using assms(1,3) unfolding mls_session_def knows_group_def by blast
  have "(mg_signer a, mg_provider a, g) \<in> set (map (member_of gid) as)"
    using assms(3) g by (force simp: member_of_def)
  then show ?thesis
    using that [OF g] assms(1,2) unfolding mls_session_def roster_law_def by (metis length_map)
qed

lemma create_session:
  assumes "create_law api gid epoch leaf" "mls_create_group api gid a = Ret (a', Ok ())"
  shows "mls_session epoch outside gid [a'] [] \<and> mg_signer a' = mg_signer a \<and>
    leaf_at leaf gid a' = 0"
proof -
  obtain p g where "om_build_group api gid (mg_signer a) (mg_credential_with_key a) (mg_provider a) = (p, Some g)"
    "a' = a\<lparr>mg_provider := p, mg_groups := hm_insert gid g (mg_groups a)\<rparr>"
    using assms(2) by (auto simp: mls_create_group_def split: if_splits prod.splits option.splits)
  then show ?thesis
    using assms(1) unfolding create_law_def by (fastforce simp: mls_session_def member_of_def knows_group_def leaf_at_def)
qed

lemma add_member_full:
  assumes "map_of (mg_groups a) gid = Some g" "1000 \<le> om_member_count api g"
  shows "mls_add_member api gid kp a = (a, Err (''group member limit ('' @ show_nat 1000 @ '') reached''))"
  unfolding mls_add_member_def by (rule with_group_same [OF assms(1)]) (use assms(2) in \<open>simp add: add_member_body_eq\<close>)

section \<open>Correctness\<close>


definition leaf_client :: "nat \<Rightarrow> (nat, bytes, nat, leaf_group) mls_manager" where
  "leaf_client n = \<lparr>mg_provider = 0, mg_credential_with_key = [5], mg_signer = n, mg_groups = []\<rparr>"

definition leaf_creator :: "(nat, bytes, nat, leaf_group) mls_manager" where
  "leaf_creator = (leaf_client 0)\<lparr>mg_provider := 1, mg_groups := [([8], \<lparr>lg_id = [8], lg_epoch = 0,
     lg_leaves = [0], lg_own = 0, lg_active = True, lg_pending = []\<rparr>)]\<rparr>"


end
