(* ===== verification/Encryptor.thy ===== *)
theory Encryptor
  imports Mls
begin

text \<open>
  The trait \<^verbatim>\<open>Encryptor\<close> of \<^verbatim>\<open>crates/mercury-crypto/src/encryptor.rs\<close> and
  its two implementations. The locale is the trait's contract for a sender and a receiver that
  are linked in a group: an acceptable plaintext is encrypted, its ciphertext decrypts to it,
  and the two stay linked. What a client gets from it is proved once: a whole conversation
  arrives as it was sent.
\<close>

section \<open>The trait\<close>

fun send_all ::
  "(bytes \<Rightarrow> bytes \<Rightarrow> 's \<Rightarrow> ('s \<times> (string, bytes) result) exec) \<Rightarrow> bytes \<Rightarrow> bytes list \<Rightarrow> 's \<Rightarrow>
   ('s \<times> (string, bytes list) result) exec" where
  "send_all encrypt gid [] s = Ret (s, Ok [])"
| "send_all encrypt gid (pt # pts) s =
     exec_bind (encrypt gid pt s) (\<lambda>(s', r).
       case r of
         Err e \<Rightarrow> Ret (s', Err e)
       | Ok ct \<Rightarrow> exec_bind (send_all encrypt gid pts s') (\<lambda>(s'', rs).
           Ret (s'', result_bind rs (\<lambda>cts. Ok (ct # cts)))))"

fun receive_all ::
  "(bytes \<Rightarrow> bytes \<Rightarrow> 'r \<Rightarrow> 'r \<times> (string, bytes) result) \<Rightarrow> bytes \<Rightarrow> bytes list \<Rightarrow> 'r \<Rightarrow>
   'r \<times> (string, bytes list) result" where
  "receive_all decrypt gid [] s = (s, Ok [])"
| "receive_all decrypt gid (ct # cts) s =
     st_bind (decrypt gid ct) (\<lambda>pt.
     st_bind (receive_all decrypt gid cts) (\<lambda>pts.
     st_lift (Ok (pt # pts)))) s"

locale encryptor =
  fixes encrypt :: "bytes \<Rightarrow> bytes \<Rightarrow> 's \<Rightarrow> ('s \<times> (string, bytes) result) exec"
    and decrypt :: "bytes \<Rightarrow> bytes \<Rightarrow> 'r \<Rightarrow> 'r \<times> (string, bytes) result"
    and accepts :: "bytes \<Rightarrow> bool"
    and linked :: "bytes \<Rightarrow> 's \<Rightarrow> 'r \<Rightarrow> bool"
  assumes delivers: "linked gid a b \<Longrightarrow> accepts pt \<Longrightarrow>
    \<exists>a' ct b'. encrypt gid pt a = Ret (a', Ok ct) \<and> decrypt gid ct b = (b', Ok pt) \<and> linked gid a' b'"
begin

lemma conversation:
  assumes "linked gid a b" "\<forall>pt \<in> set pts. accepts pt"
  shows "\<exists>a' cts b'. send_all encrypt gid pts a = Ret (a', Ok cts) \<and>
    receive_all decrypt gid cts b = (b', Ok pts) \<and> linked gid a' b'"
  using assms
proof (induction pts arbitrary: a b)
  case (Cons pt pts)
  obtain a1 ct b1 where first: "encrypt gid pt a = Ret (a1, Ok ct)" "decrypt gid ct b = (b1, Ok pt)"
    "linked gid a1 b1"
    using delivers [OF Cons.prems(1), of pt] Cons.prems(2) by auto
  obtain a' cts b' where rest: "send_all encrypt gid pts a1 = Ret (a', Ok cts)"
    "receive_all decrypt gid cts b1 = (b', Ok pts)" "linked gid a' b'"
    using Cons.IH [OF first(3)] Cons.prems(2) by auto
  have "send_all encrypt gid (pt # pts) a = Ret (a', Ok (ct # cts))"
    "receive_all decrypt gid (ct # cts) b = (b', Ok (pt # pts))"
    using first(1,2) rest(1,2) by (simp_all add: st_bind_def st_lift_def)
  then show ?case using rest(3) by blast
qed simp

end

section \<open>The pass-through encryptor\<close>

definition noop_encrypt :: "bytes \<Rightarrow> bytes \<Rightarrow> unit \<Rightarrow> (unit \<times> (string, bytes) result) exec" where
  "noop_encrypt group_id plaintext self = Ret (self, Ok plaintext)"

definition noop_decrypt :: "bytes \<Rightarrow> bytes \<Rightarrow> unit \<Rightarrow> unit \<times> (string, bytes) result" where
  "noop_decrypt group_id ciphertext self = (self, Ok ciphertext)"

interpretation noop: encryptor noop_encrypt noop_decrypt "\<lambda>_. True" "\<lambda>_ _ _. True"
  by unfold_locales (simp add: noop_encrypt_def noop_decrypt_def)

section \<open>The group manager\<close>

text \<open>
  What the library guarantees to two members of a group in the same epoch, related by \<open>rel\<close>:
  a message made with the sender's signer is serialised, parses as a protocol message, and is
  processed by the receiver as the plaintext it was made from; the two stay related.
\<close>

definition delivery_law ::
  "('p, 'c, 's, 'g, 'o) openmls \<Rightarrow> ('s \<Rightarrow> 'p \<times> 'g \<Rightarrow> 'p \<times> 'g \<Rightarrow> bool) \<Rightarrow> bool" where
  "delivery_law api rel \<longleftrightarrow>
     (\<forall>s st rt pt. rel s st rt \<longrightarrow>
       (\<exists>st' msg ct. om_create_message api s pt st = (st', Some msg) \<and>
         om_tls_serialize api msg = Some ct \<and>
         (\<exists>msg_in protocol rt'. om_parse_message api ct = Some msg_in \<and>
            om_into_protocol api msg_in = Ok protocol \<and>
            om_process_message api protocol rt = (rt', Some (Application_Message pt)) \<and>
            rel s st' rt')))"

definition mls_linked ::
  "('p, 'c, 's, 'g, 'o) openmls \<Rightarrow> ('s \<Rightarrow> 'p \<times> 'g \<Rightarrow> 'p \<times> 'g \<Rightarrow> bool) \<Rightarrow> bytes \<Rightarrow>
   ('p, 'c, 's, 'g) mls_manager \<Rightarrow> ('p, 'c, 's, 'g) mls_manager \<Rightarrow> bool" where
  "mls_linked api rel gid a b \<longleftrightarrow>
     delivery_law api rel \<and>
     (\<exists>g h. map_of (mg_groups a) gid = Some g \<and> map_of (mg_groups b) gid = Some h \<and>
        rel (mg_signer a) (mg_provider a, g) (mg_provider b, h))"

lemma mls_delivers:
  assumes "mls_linked api rel gid a b" "length pt \<le> 65536"
  shows "\<exists>a' ct b'. mls_encrypt api gid pt a = Ret (a', Ok ct) \<and>
    mls_decrypt api gid ct b = (b', Ok pt) \<and> mls_linked api rel gid a' b'"
proof -
  obtain g h where gh: "map_of (mg_groups a) gid = Some g" "map_of (mg_groups b) gid = Some h"
    "rel (mg_signer a) (mg_provider a, g) (mg_provider b, h)" and law: "delivery_law api rel"
    using assms(1) by (auto simp: mls_linked_def)
  obtain p' g' msg ct msg_in protocol q' h' where
    send: "om_create_message api (mg_signer a) pt (mg_provider a, g) = ((p', g'), Some msg)"
      "om_tls_serialize api msg = Some ct" and
    recv: "om_parse_message api ct = Some msg_in" "om_into_protocol api msg_in = Ok protocol"
      "om_process_message api protocol (mg_provider b, h) = ((q', h'), Some (Application_Message pt))"
      "rel (mg_signer a) (p', g') (q', h')"
    using law gh(3) unfolding delivery_law_def by (metis surj_pair)
  have "mls_encrypt api gid pt a =
      Ret (a\<lparr>mg_provider := p', mg_groups := hm_insert gid g' (mg_groups a)\<rparr>, Ok ct)"
    by (rule encrypt_Ok [OF gh(1) assms(2) send])
  moreover have "mls_decrypt api gid ct b =
      (b\<lparr>mg_provider := q', mg_groups := hm_insert gid h' (mg_groups b)\<rparr>, Ok pt)"
    by (rule decrypt_Ok [OF gh(2) recv(1-3)])
  ultimately show ?thesis
    using law recv(4) by (fastforce simp: mls_linked_def)
qed

text \<open>The manager's implementation of the trait calls its own methods of the same names.\<close>

definition encryptor_mls_encrypt ::
  "('p, 'c, 's, 'g, 'o) openmls \<Rightarrow> bytes \<Rightarrow> bytes \<Rightarrow> ('p, 'c, 's, 'g) mls_manager \<Rightarrow>
   (('p, 'c, 's, 'g) mls_manager \<times> (string, bytes) result) exec" where
  "encryptor_mls_encrypt api group_id plaintext self = mls_encrypt api group_id plaintext self"

definition encryptor_mls_decrypt ::
  "('p, 'c, 's, 'g, 'o) openmls \<Rightarrow> bytes \<Rightarrow> bytes \<Rightarrow>
   (('p, 'c, 's, 'g) mls_manager, string, bytes) st_result" where
  "encryptor_mls_decrypt api group_id ciphertext self = mls_decrypt api group_id ciphertext self"

lemma encryptor_mls_eq [simp]:
  "encryptor_mls_encrypt api = mls_encrypt api" "encryptor_mls_decrypt api = mls_decrypt api"
  by (simp_all add: encryptor_mls_encrypt_def encryptor_mls_decrypt_def fun_eq_iff)

interpretation mls: encryptor "encryptor_mls_encrypt api" "encryptor_mls_decrypt api"
  "\<lambda>pt. length pt \<le> 65536" "mls_linked api rel"
  rewrites "encryptor_mls_encrypt api = mls_encrypt api"
    and "encryptor_mls_decrypt api = mls_decrypt api"
  for api rel
proof -
  show "encryptor (encryptor_mls_encrypt api) (encryptor_mls_decrypt api)
      (\<lambda>pt. length pt \<le> 65536) (mls_linked api rel)"
    by unfold_locales (unfold encryptor_mls_eq, rule mls_delivers)
qed simp_all

section \<open>Correctness\<close>

text \<open>
  C16. A conversation arrives: messages of at most 64 KB encrypted one after the other by a
  member of a group and decrypted in that order by a member in the same epoch return without a
  panic or an error on either side, and the receiver has exactly the plaintexts sent.
\<close>

theorem mls_conversation:
  assumes "delivery_law api rel"
    and "map_of (mg_groups a) gid = Some g" "map_of (mg_groups b) gid = Some h"
    and "rel (mg_signer a) (mg_provider a, g) (mg_provider b, h)"
    and "\<forall>pt \<in> set pts. length pt \<le> 65536"
  shows "\<exists>a' cts b'. send_all (mls_encrypt api) gid pts a = Ret (a', Ok cts) \<and>
    receive_all (mls_decrypt api) gid cts b = (b', Ok pts)"
proof -
  have "mls_linked api rel gid a b" using assms by (auto simp: mls_linked_def)
  from mls.conversation [OF this assms(5)] show ?thesis by blast
qed

theorem mls_conversation_witness:
  "\<exists>a' cts b'. send_all (mls_encrypt plain_openmls) [1] [[7, 8], [], [9]] plain_manager = Ret (a', Ok cts) \<and>
     receive_all (mls_decrypt plain_openmls) [1] cts plain_manager = (b', Ok [[7, 8], [], [9]])"
proof -
  have "delivery_law plain_openmls (\<lambda>_ _ _. True)"
    by (auto simp: delivery_law_def plain_openmls_def)
  then show ?thesis
    by (rule mls_conversation) (auto simp: plain_manager_def)
qed

text \<open>
  The pass-through encryptor satisfies the same contract with no precondition: any
  conversation arrives, and every message travels unchanged.
\<close>

theorem noop_conversation:
  "\<exists>cts. send_all noop_encrypt gid pts () = Ret ((), Ok cts) \<and> cts = pts \<and>
     receive_all noop_decrypt gid cts () = ((), Ok pts)"
proof -
  have "send_all noop_encrypt gid pts () = Ret ((), Ok pts)"
    by (induction pts) (simp_all add: noop_encrypt_def)
  moreover obtain cts b where "send_all noop_encrypt gid pts () = Ret ((), Ok cts)"
    "receive_all noop_decrypt gid cts () = (b, Ok pts)"
    using noop.conversation [of pts gid "()" "()"] by auto
  ultimately show ?thesis by simp
qed

end
