(* ===== verification/Nif.thy ===== *)
theory Nif
  imports Hlc Message Channel Time_Bucket Proto Encryptor
begin

text \<open>
  The functions exported to Elixir, \<^verbatim>\<open>crates/mercury-nif/src/lib.rs\<close>: parsing of the
  arguments, validation, clocks, the group manager behind a mutex, and the wire format. A NIF
  returns a value or an error term; a Rust panic unwinds to the NIF boundary. The resource of
  the MLS functions is a mutex, and a panic while its guard is alive poisons it. Ids and
  timestamps the functions draw themselves are arguments; copying bytes into a binary of the
  same length is the identity.
\<close>

section \<open>Terms\<close>

datatype atom =
    A_Ok
  | A_Error
  | A_Invalid_Message
  | A_Invalid_Channel
  | A_Invalid_Content_Type
  | A_Invalid_Channel_Type
  | A_Bad_Length

datatype nif_error = Atom_Term atom | Text_Term string

type_synonym 'a nif_result = "(nif_error, 'a) result"

section \<open>Ids, buckets and validation\<close>

definition nif_generate_message_id :: "bytes16 \<Rightarrow> bytes" where
  "nif_generate_message_id fresh = message_id_as_bytes (message_id_new fresh)"

definition nif_generate_channel_id :: "bytes16 \<Rightarrow> bytes" where
  "nif_generate_channel_id fresh = channel_id_as_bytes (channel_id_new fresh)"

definition nif_compute_time_bucket :: "u64 \<Rightarrow> u32 exec" where
  "nif_compute_time_bucket timestamp_ms =
     exec_bind (tb_from_timestamp_ms timestamp_ms) (\<lambda>b. Ret (tb_as_u32 b))"

definition parse_content_type :: "u8 \<Rightarrow> content_type nif_result" where
  "parse_content_type ct =
     (if ct = 0 then Ok Text
      else if ct = 1 then Ok Image
      else if ct = 2 then Ok File
      else if ct = 3 then Ok Reaction
      else if ct = 4 then Ok Edit
      else if ct = 5 then Ok Delete
      else Err (Atom_Term A_Invalid_Content_Type))"

definition parse_uuid_16 :: "bytes \<Rightarrow> bytes16 nif_result" where
  "parse_uuid_16 bin = (if length bin = 16 then Ok bin else Err (Atom_Term A_Bad_Length))"

text \<open>\<^verbatim>\<open>now\<close> is the system clock in nanoseconds from the epoch.\<close>

definition nif_now_ms :: "int \<Rightarrow> u64 exec" where
  "nif_now_ms now =
     (if now < 0 then Panic (Expect_Failed ''clock'')
      else expect ''timestamp fits u64'' (u64_try_from (nat (now div 1000000))))"

definition nif_validate_message ::
  "int \<Rightarrow> message_id \<Rightarrow> bytes \<Rightarrow> bytes \<Rightarrow> bytes \<Rightarrow> bytes \<Rightarrow> u8 \<Rightarrow> (atom \<times> atom) exec" where
  "nif_validate_message now fresh_id tenant_id channel_id sender_id content content_type =
     (case parse_content_type content_type of
        Err e \<Rightarrow> Ret (A_Error, A_Invalid_Content_Type)
      | Ok ct \<Rightarrow>
     (case parse_uuid_16 tenant_id of
        Err e \<Rightarrow> Ret (A_Error, A_Invalid_Message)
      | Ok tid \<Rightarrow>
     (case parse_uuid_16 channel_id of
        Err e \<Rightarrow> Ret (A_Error, A_Invalid_Message)
      | Ok cid \<Rightarrow>
     (case parse_uuid_16 sender_id of
        Err e \<Rightarrow> Ret (A_Error, A_Invalid_Message)
      | Ok sid \<Rightarrow>
          exec_bind (nif_now_ms now) (\<lambda>created_at.
          exec_bind (message_validate
             \<lparr>msg_tenant_id = tenant_id_from_bytes tid, msg_channel_id = channel_id_from_bytes cid,
              msg_id = fresh_id, msg_sender_id = user_id_from_bytes sid,
              msg_encrypted_content = content, msg_content_type = ct, msg_reply_to = None,
              msg_created_at = created_at, msg_edited_at = None, msg_server_received_at = None\<rparr>)
            (\<lambda>r. Ret (case r of
                 Ok u \<Rightarrow> (A_Ok, A_Ok)
               | Err e \<Rightarrow> (A_Error, A_Invalid_Message))))))))"

definition parse_channel_type :: "u8 \<Rightarrow> channel_type nif_result" where
  "parse_channel_type ct =
     (if ct = 0 then Ok Dm
      else if ct = 1 then Ok Group
      else if ct = 2 then Ok Broadcast
      else Err (Atom_Term A_Invalid_Channel_Type))"

definition nif_validate_channel ::
  "channel_id \<Rightarrow> user_id \<Rightarrow> bytes \<Rightarrow> u8 \<Rightarrow> string option \<Rightarrow> (atom \<times> atom) exec" where
  "nif_validate_channel fresh_id fresh_user tenant_id channel_type name =
     (case parse_channel_type channel_type of
        Err e \<Rightarrow> Ret (A_Error, A_Invalid_Channel_Type)
      | Ok ct \<Rightarrow>
     (case parse_uuid_16 tenant_id of
        Err e \<Rightarrow> Ret (A_Error, A_Invalid_Channel)
      | Ok tid \<Rightarrow>
          exec_bind (channel_validate
             \<lparr>ch_tenant_id = tenant_id_from_bytes tid, ch_id = fresh_id, ch_channel_type = ct,
              ch_name = name, ch_member_ids = [], ch_created_by = fresh_user, ch_created_at = 1\<rparr>)
            (\<lambda>r. Ret (case r of
                 Ok u \<Rightarrow> (A_Ok, A_Ok)
               | Err e \<Rightarrow> (A_Error, A_Invalid_Channel)))))"

section \<open>Clocks\<close>

definition nif_hlc_tick :: "int \<Rightarrow> u64 \<Rightarrow> u32 \<Rightarrow> bytes \<Rightarrow> (u64 \<times> u32) nif_result exec" where
  "nif_hlc_tick now wall_clock cnt node =
     (case parse_uuid_16 node of
        Err e \<Rightarrow> Ret (Err e)
      | Ok n \<Rightarrow>
          exec_bind (hlc_tick now \<lparr>wall_clock_ms = wall_clock, counter = cnt, node_id = n\<rparr>) (\<lambda>h.
            Ret (Ok (wall_clock_ms h, counter h))))"

definition nif_hlc_merge ::
  "overflow \<Rightarrow> int \<Rightarrow> u64 \<Rightarrow> u32 \<Rightarrow> bytes \<Rightarrow> u64 \<Rightarrow> u32 \<Rightarrow> bytes \<Rightarrow>
   (u64 \<times> u32) nif_result exec" where
  "nif_hlc_merge m now local_wall local_counter local_node remote_wall remote_counter remote_node =
     (case parse_uuid_16 local_node of
        Err e \<Rightarrow> Ret (Err e)
      | Ok ln \<Rightarrow>
     (case parse_uuid_16 remote_node of
        Err e \<Rightarrow> Ret (Err e)
      | Ok rn \<Rightarrow>
          exec_bind (hlc_merge m now
              \<lparr>wall_clock_ms = local_wall, counter = local_counter, node_id = ln\<rparr>
              \<lparr>wall_clock_ms = remote_wall, counter = remote_counter, node_id = rn\<rparr>) (\<lambda>h.
            Ret (Ok (wall_clock_ms h, counter h)))))"

section \<open>The manager behind its mutex\<close>

record 'm mutex =
  mx_value :: 'm
  mx_poisoned :: bool

text \<open>
  \<^verbatim>\<open>lock().map_err(..)?\<close>, the work on the value, and the release of the guard: at the end
  of the call, or while a panic unwinds, which poisons the mutex.
\<close>

definition with_lock ::
  "('m \<Rightarrow> ('m \<times> (string, 'a) result) exec) \<Rightarrow> 'm mutex \<Rightarrow> 'm mutex \<times> 'a nif_result exec" where
  "with_lock work mx =
     (if mx_poisoned mx then (mx, Ret (Err (Text_Term ''lock poisoned'')))
      else case work (mx_value mx) of
          Panic p \<Rightarrow> (mx\<lparr>mx_poisoned := True\<rparr>, Panic p)
        | Ret (m', r) \<Rightarrow> (mx\<lparr>mx_value := m'\<rparr>, Ret (map_err Text_Term r)))"

definition nif_mls_create_identity ::
  "('p, 'c, 's, 'g, 'o) openmls \<Rightarrow> 'p \<Rightarrow> 's option \<Rightarrow> bytes \<Rightarrow>
   (atom \<times> ('p, 'c, 's, 'g) mls_manager mutex) nif_result exec" where
  "nif_mls_create_identity api provider keypair identity =
     exec_bind (mls_new api provider keypair identity) (\<lambda>r.
       Ret (result_bind (map_err Text_Term r) (\<lambda>mgr.
         Ok (A_Ok, \<lparr>mx_value = mgr, mx_poisoned = False\<rparr>))))"

definition nif_mls_generate_key_package ::
  "('p, 'c, 's, 'g, 'o) openmls \<Rightarrow> ('p, 'c, 's, 'g) mls_manager mutex \<Rightarrow>
   ('p, 'c, 's, 'g) mls_manager mutex \<times> (atom \<times> bytes) nif_result exec" where
  "nif_mls_generate_key_package api =
     with_lock (\<lambda>mgr. Ret (reply_map (Pair A_Ok) (mls_generate_key_package api mgr)))"

definition nif_mls_create_group ::
  "('p, 'c, 's, 'g, 'o) openmls \<Rightarrow> bytes \<Rightarrow> ('p, 'c, 's, 'g) mls_manager mutex \<Rightarrow>
   ('p, 'c, 's, 'g) mls_manager mutex \<times> atom nif_result exec" where
  "nif_mls_create_group api group_id =
     with_lock (\<lambda>mgr. exec_bind (mls_create_group api group_id mgr) (\<lambda>r. Ret (reply_map (\<lambda>_. A_Ok) r)))"

definition nif_mls_add_member ::
  "('p, 'c, 's, 'g, 'o) openmls \<Rightarrow> bytes \<Rightarrow> bytes \<Rightarrow> ('p, 'c, 's, 'g) mls_manager mutex \<Rightarrow>
   ('p, 'c, 's, 'g) mls_manager mutex \<times> (atom \<times> bytes \<times> bytes) nif_result exec" where
  "nif_mls_add_member api group_id key_package =
     with_lock (\<lambda>mgr. Ret (reply_map (Pair A_Ok) (mls_add_member api group_id key_package mgr)))"

definition nif_mls_encrypt ::
  "('p, 'c, 's, 'g, 'o) openmls \<Rightarrow> bytes \<Rightarrow> bytes \<Rightarrow> ('p, 'c, 's, 'g) mls_manager mutex \<Rightarrow>
   ('p, 'c, 's, 'g) mls_manager mutex \<times> (atom \<times> bytes) nif_result exec" where
  "nif_mls_encrypt api group_id plaintext =
     with_lock (\<lambda>mgr. exec_bind (mls_encrypt api group_id plaintext mgr) (\<lambda>r.
       Ret (reply_map (Pair A_Ok) r)))"

definition nif_mls_decrypt ::
  "('p, 'c, 's, 'g, 'o) openmls \<Rightarrow> bytes \<Rightarrow> bytes \<Rightarrow> ('p, 'c, 's, 'g) mls_manager mutex \<Rightarrow>
   ('p, 'c, 's, 'g) mls_manager mutex \<times> (atom \<times> bytes) nif_result exec" where
  "nif_mls_decrypt api group_id ciphertext =
     with_lock (\<lambda>mgr. Ret (reply_map (Pair A_Ok) (mls_decrypt api group_id ciphertext mgr)))"

definition nif_mls_process_welcome ::
  "('p, 'c, 's, 'g, 'o) openmls \<Rightarrow> bytes \<Rightarrow> ('p, 'c, 's, 'g) mls_manager mutex \<Rightarrow>
   ('p, 'c, 's, 'g) mls_manager mutex \<times> (atom \<times> bytes) nif_result exec" where
  "nif_mls_process_welcome api welcome =
     with_lock (\<lambda>mgr. Ret (reply_map (Pair A_Ok) (mls_process_welcome api welcome mgr)))"

definition nif_mls_process_commit ::
  "('p, 'c, 's, 'g, 'o) openmls \<Rightarrow> bytes \<Rightarrow> bytes \<Rightarrow> ('p, 'c, 's, 'g) mls_manager mutex \<Rightarrow>
   ('p, 'c, 's, 'g) mls_manager mutex \<times> atom nif_result exec" where
  "nif_mls_process_commit api group_id commit =
     with_lock (\<lambda>mgr. Ret (reply_map (\<lambda>_. A_Ok) (mls_process_commit api group_id commit mgr)))"

section \<open>The wire format\<close>

text \<open>Errors of the runtime reach Elixir as their text, \<open>show_error\<close>.\<close>

definition nif_envelope_encode ::
  "('b, 'm, 'r, 'l, 'e) capnp \<Rightarrow> bytes \<Rightarrow> bytes \<Rightarrow> bytes \<Rightarrow> bytes \<Rightarrow> u64 \<Rightarrow> bytes \<Rightarrow> bytes exec" where
  "nif_envelope_encode api tenant_id channel_id sender_id message_id timestamp payload =
     envelope_encode api tenant_id channel_id sender_id message_id timestamp payload"

definition nif_envelope_decode ::
  "('b, 'm, 'r, 'l, 'e) capnp \<Rightarrow> ('e \<Rightarrow> string) \<Rightarrow> bytes \<Rightarrow>
   (bytes \<times> bytes \<times> bytes \<times> bytes \<times> u64 \<times> bytes) nif_result" where
  "nif_envelope_decode api show_error bin =
     result_bind (map_err (Text_Term \<circ> show_error) (envelope_decode api bin)) (\<lambda>decoded.
       Ok (de_tenant_id decoded, de_channel_id decoded, de_sender_id decoded,
           de_message_id decoded, de_timestamp decoded, de_payload decoded))"

definition nif_typing_encode :: "('b, 'm, 'r, 'l, 'e) capnp \<Rightarrow> bytes \<Rightarrow> bytes exec" where
  "nif_typing_encode api user_id = typing_encode api user_id"

definition nif_typing_decode ::
  "('b, 'm, 'r, 'l, 'e) capnp \<Rightarrow> ('e \<Rightarrow> string) \<Rightarrow> bytes \<Rightarrow> bytes nif_result" where
  "nif_typing_decode api show_error bin = map_err (Text_Term \<circ> show_error) (typing_decode api bin)"

definition nif_read_receipt_encode ::
  "('b, 'm, 'r, 'l, 'e) capnp \<Rightarrow> bytes \<Rightarrow> bytes \<Rightarrow> bytes exec" where
  "nif_read_receipt_encode api user_id message_id = read_receipt_encode api user_id message_id"

definition nif_read_receipt_decode ::
  "('b, 'm, 'r, 'l, 'e) capnp \<Rightarrow> ('e \<Rightarrow> string) \<Rightarrow> bytes \<Rightarrow> (bytes \<times> bytes) nif_result" where
  "nif_read_receipt_decode api show_error bin =
     result_bind (map_err (Text_Term \<circ> show_error) (read_receipt_decode api bin)) (\<lambda>rr.
       Ok (dr_user_id rr, dr_message_id rr))"

definition nif_mls_key_package_capnp_encode ::
  "('b, 'm, 'r, 'l, 'e) capnp \<Rightarrow> bytes \<Rightarrow> bytes exec" where
  "nif_mls_key_package_capnp_encode api key_package = mls_key_package_encode api key_package"

definition nif_mls_key_package_capnp_decode ::
  "('b, 'm, 'r, 'l, 'e) capnp \<Rightarrow> ('e \<Rightarrow> string) \<Rightarrow> bytes \<Rightarrow> bytes nif_result" where
  "nif_mls_key_package_capnp_decode api show_error bin =
     map_err (Text_Term \<circ> show_error) (mls_key_package_decode api bin)"

definition nif_mls_key_package_list_encode ::
  "('b, 'm, 'r, 'l, 'e) capnp \<Rightarrow> bytes list \<Rightarrow> bytes exec" where
  "nif_mls_key_package_list_encode api packages = mls_key_package_list_encode api packages"

definition nif_mls_key_package_list_decode ::
  "('b, 'm, 'r, 'l, 'e) capnp \<Rightarrow> ('e \<Rightarrow> string) \<Rightarrow> bytes \<Rightarrow> bytes list nif_result" where
  "nif_mls_key_package_list_decode api show_error bin =
     map_err (Text_Term \<circ> show_error) (mls_key_package_list_decode api bin)"

definition nif_mls_commit_capnp_encode ::
  "('b, 'm, 'r, 'l, 'e) capnp \<Rightarrow> bytes \<Rightarrow> bytes exec" where
  "nif_mls_commit_capnp_encode api commit = mls_commit_encode api commit"

definition nif_mls_commit_capnp_decode ::
  "('b, 'm, 'r, 'l, 'e) capnp \<Rightarrow> ('e \<Rightarrow> string) \<Rightarrow> bytes \<Rightarrow> bytes nif_result" where
  "nif_mls_commit_capnp_decode api show_error bin =
     map_err (Text_Term \<circ> show_error) (mls_commit_decode api bin)"

definition nif_mls_welcome_capnp_encode ::
  "('b, 'm, 'r, 'l, 'e) capnp \<Rightarrow> bytes \<Rightarrow> bytes \<Rightarrow> bytes exec" where
  "nif_mls_welcome_capnp_encode api welcome user_id = mls_welcome_encode api welcome user_id"

definition nif_mls_welcome_capnp_decode ::
  "('b, 'm, 'r, 'l, 'e) capnp \<Rightarrow> ('e \<Rightarrow> string) \<Rightarrow> bytes \<Rightarrow> (bytes \<times> bytes) nif_result" where
  "nif_mls_welcome_capnp_decode api show_error bin =
     result_bind (map_err (Text_Term \<circ> show_error) (mls_welcome_decode api bin)) (\<lambda>w.
       Ok (dw_welcome w, dw_user_id w))"

section \<open>Sequences of calls on a resource\<close>

datatype nif_request =
    N_Generate_Key_Package
  | N_Create_Group bytes
  | N_Add_Member bytes bytes
  | N_Encrypt bytes bytes
  | N_Decrypt bytes bytes
  | N_Process_Welcome bytes
  | N_Process_Commit bytes bytes

datatype nif_outcome = Panicked | Failed nif_error | Succeeded

definition outcome :: "'m \<times> 'a nif_result exec \<Rightarrow> 'm \<times> nif_outcome" where
  "outcome mr =
     (fst mr, case snd mr of
        Panic p \<Rightarrow> Panicked
      | Ret r \<Rightarrow> (case r of Err e \<Rightarrow> Failed e | Ok a \<Rightarrow> Succeeded))"

fun nif_step ::
  "('p, 'c, 's, 'g, 'o) openmls \<Rightarrow> nif_request \<Rightarrow> ('p, 'c, 's, 'g) mls_manager mutex \<Rightarrow>
   ('p, 'c, 's, 'g) mls_manager mutex \<times> nif_outcome" where
  "nif_step api N_Generate_Key_Package mx = outcome (nif_mls_generate_key_package api mx)"
| "nif_step api (N_Create_Group gid) mx = outcome (nif_mls_create_group api gid mx)"
| "nif_step api (N_Add_Member gid kp) mx = outcome (nif_mls_add_member api gid kp mx)"
| "nif_step api (N_Encrypt gid pt) mx = outcome (nif_mls_encrypt api gid pt mx)"
| "nif_step api (N_Decrypt gid ct) mx = outcome (nif_mls_decrypt api gid ct mx)"
| "nif_step api (N_Process_Welcome w) mx = outcome (nif_mls_process_welcome api w mx)"
| "nif_step api (N_Process_Commit gid c) mx = outcome (nif_mls_process_commit api gid c mx)"

fun nif_run ::
  "('p, 'c, 's, 'g, 'o) openmls \<Rightarrow> nif_request list \<Rightarrow> ('p, 'c, 's, 'g) mls_manager mutex \<Rightarrow>
   ('p, 'c, 's, 'g) mls_manager mutex \<times> nif_outcome list" where
  "nif_run api [] mx = (mx, [])"
| "nif_run api (q # qs) mx =
     (case nif_step api q mx of (mx', out) \<Rightarrow>
      (case nif_run api qs mx' of (mx'', outs) \<Rightarrow> (mx'', out # outs)))"

fun nif_panics :: "nif_request \<Rightarrow> bool" where
  "nif_panics (N_Create_Group gid) = (gid = [])"
| "nif_panics (N_Encrypt gid pt) = (65536 < length pt)"
| "nif_panics _ = False"

lemma outcome_with_lock:
  "outcome (with_lock work mx) =
     (if mx_poisoned mx then (mx, Failed (Text_Term ''lock poisoned''))
      else case work (mx_value mx) of
          Panic p \<Rightarrow> (mx\<lparr>mx_poisoned := True\<rparr>, Panicked)
        | Ret (m', Err e) \<Rightarrow> (mx\<lparr>mx_value := m'\<rparr>, Failed (Text_Term e))
        | Ret (m', Ok a) \<Rightarrow> (mx\<lparr>mx_value := m'\<rparr>, Succeeded))"
  by (simp add: outcome_def with_lock_def split: exec.splits prod.splits result.splits)

text \<open>A NIF is the manager's call behind the lock.\<close>

fun manager_request :: "nif_request \<Rightarrow> mls_request" where
  "manager_request N_Generate_Key_Package = Generate_Key_Package"
| "manager_request (N_Create_Group gid) = Create_Group gid"
| "manager_request (N_Add_Member gid kp) = Add_Member gid kp"
| "manager_request (N_Encrypt gid pt) = Encrypt gid pt"
| "manager_request (N_Decrypt gid ct) = Decrypt gid ct"
| "manager_request (N_Process_Welcome w) = Process_Welcome w"
| "manager_request (N_Process_Commit gid c) = Process_Commit gid c"

lemma call_panics_manager_request [simp]: "call_panics (manager_request q) = nif_panics q"
  by (cases q) simp_all

lemmas nif_mls_defs =
  nif_mls_generate_key_package_def nif_mls_create_group_def nif_mls_add_member_def
  nif_mls_encrypt_def nif_mls_decrypt_def nif_mls_process_welcome_def nif_mls_process_commit_def

lemma nif_step_eq:
  "nif_step api q mx =
     (if mx_poisoned mx then (mx, Failed (Text_Term ''lock poisoned''))
      else case mls_call api (manager_request q) (mx_value mx) of
          Panic p \<Rightarrow> (mx\<lparr>mx_poisoned := True\<rparr>, Panicked)
        | Ret (m', Err e) \<Rightarrow> (mx\<lparr>mx_value := m'\<rparr>, Failed (Text_Term e))
        | Ret (m', Ok a) \<Rightarrow> (mx\<lparr>mx_value := m'\<rparr>, Succeeded))"
  by (cases q)
    (auto simp: nif_mls_defs outcome_with_lock reply_map_def result_bind_eq_Err
      split: exec.splits result.splits)

lemma nif_step_poisoned:
  "mx_poisoned mx \<Longrightarrow> nif_step api q mx = (mx, Failed (Text_Term ''lock poisoned''))"
  by (simp add: nif_step_eq)

lemma nif_step_panics:
  assumes "nif_panics q" "\<not> mx_poisoned mx"
  shows "nif_step api q mx = (mx\<lparr>mx_poisoned := True\<rparr>, Panicked)"
  using assms mls_call_panics [of api "manager_request q" "mx_value mx"]
  by (auto simp: nif_step_eq split: exec.splits)

lemma nif_step_returns:
  assumes "\<not> nif_panics q" "\<not> mx_poisoned mx"
  shows "\<not> mx_poisoned (fst (nif_step api q mx)) \<and> snd (nif_step api q mx) \<noteq> Panicked"
  using assms mls_call_panics [of api "manager_request q" "mx_value mx"]
  by (auto simp: nif_step_eq is_ret_iff split: result.splits)

lemma nif_run_poisoned:
  "mx_poisoned mx \<Longrightarrow>
   nif_run api qs mx = (mx, replicate (length qs) (Failed (Text_Term ''lock poisoned'')))"
  by (induction qs) (simp_all add: nif_step_poisoned)

lemma nif_run_append:
  "nif_run api (qs @ rs) mx =
     (case nif_run api qs mx of (mx', outs) \<Rightarrow>
      (case nif_run api rs mx' of (mx'', outs') \<Rightarrow> (mx'', outs @ outs')))"
  by (induction qs arbitrary: mx) (auto split: prod.splits)

lemma nif_run_returns:
  assumes "\<forall>q \<in> set qs. \<not> nif_panics q" "\<not> mx_poisoned mx"
  shows "\<not> mx_poisoned (fst (nif_run api qs mx)) \<and> Panicked \<notin> set (snd (nif_run api qs mx)) \<and>
    length (snd (nif_run api qs mx)) = length qs"
  using assms
proof (induction qs arbitrary: mx)
  case (Cons q qs)
  obtain mx1 out where step: "nif_step api q mx = (mx1, out)" by fastforce
  then have "\<not> mx_poisoned mx1 \<and> out \<noteq> Panicked"
    using Cons.prems nif_step_returns [of q mx api] by simp
  with Cons.IH [of mx1] Cons.prems(1) step show ?case
    by (cases "nif_run api qs mx1") auto
qed simp

section \<open>Correctness\<close>

text \<open>
  C15. One bad call disables the resource: as long as no call creates a group with an empty id or
  encrypts more than 64 KB, no call panics and the mutex is not poisoned; the first such call
  panics, and every later call on the resource, whatever it is, fails with
  \<^verbatim>\<open>lock poisoned\<close>, the manager staying as the calls before the panic left it.
\<close>

theorem nif_poisoned_forever:
  assumes "\<not> mx_poisoned mx" "\<forall>q \<in> set qs. \<not> nif_panics q" "nif_panics bad"
  shows "\<exists>mx' outs. nif_run api qs mx = (mx', outs) \<and> \<not> mx_poisoned mx' \<and> Panicked \<notin> set outs \<and>
    nif_run api (qs @ bad # later) mx =
      (mx'\<lparr>mx_poisoned := True\<rparr>,
       outs @ Panicked # replicate (length later) (Failed (Text_Term ''lock poisoned'')))"
  using nif_run_returns [OF assms(2,1), of api] assms(3)
  by (cases "nif_run api qs mx") (simp add: nif_run_append nif_step_panics nif_run_poisoned)

theorem nif_poisoned_forever_witness:
  "\<exists>mx'. nif_run plain_openmls
       [N_Encrypt [1] [7], N_Create_Group [], N_Encrypt [1] [7], N_Generate_Key_Package]
       \<lparr>mx_value = plain_manager, mx_poisoned = False\<rparr> =
     (mx', [Succeeded, Panicked, Failed (Text_Term ''lock poisoned''),
       Failed (Text_Term ''lock poisoned'')])"
proof -
  let ?mx = "\<lparr>mx_value = plain_manager, mx_poisoned = False\<rparr>"
  have "snd (nif_step plain_openmls (N_Encrypt [1] [7]) ?mx) = Succeeded"
    by (simp add: nif_step_eq reply_map_def mls_encrypt_def MAX_MESSAGE_SIZE_def with_group_def
        plain_manager_def plain_openmls_def st_bind_context st_lift_def to_bytes_def)
  then obtain mx1 where "nif_step plain_openmls (N_Encrypt [1] [7]) ?mx = (mx1, Succeeded)"
    by (metis prod.collapse)
  then show ?thesis
    using nif_poisoned_forever [of ?mx "[N_Encrypt [1] [7]]" "N_Create_Group []" plain_openmls
        "[N_Encrypt [1] [7], N_Generate_Key_Package]"]
    by (auto simp: numeral_2_eq_2 simp del: nif_step.simps)
qed

lemma parse_content_type_Ok:
  "parse_content_type ct = Ok c \<longleftrightarrow>
     (ct, c) \<in> {(0, Text), (1, Image), (2, File), (3, Reaction), (4, Edit), (5, Delete)}"
  "(\<exists>c. parse_content_type ct = Ok c) \<longleftrightarrow> ct \<le> 5"
proof -
  show "parse_content_type ct = Ok c \<longleftrightarrow>
     (ct, c) \<in> {(0, Text), (1, Image), (2, File), (3, Reaction), (4, Edit), (5, Delete)}"
    by (auto simp: parse_content_type_def)
  have "ct \<le> 5 \<longleftrightarrow> ct \<in> {0, 1, 2, 3, 4, 5}"
  proof -
    have "unat ct \<le> 5 \<longleftrightarrow> unat ct \<in> {0, 1, 2, 3, 4, 5}" by auto
    then show ?thesis by (auto simp: word_le_nat_alt word_unat_eq_iff)
  qed
  then show "(\<exists>c. parse_content_type ct = Ok c) \<longleftrightarrow> ct \<le> 5"
    by (auto simp: parse_content_type_def)
qed

lemma parse_uuid_16_Ok [simp]: "parse_uuid_16 b = Ok v \<longleftrightarrow> length b = 16 \<and> v = b"
  by (auto simp: parse_uuid_16_def)

text \<open>
  What \<^verbatim>\<open>validate_message\<close> answers, with the clock readable and past the epoch: the
  arguments are checked in their order, then the content.
\<close>

lemma nif_validate_message_eq:
  assumes "1000000 \<le> now" "now div 1000000 < 2 ^ 64"
  shows "nif_validate_message now fresh t c s content ct =
    Ret (if 5 < ct then (A_Error, A_Invalid_Content_Type)
         else if length t = 16 \<and> length c = 16 \<and> length s = 16 \<and>
           (content = [] \<longrightarrow> ct = 5) \<and> length content \<le> 262144
         then (A_Ok, A_Ok)
         else (A_Error, A_Invalid_Message))"
proof -
  have "nat (now div 1000000) < 2 ^ 64" using assms(2) by (simp add: nat_less_iff)
  then obtain ms where some: "u64_try_from (nat (now div 1000000)) = Some ms"
    using try_from_fits(2) by blast
  then have ms: "nif_now_ms now = Ret ms" "unat ms = nat (now div 1000000)"
    using assms(1) by (auto simp: nif_now_ms_def dest: try_from_SomeD)
  have pos: "ms \<noteq> 0" using ms(2) assms(1) by (auto simp: pos_imp_zdiv_pos_iff)
  show ?thesis
  proof (cases "parse_content_type ct")
    case (Err e)
    then have "5 < ct" using parse_content_type_Ok(2) [of ct] by auto
    then show ?thesis using Err by (simp add: nif_validate_message_def)
  next
    case (Ok k)
    then have "\<not> 5 < ct" and del: "k = Delete \<longleftrightarrow> ct = 5"
      using parse_content_type_Ok [of ct] by (auto simp: not_less)
    then show ?thesis
      using ms(1) pos Ok
      by (auto simp: nif_validate_message_def message_validate_cases message_rules_def parse_uuid_16_def)
  qed
qed

lemma nif_now_ms_time: "nif_now_ms now = Ret ms \<Longrightarrow> 0 \<le> now"
  by (auto simp: nif_now_ms_def split: if_splits)

text \<open>
  Clocks through the NIFs: with sixteen-byte node ids a tick that returns gives a stamp
  (wall clock, counter) after its argument's, and a merge in a checked build one after both
  arguments', so Elixir can order events by the pair alone; any other length of a node id is
  the error \<^verbatim>\<open>bad_length\<close> and never a panic.
\<close>

theorem nif_clocks_advance:
  assumes "nif_hlc_tick now w c node = Ret r" "nif_hlc_merge Checked now' w c node rw rc rnode = Ret q"
  shows "(r = Err (Atom_Term A_Bad_Length) \<longleftrightarrow> length node \<noteq> 16) \<and>
    (q = Err (Atom_Term A_Bad_Length) \<longleftrightarrow> length node \<noteq> 16 \<or> length rnode \<noteq> 16) \<and>
    (length node = 16 \<longrightarrow> (\<exists>v. r = Ok v \<and> (w, c) < v)) \<and>
    (length node = 16 \<and> length rnode = 16 \<longrightarrow> (\<exists>v. q = Ok v \<and> (w, c) < v \<and> (rw, rc) < v))"
proof -
  have node: "parse_uuid_16 b = Ok b" if "length b = 16" for b using that by simp
  have bad: "parse_uuid_16 b = Err (Atom_Term A_Bad_Length)" if "length b \<noteq> 16" for b
    using that by (simp add: parse_uuid_16_def)
  have "\<exists>v. r = Ok v \<and> (w, c) < v" if len: "length node = 16"
  proof -
    obtain h where tick: "hlc_tick now \<lparr>wall_clock_ms = w, counter = c, node_id = node\<rparr> = Ret h"
      "r = Ok (wall_clock_ms h, counter h)"
      using assms(1) by (auto simp: nif_hlc_tick_def node [OF len])
    obtain t where "system_time_ms now = Ret t" using tick(1) hlc_tick_time by blast
    from hlc_tick_step [OF this tick(1)] have "stamp \<lparr>wall_clock_ms = w, counter = c, node_id = node\<rparr> < stamp h"
      by blast
    then show ?thesis by (simp add: tick(2) stamp_def)
  qed
  moreover have "\<exists>v. q = Ok v \<and> (w, c) < v \<and> (rw, rc) < v" if len: "length node = 16" "length rnode = 16"
  proof -
    obtain h where merge: "hlc_merge Checked now' \<lparr>wall_clock_ms = w, counter = c, node_id = node\<rparr>
        \<lparr>wall_clock_ms = rw, counter = rc, node_id = rnode\<rparr> = Ret h" "q = Ok (wall_clock_ms h, counter h)"
      using assms(2) by (auto simp: nif_hlc_merge_def node len)
    from hlc_merge_Checked_stamp [OF merge(1)] show ?thesis by (simp add: merge(2) stamp_def)
  qed
  moreover have "r = Err (Atom_Term A_Bad_Length)" if "length node \<noteq> 16"
    using assms(1) by (simp add: nif_hlc_tick_def bad [OF that])
  moreover have "q = Err (Atom_Term A_Bad_Length)" if "length node \<noteq> 16 \<or> length rnode \<noteq> 16"
    using assms(2) that node bad by (cases "length node = 16") (auto simp: nif_hlc_merge_def)
  ultimately show ?thesis by auto
qed

theorem nif_clocks_advance_witness:
  "nif_hlc_tick 5000000 7 3 (replicate 16 1) = Ret (Ok (7, 4)) \<and>
   nif_hlc_merge Checked 5000000 7 3 (replicate 16 1) 9 5 (replicate 16 2) = Ret (Ok (9, 6)) \<and>
   (7 :: u64, 3 :: u32) < (9, 6)"
proof -
  have tick: "nif_hlc_tick 5000000 7 3 (replicate 16 1) = Ret (Ok (7, 4))"
    by (simp add: nif_hlc_tick_def parse_uuid_16_def hlc_tick_def system_time_ms_def
        u64_try_from_def checked_add_def)
  have merge: "nif_hlc_merge Checked 5000000 7 3 (replicate 16 1) 9 5 (replicate 16 2) = Ret (Ok (9, 6))"
    by (simp add: nif_hlc_merge_def parse_uuid_16_def hlc_merge_def system_time_ms_def
        u64_try_from_def add_ovf_def checked_add_def)
  from nif_clocks_advance [OF tick merge] tick merge show ?thesis by simp
qed

end
