(* ===== verification/Sdk.thy ===== *)
theory Sdk
  imports Delta Message Time_Bucket Mls
begin

text \<open>
  The functions compiled to WebAssembly, \<^verbatim>\<open>crates/mercury-sdk-core/src/lib.rs\<close>:
  validation that answers with a text (empty for success), the group manager as a JavaScript
  class, whose errors are texts with the operation's prefix, and the checks on deltas. The
  packing of an addition's two results is read back by \<^verbatim>\<open>unpackAddMember\<close> of the
  JavaScript SDK, which is modelled with it. The JSON parser is a parameter.
\<close>

section \<open>Ids, buckets and validation\<close>

definition sdk_generate_message_id :: "'e id_text \<Rightarrow> bytes16 \<Rightarrow> string" where
  "sdk_generate_message_id ulid fresh = message_id_fmt ulid (message_id_new fresh)"

definition sdk_compute_time_bucket :: "u64 \<Rightarrow> u32 exec" where
  "sdk_compute_time_bucket timestamp_ms =
     exec_bind (tb_from_timestamp_ms timestamp_ms) (\<lambda>b. Ret (tb_as_u32 b))"

definition sdk_validate_message :: "bytes \<Rightarrow> u8 \<Rightarrow> string" where
  "sdk_validate_message content content_type =
     (if content = [] \<and> content_type \<noteq> 5 then ''content is empty for non-delete message''
      else if length content > 256 * 1024 then
        ''content size '' @ show_nat (length content) @ '' exceeds max 262144''
      else [])"

definition sdk_validate_delta :: "(string \<Rightarrow> (string, delta) result) \<Rightarrow> string \<Rightarrow> string" where
  "sdk_validate_delta from_json delta_json =
     (case from_json delta_json of Ok d \<Rightarrow> [] | Err e \<Rightarrow> e)"

definition sdk_validate_delta_batch :: "nat \<Rightarrow> string" where
  "sdk_validate_delta_batch count =
     (if count = 0 then ''batch is empty''
      else if count > MAX_DELTAS_PER_BATCH then ''batch too large: '' @ show_nat count @ '' deltas''
      else [])"

section \<open>The manager as a JavaScript class\<close>

record 'm js_manager =
  js_inner :: 'm

text \<open>\<^verbatim>\<open>self.inner.op(..).map_err(|e| JsError::new(&format!("prefix: {e}")))\<close>\<close>

definition js_wrap :: "string \<Rightarrow> 'm \<times> (string, 'a) result \<Rightarrow> 'm js_manager \<times> (string, 'a) result" where
  "js_wrap pre mr = (\<lparr>js_inner = fst mr\<rparr>, map_err (\<lambda>e. pre @ '': '' @ e) (snd mr))"

definition js_new ::
  "('p, 'c, 's, 'g, 'o) openmls \<Rightarrow> 'p \<Rightarrow> 's option \<Rightarrow> bytes \<Rightarrow>
   (string, ('p, 'c, 's, 'g) mls_manager js_manager) result exec" where
  "js_new api provider keypair identity =
     exec_bind (mls_new api provider keypair identity) (\<lambda>r.
       Ret (result_bind (map_err (\<lambda>e. ''MLS init: '' @ e) r) (\<lambda>inner. Ok \<lparr>js_inner = inner\<rparr>)))"

definition js_generate_key_package ::
  "('p, 'c, 's, 'g, 'o) openmls \<Rightarrow> ('p, 'c, 's, 'g) mls_manager js_manager \<Rightarrow>
   ('p, 'c, 's, 'g) mls_manager js_manager \<times> (string, bytes) result" where
  "js_generate_key_package api self =
     js_wrap ''KeyPackage'' (mls_generate_key_package api (js_inner self))"

definition js_create_group ::
  "('p, 'c, 's, 'g, 'o) openmls \<Rightarrow> bytes \<Rightarrow> ('p, 'c, 's, 'g) mls_manager js_manager \<Rightarrow>
   (('p, 'c, 's, 'g) mls_manager js_manager \<times> (string, unit) result) exec" where
  "js_create_group api group_id self =
     exec_bind (mls_create_group api group_id (js_inner self)) (\<lambda>r. Ret (js_wrap ''createGroup'' r))"

definition pack_add_member :: "bytes \<Rightarrow> bytes \<Rightarrow> bytes exec" where
  "pack_add_member commit welcome =
     exec_bind (expect ''commit fits u32'' (u32_try_from (length commit))) (\<lambda>n.
       Ret (u32_to_be_bytes n @ commit @ welcome))"

definition js_add_member ::
  "('p, 'c, 's, 'g, 'o) openmls \<Rightarrow> bytes \<Rightarrow> bytes \<Rightarrow> ('p, 'c, 's, 'g) mls_manager js_manager \<Rightarrow>
   (('p, 'c, 's, 'g) mls_manager js_manager \<times> (string, bytes) result) exec" where
  "js_add_member api group_id key_package self =
     (case js_wrap ''addMember'' (mls_add_member api group_id key_package (js_inner self)) of
        (self', Err e) \<Rightarrow> Ret (self', Err e)
      | (self', Ok (commit, welcome)) \<Rightarrow>
          exec_bind (pack_add_member commit welcome) (\<lambda>out. Ret (self', Ok out)))"

definition js_encrypt ::
  "('p, 'c, 's, 'g, 'o) openmls \<Rightarrow> bytes \<Rightarrow> bytes \<Rightarrow> ('p, 'c, 's, 'g) mls_manager js_manager \<Rightarrow>
   (('p, 'c, 's, 'g) mls_manager js_manager \<times> (string, bytes) result) exec" where
  "js_encrypt api group_id plaintext self =
     exec_bind (mls_encrypt api group_id plaintext (js_inner self)) (\<lambda>r. Ret (js_wrap ''encrypt'' r))"

definition js_decrypt ::
  "('p, 'c, 's, 'g, 'o) openmls \<Rightarrow> bytes \<Rightarrow> bytes \<Rightarrow> ('p, 'c, 's, 'g) mls_manager js_manager \<Rightarrow>
   ('p, 'c, 's, 'g) mls_manager js_manager \<times> (string, bytes) result" where
  "js_decrypt api group_id ciphertext self =
     js_wrap ''decrypt'' (mls_decrypt api group_id ciphertext (js_inner self))"

definition js_process_welcome ::
  "('p, 'c, 's, 'g, 'o) openmls \<Rightarrow> bytes \<Rightarrow> ('p, 'c, 's, 'g) mls_manager js_manager \<Rightarrow>
   ('p, 'c, 's, 'g) mls_manager js_manager \<times> (string, bytes) result" where
  "js_process_welcome api welcome self =
     js_wrap ''processWelcome'' (mls_process_welcome api welcome (js_inner self))"

definition js_process_commit ::
  "('p, 'c, 's, 'g, 'o) openmls \<Rightarrow> bytes \<Rightarrow> bytes \<Rightarrow> ('p, 'c, 's, 'g) mls_manager js_manager \<Rightarrow>
   ('p, 'c, 's, 'g) mls_manager js_manager \<times> (string, unit) result" where
  "js_process_commit api group_id commit self =
     js_wrap ''processCommit'' (mls_process_commit api group_id commit (js_inner self))"

definition js_remove_member ::
  "('p, 'c, 's, 'g, 'o) openmls \<Rightarrow> bytes \<Rightarrow> u32 \<Rightarrow> ('p, 'c, 's, 'g) mls_manager js_manager \<Rightarrow>
   ('p, 'c, 's, 'g) mls_manager js_manager \<times> (string, bytes) result" where
  "js_remove_member api group_id member_index self =
     js_wrap ''removeMember'' (mls_remove_member api group_id member_index (js_inner self))"

definition js_member_count ::
  "('p, 'c, 's, 'g, 'o) openmls \<Rightarrow> bytes \<Rightarrow> ('p, 'c, 's, 'g) mls_manager js_manager \<Rightarrow>
   (string, u32) result exec" where
  "js_member_count api group_id self =
     (case mls_member_count api group_id (js_inner self) of
        None \<Rightarrow> Ret (Err ''group not found'')
      | Some n \<Rightarrow> exec_bind (expect ''member count fits u32'' (u32_try_from n)) (\<lambda>c. Ret (Ok c)))"

definition sdk_generate_key_package ::
  "('p, 'c, 's, 'g, 'o) openmls \<Rightarrow> 'p \<Rightarrow> 's option \<Rightarrow> bytes \<Rightarrow> (string, bytes) result exec" where
  "sdk_generate_key_package api provider keypair identity =
     exec_bind (mls_new api provider keypair identity) (\<lambda>r.
       Ret (result_bind (map_err (\<lambda>e. ''MLS init: '' @ e) r) (\<lambda>mgr.
         map_err (\<lambda>e. ''KeyPackage: '' @ e) (snd (mls_generate_key_package api mgr)))))"

text \<open>
  \<^verbatim>\<open>unpackAddMember\<close> in \<^verbatim>\<open>sdks/mercury-sdk-js/src/mls.ts\<close>; reading the length
  of fewer than four bytes is a \<^verbatim>\<open>RangeError\<close>, here \<open>None\<close>, and a slice past the end
  is cut short.
\<close>

definition unpack_add_member :: "bytes \<Rightarrow> (bytes \<times> bytes) option" where
  "unpack_add_member packed =
     (if length packed < 4 then None
      else let commit_len = be_nat (take 4 packed) in
        Some (take commit_len (drop 4 packed), drop (4 + commit_len) packed))"

lemmas [rust_defs] =
  sdk_compute_time_bucket_def sdk_validate_message_def sdk_validate_delta_def
  sdk_validate_delta_batch_def js_new_def js_generate_key_package_def js_create_group_def
  pack_add_member_def js_add_member_def js_encrypt_def js_decrypt_def js_process_welcome_def
  js_process_commit_def js_remove_member_def js_member_count_def sdk_generate_key_package_def
  unpack_add_member_def

lemma unpack_pack:
  assumes "pack_add_member commit welcome = Ret out"
  shows "unpack_add_member out = Some (commit, welcome)"
proof -
  obtain n where some: "u32_try_from (length commit) = Some n"
    and out: "out = u32_to_be_bytes n @ commit @ welcome"
    using assms by (auto simp: pack_add_member_def)
  note n = try_from_SomeD(1) [OF some, symmetric] out
  have "take 4 out = u32_to_be_bytes n" "drop 4 out = commit @ welcome" "4 \<le> length out"
    by (simp_all add: n(2))
  then have "unpack_add_member out = Some (take (unat n) (commit @ welcome), drop (unat n) (commit @ welcome))"
    by (simp add: unpack_add_member_def Let_def not_less drop_drop [symmetric] add.commute [of 4] del: drop_drop)
  then show ?thesis by (simp add: n(1) [symmetric])
qed

lemma js_add_member_sees:
  assumes "mls_add_member api gid kp m = (m', r)"
    and "\<And>c w. r = Ok (c, w) \<Longrightarrow> length c < 2 ^ 32"
  shows "\<exists>q. js_add_member api gid kp \<lparr>js_inner = m\<rparr> = Ret (\<lparr>js_inner = m'\<rparr>, q) \<and>
    (case r of
       Err e \<Rightarrow> q = Err (''addMember: '' @ e)
     | Ok (c, w) \<Rightarrow> \<exists>out. q = Ok out \<and> unpack_add_member out = Some (c, w))"
proof (cases r)
  case (Err e)
  then show ?thesis using assms(1) by (simp add: js_add_member_def js_wrap_def)
next
  case (Ok cw)
  obtain c w where cw: "cw = (c, w)" by (cases cw)
  then have "length c < 2 ^ 32" using assms(2) Ok by blast
  then obtain out where "pack_add_member c w = Ret out"
    by (simp add: pack_add_member_def u32_try_from_def)
  with unpack_pack [OF this] show ?thesis
    using assms(1) Ok cw by (auto simp: js_add_member_def js_wrap_def)
qed

section \<open>Correctness\<close>

text \<open>
  An addition through WebAssembly loses nothing: when the manager adds the member and the
  commit's length fits 32 bits, JavaScript unpacks exactly the commit and the welcome the
  manager returned, whatever their lengths; an error of the manager comes back under its prefix
  with the manager's state.
\<close>

theorem sdk_add_member_unpacks:
  assumes "mls_add_member api gid kp m = (m', r)"
    and "\<And>c w. r = Ok (c, w) \<Longrightarrow> length c < 2 ^ 32"
  shows "\<exists>q. js_add_member api gid kp \<lparr>js_inner = m\<rparr> = Ret (\<lparr>js_inner = m'\<rparr>, q) \<and>
    (case r of
       Err e \<Rightarrow> q = Err (''addMember: '' @ e)
     | Ok (c, w) \<Rightarrow> \<exists>out. q = Ok out \<and> unpack_add_member out = Some (c, w))"
  using assms by (rule js_add_member_sees)

theorem sdk_add_member_unpacks_witness:
  "\<exists>self out. js_add_member plain_openmls [1] [0, 7] \<lparr>js_inner = plain_manager\<rparr> = Ret (self, Ok out) \<and>
     unpack_add_member out = Some ([2], [3, 1])"
proof -
  obtain m' where add: "mls_add_member plain_openmls [1] [0, 7] plain_manager = (m', Ok ([2], [3, 1]))"
    by (simp add: mls_add_member_def with_group_def add_member_body_eq plain_manager_def
        plain_openmls_def to_bytes_def)
  from sdk_add_member_unpacks [OF add] show ?thesis by auto
qed

text \<open>
  The three bounds on a batch agree: the WebAssembly check of a batch's length answers the
  empty text exactly when the batch's own validation is \<^verbatim>\<open>Ok\<close>, that is for 1 to 1000
  deltas, and its two complaints are the batch's \<^verbatim>\<open>Empty\<close> and \<^verbatim>\<open>TooLarge\<close>.
\<close>

theorem sdk_batch_agrees:
  "(sdk_validate_delta_batch (length (db_deltas b)) = [] \<longleftrightarrow> delta_batch_validate b = BV_Ok) \<and>
   (delta_batch_validate b = BV_Ok \<longleftrightarrow> length (db_deltas b) \<in> {1..1000}) \<and>
   (sdk_validate_delta_batch (length (db_deltas b)) = ''batch is empty'' \<longleftrightarrow>
      delta_batch_validate b = BV_Empty) \<and>
   (sdk_validate_delta_batch (length (db_deltas b)) =
      ''batch too large: '' @ show_nat (length (db_deltas b)) @ '' deltas'' \<longleftrightarrow>
      delta_batch_validate b = BV_Too_Large)"
  by (auto simp: sdk_validate_delta_batch_def delta_batch_validate_def MAX_DELTAS_PER_BATCH_def
      Suc_le_eq)

end
