(* ===== verification/Sdk_Refinement.thy ===== *)
theory Sdk_Refinement
  imports Sdk Mls_Typing
begin

text \<open>
  The JavaScript class of \<open>Sdk\<close> against the manager it wraps, over sequences of calls: the
  class is the manager with its errors under a prefix and the two results of an addition packed
  into one. A panic of the manager is a trap of the WebAssembly instance.
\<close>

section \<open>Calls of the class\<close>

fun js_call ::
  "('p, 'c, 's, 'g, 'o) openmls \<Rightarrow> mls_request \<Rightarrow> ('p, 'c, 's, 'g) mls_manager js_manager \<Rightarrow>
   (('p, 'c, 's, 'g) mls_manager js_manager \<times> (string, mls_reply) result) exec" where
  "js_call api Generate_Key_Package j = Ret (reply_map Reply_Bytes (js_generate_key_package api j))"
| "js_call api (Create_Group gid) j =
     exec_bind (js_create_group api gid j) (\<lambda>r. Ret (reply_map (\<lambda>_. Reply_Unit) r))"
| "js_call api (Add_Member gid kp) j =
     exec_bind (js_add_member api gid kp j) (\<lambda>r. Ret (reply_map Reply_Bytes r))"
| "js_call api (Remove_Member gid i) j = Ret (reply_map Reply_Bytes (js_remove_member api gid i j))"
| "js_call api (Encrypt gid pt) j =
     exec_bind (js_encrypt api gid pt j) (\<lambda>r. Ret (reply_map Reply_Bytes r))"
| "js_call api (Decrypt gid ct) j = Ret (reply_map Reply_Bytes (js_decrypt api gid ct j))"
| "js_call api (Process_Welcome w) j = Ret (reply_map Reply_Bytes (js_process_welcome api w j))"
| "js_call api (Process_Commit gid c) j =
     Ret (reply_map (\<lambda>_. Reply_Unit) (js_process_commit api gid c j))"

fun js_calls ::
  "('p, 'c, 's, 'g, 'o) openmls \<Rightarrow> mls_request list \<Rightarrow> ('p, 'c, 's, 'g) mls_manager js_manager \<Rightarrow>
   (('p, 'c, 's, 'g) mls_manager js_manager \<times> (string, mls_reply) result list) exec" where
  "js_calls api [] j = Ret (j, [])"
| "js_calls api (q # qs) j =
     exec_bind (js_call api q j) (\<lambda>(j', r).
       exec_bind (js_calls api qs j') (\<lambda>(j'', rs). Ret (j'', r # rs)))"

section \<open>What JavaScript sees of a reply\<close>

fun js_prefix :: "mls_request \<Rightarrow> string" where
  "js_prefix Generate_Key_Package = ''KeyPackage''"
| "js_prefix (Create_Group gid) = ''createGroup''"
| "js_prefix (Add_Member gid kp) = ''addMember''"
| "js_prefix (Remove_Member gid i) = ''removeMember''"
| "js_prefix (Encrypt gid pt) = ''encrypt''"
| "js_prefix (Decrypt gid ct) = ''decrypt''"
| "js_prefix (Process_Welcome w) = ''processWelcome''"
| "js_prefix (Process_Commit gid c) = ''processCommit''"

definition js_sees :: "mls_request \<Rightarrow> (string, mls_reply) result \<Rightarrow> (string, mls_reply) result \<Rightarrow> bool" where
  "js_sees q r r' \<longleftrightarrow>
     (case r of
        Err e \<Rightarrow> r' = Err (js_prefix q @ '': '' @ e)
      | Ok (Reply_Pair c w) \<Rightarrow>
          (\<exists>out. r' = Ok (Reply_Bytes out) \<and> unpack_add_member out = Some (c, w))
      | Ok a \<Rightarrow> r' = Ok a)"

text \<open>The commits are short enough for the packing's 32-bit length.\<close>

definition commits_fit :: "(string, mls_reply) result list \<Rightarrow> bool" where
  "commits_fit rs \<longleftrightarrow> (\<forall>c w. Ok (Reply_Pair c w) \<in> set rs \<longrightarrow> length c < 2 ^ 32)"

lemma commits_fit_Cons [simp]:
  "commits_fit (r # rs) \<longleftrightarrow> (\<forall>c w. r = Ok (Reply_Pair c w) \<longrightarrow> length c < 2 ^ 32) \<and> commits_fit rs"
  by (auto simp: commits_fit_def)

lemma js_sees_wrap:
  assumes "reply_map f mr = (m', r)" "\<And>a c w. f a \<noteq> Reply_Pair c w" "pre = js_prefix q"
  shows "\<exists>r'. reply_map f (js_wrap pre mr) = (\<lparr>js_inner = m'\<rparr>, r') \<and> js_sees q r r'"
  using assms by (cases "snd mr") (auto simp: js_wrap_def reply_map_def js_sees_def split: mls_reply.splits)

lemma js_sees_wrap_exec:
  assumes "exec_bind x (\<lambda>mr. Ret (reply_map f mr)) = Ret (m', r)" "\<And>a c w. f a \<noteq> Reply_Pair c w"
    and "pre = js_prefix q"
  shows "\<exists>r'. exec_bind (exec_bind x (\<lambda>mr. Ret (js_wrap pre mr))) (\<lambda>mr. Ret (reply_map f mr)) =
    Ret (\<lparr>js_inner = m'\<rparr>, r') \<and> js_sees q r r'"
proof (cases x)
  case (Ret mr)
  then show ?thesis using js_sees_wrap [of f mr m' r pre q] assms by (simp del: exec_bind_eq_Ret)
qed (use assms(1) in simp)

lemma js_call_sees:
  assumes "mls_call api q m = Ret (m', r)" "commits_fit [r]"
  shows "\<exists>r'. js_call api q \<lparr>js_inner = m\<rparr> = Ret (\<lparr>js_inner = m'\<rparr>, r') \<and> js_sees q r r'"
proof (cases q)
  case (Add_Member gid kp)
  obtain x where add: "mls_add_member api gid kp m = (m', x)"
    and r: "r = result_bind x (\<lambda>a. Ok (Reply_Pair (fst a) (snd a)))"
    using assms(1) Add_Member
    by (cases "mls_add_member api gid kp m") (auto simp: reply_map_def split_def)
  have "\<exists>q. js_add_member api gid kp \<lparr>js_inner = m\<rparr> = Ret (\<lparr>js_inner = m'\<rparr>, q) \<and>
    (case x of
       Err e \<Rightarrow> q = Err (''addMember: '' @ e)
     | Ok (c, w) \<Rightarrow> \<exists>out. q = Ok out \<and> unpack_add_member out = Some (c, w))"
    by (rule js_add_member_sees [OF add]) (use r assms(2) in simp)
  then show ?thesis
    using r Add_Member by (cases x) (auto simp: reply_map_def js_sees_def)
next
  case (Create_Group gid)
  show ?thesis
    unfolding Create_Group js_call.simps js_create_group_def js_manager.select_convs
    by (rule js_sees_wrap_exec [OF assms(1) [unfolded Create_Group mls_call.simps]]) simp_all
next
  case (Encrypt gid pt)
  show ?thesis
    unfolding Encrypt js_call.simps js_encrypt_def js_manager.select_convs
    by (rule js_sees_wrap_exec [OF assms(1) [unfolded Encrypt mls_call.simps]]) simp_all
qed (use assms(1) in \<open>auto intro!: js_sees_wrap simp: js_generate_key_package_def
    js_remove_member_def js_decrypt_def js_process_welcome_def js_process_commit_def\<close>)

lemma js_call_panics: "mls_call api q m = Panic p \<Longrightarrow> js_call api q \<lparr>js_inner = m\<rparr> = Panic p"
  by (cases q) (auto simp: js_create_group_def js_encrypt_def exec_bind_eq_Panic)

lemma js_calls_panic:
  "js_calls api qs j = Ret (j', rs) \<Longrightarrow> js_call api bad j' = Panic p \<Longrightarrow>
   js_calls api (qs @ [bad]) j = Panic p"
  by (induction qs arbitrary: j rs) (fastforce simp: exec_bind_eq_Panic)+

lemma js_calls_see:
  assumes "mls_calls api qs m = Ret (m', rs)" "commits_fit rs"
  shows "\<exists>rs'. js_calls api qs \<lparr>js_inner = m\<rparr> = Ret (\<lparr>js_inner = m'\<rparr>, rs') \<and>
    length rs' = length qs \<and> list_all2 (\<lambda>(q, r) r'. js_sees q r r') (zip qs rs) rs'"
  using assms
proof (induction qs arbitrary: m rs)
  case (Cons q qs)
  obtain m1 r rs1 where first: "mls_call api q m = Ret (m1, r)"
    and rest: "mls_calls api qs m1 = Ret (m', rs1)" and rs: "rs = r # rs1"
    using Cons.prems(1) by auto
  have fit: "commits_fit [r]" "commits_fit rs1"
    using Cons.prems(2) by (simp_all add: rs commits_fit_def)
  obtain r' where "js_call api q \<lparr>js_inner = m\<rparr> = Ret (\<lparr>js_inner = m1\<rparr>, r')" "js_sees q r r'"
    using js_call_sees [OF first fit(1)] by blast
  moreover obtain rs' where "js_calls api qs \<lparr>js_inner = m1\<rparr> = Ret (\<lparr>js_inner = m'\<rparr>, rs')"
    "length rs' = length qs" "list_all2 (\<lambda>(q, r) r'. js_sees q r r') (zip qs rs1) rs'"
    using Cons.IH [OF rest fit(2)] by blast
  ultimately show ?case by (simp add: rs)
qed simp

section \<open>Correctness\<close>

text \<open>
  C17. The JavaScript class refines the manager: a sequence of calls that runs to its end on the
  manager, with commits whose length fits 32 bits, runs to its end on the class and leaves the
  same manager in it, every error being the manager's under the method's prefix and every reply
  the manager's, the commit and welcome of an addition being what \<^verbatim>\<open>unpackAddMember\<close>
  reads; and a sequence whose first call panics on the manager traps on the class.
\<close>

theorem sdk_refines_manager:
  assumes "mls_calls api qs m = Ret (m', rs)" "commits_fit rs"
  shows "(\<exists>rs'. js_calls api qs \<lparr>js_inner = m\<rparr> = Ret (\<lparr>js_inner = m'\<rparr>, rs') \<and>
      length rs' = length qs \<and> list_all2 (\<lambda>(q, r) r'. js_sees q r r') (zip qs rs) rs') \<and>
    (\<forall>bad p. mls_call api bad m' = Panic p \<longrightarrow>
      js_calls api (qs @ [bad]) \<lparr>js_inner = m\<rparr> = Panic p)"
proof (intro conjI allI impI)
  show "\<exists>rs'. js_calls api qs \<lparr>js_inner = m\<rparr> = Ret (\<lparr>js_inner = m'\<rparr>, rs') \<and>
      length rs' = length qs \<and> list_all2 (\<lambda>(q, r) r'. js_sees q r r') (zip qs rs) rs'"
    using assms by (rule js_calls_see)
  then obtain rs' where "js_calls api qs \<lparr>js_inner = m\<rparr> = Ret (\<lparr>js_inner = m'\<rparr>, rs')" by blast
  moreover fix bad p
  assume "mls_call api bad m' = Panic p"
  then have "js_call api bad \<lparr>js_inner = m'\<rparr> = Panic p" by (rule js_call_panics)
  ultimately show "js_calls api (qs @ [bad]) \<lparr>js_inner = m\<rparr> = Panic p" by (rule js_calls_panic)
qed

theorem sdk_refines_manager_witness:
  "\<exists>j out. js_calls plain_openmls [Add_Member [1] [0, 7], Decrypt [3] []] \<lparr>js_inner = plain_manager\<rparr> =
       Ret (j, [Ok (Reply_Bytes out), Err ''decrypt: group not found'']) \<and>
     unpack_add_member out = Some ([2], [3, 1])"
proof -
  obtain m' where calls: "mls_calls plain_openmls [Add_Member [1] [0, 7], Decrypt [3] []] plain_manager =
      Ret (m', [Ok (Reply_Pair [2] [3, 1]), Err ''group not found''])"
    by (simp add: mls_add_member_def mls_decrypt_def with_group_def add_member_body_eq plain_manager_def
        plain_openmls_def to_bytes_def reply_map_def)
  have fit: "commits_fit [Ok (Reply_Pair [2] [3, 1]), Err ''group not found'']"
    by (simp add: commits_fit_def)
  from sdk_refines_manager [OF calls fit] obtain rs' where
    "js_calls plain_openmls [Add_Member [1] [0, 7], Decrypt [3] []] \<lparr>js_inner = plain_manager\<rparr> =
      Ret (\<lparr>js_inner = m'\<rparr>, rs')"
    and sees: "list_all2 (\<lambda>(q, r) r'. js_sees q r r')
      [(Add_Member [1] [0, 7], Ok (Reply_Pair [2] [3, 1])), (Decrypt [3] [], Err ''group not found'')] rs'"
    by auto
  moreover have "\<exists>out. rs' = [Ok (Reply_Bytes out), Err ''decrypt: group not found''] \<and>
      unpack_add_member out = Some ([2], [3, 1])"
    using sees by (auto simp: list_all2_Cons1 js_sees_def)
  ultimately show ?thesis by blast
qed

end
