(* ===== verification/Js_Client.thy ===== *)
theory Js_Client
  imports Sdk
begin

text \<open>
  The class \<^verbatim>\<open>MlsClient\<close> of the JavaScript SDK, \<^verbatim>\<open>sdks/mercury-sdk-js/src/mls.ts\<close>,
  over the WebAssembly manager of \<open>Sdk\<close>. A channel's messages are encrypted with AES-GCM under
  a content key that the group's creator draws and that MLS carries to each new member. The
  browser's cryptography is a parameter; exceptions are errors of a result, a panic of the
  WebAssembly module stays a panic. Channel ids index the key tables as their hexadecimal
  text, which tells any two of them apart, and here as they are.
\<close>

section \<open>Web cryptography as a parameter\<close>

record 'k webcrypto =
  wc_import :: "bytes \<Rightarrow> 'k"
  wc_encrypt :: "'k \<Rightarrow> bytes \<Rightarrow> bytes \<Rightarrow> bytes"
  wc_decrypt :: "'k \<Rightarrow> bytes \<Rightarrow> bytes \<Rightarrow> bytes option"

text \<open>AES-GCM with a tag of 16 bytes decrypts what it encrypted under the same key and vector.\<close>

definition aes_law :: "'k webcrypto \<Rightarrow> bool" where
  "aes_law wc \<longleftrightarrow>
     (\<forall>raw iv pt. length raw = 32 \<longrightarrow> length iv = 12 \<longrightarrow>
       wc_decrypt wc (wc_import wc raw) iv (wc_encrypt wc (wc_import wc raw) iv pt) = Some pt \<and>
       length (wc_encrypt wc (wc_import wc raw) iv pt) = length pt + 16)"

section \<open>The client\<close>

definition IV_LEN :: nat where
  "IV_LEN = 12"

definition CEK_LEN :: nat where
  "CEK_LEN = 32"

definition CEK_PREFIX :: bytes where
  "CEK_PREFIX = [0x4D, 0x43, 0x45, 0x4B]"

text \<open>The text has a dash in it, three bytes in UTF-8.\<close>

definition NO_CEK_MESSAGE :: string where
  "NO_CEK_MESSAGE =
     ''No CEK for channel '' @ map char_of [0xE2 :: nat, 0x80, 0x94] @ '' MLS handshake incomplete''"

record ('m, 'k) mls_client =
  mc_manager :: "'m js_manager"
  mc_channel_keys :: "bytes \<rightharpoonup> 'k"
  mc_raw_ceks :: "bytes \<rightharpoonup> bytes"

definition mc_import_cek :: "'k webcrypto \<Rightarrow> bytes \<Rightarrow> bytes \<Rightarrow> ('m, 'k) mls_client \<Rightarrow> ('m, 'k) mls_client" where
  "mc_import_cek wc channel raw self =
     self\<lparr>mc_channel_keys := (mc_channel_keys self)(channel \<mapsto> wc_import wc raw),
          mc_raw_ceks := (mc_raw_ceks self)(channel \<mapsto> raw)\<rparr>"

definition mc_generate_key_package ::
  "('p, 'c, 's, 'g, 'o) openmls \<Rightarrow> (('p, 'c, 's, 'g) mls_manager, 'k) mls_client \<Rightarrow>
   (('p, 'c, 's, 'g) mls_manager, 'k) mls_client \<times> (string, bytes) result" where
  "mc_generate_key_package api self =
     (case js_generate_key_package api (mc_manager self) of (m, r) \<Rightarrow> (self\<lparr>mc_manager := m\<rparr>, r))"

text \<open>The random content key is an argument.\<close>

definition mc_create_group ::
  "('p, 'c, 's, 'g, 'o) openmls \<Rightarrow> 'k webcrypto \<Rightarrow> bytes \<Rightarrow> bytes \<Rightarrow> (('p, 'c, 's, 'g) mls_manager, 'k) mls_client \<Rightarrow>
   ((('p, 'c, 's, 'g) mls_manager, 'k) mls_client \<times> (string, unit) result) exec" where
  "mc_create_group api wc raw channel self =
     exec_bind (js_create_group api channel (mc_manager self)) (\<lambda>(m, r).
       Ret (case r of
           Err e \<Rightarrow> (self\<lparr>mc_manager := m\<rparr>, Err e)
         | Ok _ \<Rightarrow> (mc_import_cek wc channel raw (self\<lparr>mc_manager := m\<rparr>), Ok ())))"

definition mc_add_member ::
  "('p, 'c, 's, 'g, 'o) openmls \<Rightarrow> bytes \<Rightarrow> bytes \<Rightarrow> (('p, 'c, 's, 'g) mls_manager, 'k) mls_client \<Rightarrow>
   ((('p, 'c, 's, 'g) mls_manager, 'k) mls_client \<times> (string, bytes \<times> bytes) result) exec" where
  "mc_add_member api channel key_package self =
     exec_bind (js_add_member api channel key_package (mc_manager self)) (\<lambda>(m, r).
       Ret (self\<lparr>mc_manager := m\<rparr>,
            result_bind r (\<lambda>packed. ok_or ''RangeError'' (unpack_add_member packed))))"

definition mc_encrypt_cek_for_member ::
  "('p, 'c, 's, 'g, 'o) openmls \<Rightarrow> bytes \<Rightarrow> (('p, 'c, 's, 'g) mls_manager, 'k) mls_client \<Rightarrow>
   ((('p, 'c, 's, 'g) mls_manager, 'k) mls_client \<times> (string, bytes) result) exec" where
  "mc_encrypt_cek_for_member api channel self =
     (case mc_raw_ceks self channel of
        None \<Rightarrow> Ret (self, Err ''No CEK for channel'')
      | Some raw \<Rightarrow>
          exec_bind (js_encrypt api channel (CEK_PREFIX @ raw) (mc_manager self)) (\<lambda>(m, r).
            Ret (self\<lparr>mc_manager := m\<rparr>, r)))"

definition mc_try_decrypt_cek ::
  "('p, 'c, 's, 'g, 'o) openmls \<Rightarrow> 'k webcrypto \<Rightarrow> bytes \<Rightarrow> bytes \<Rightarrow> (('p, 'c, 's, 'g) mls_manager, 'k) mls_client \<Rightarrow>
   (('p, 'c, 's, 'g) mls_manager, 'k) mls_client \<times> bool" where
  "mc_try_decrypt_cek api wc channel ciphertext self =
     (case js_decrypt api channel ciphertext (mc_manager self) of
        (m, Err e) \<Rightarrow> (self\<lparr>mc_manager := m\<rparr>, False)
      | (m, Ok plaintext) \<Rightarrow>
          if length plaintext = length CEK_PREFIX + CEK_LEN \<and> take 4 plaintext = CEK_PREFIX
          then (mc_import_cek wc channel (drop (length CEK_PREFIX) plaintext) (self\<lparr>mc_manager := m\<rparr>), True)
          else (self\<lparr>mc_manager := m\<rparr>, False))"

text \<open>The random vector of a message is an argument.\<close>

definition mc_encrypt ::
  "'k webcrypto \<Rightarrow> bytes \<Rightarrow> bytes \<Rightarrow> bytes \<Rightarrow> ('m, 'k) mls_client \<Rightarrow> (string, bytes) result" where
  "mc_encrypt wc iv channel plaintext self =
     result_bind (ok_or NO_CEK_MESSAGE (mc_channel_keys self channel)) (\<lambda>key.
       Ok (iv @ wc_encrypt wc key iv plaintext))"

definition mc_decrypt ::
  "'k webcrypto \<Rightarrow> bytes \<Rightarrow> bytes \<Rightarrow> ('m, 'k) mls_client \<Rightarrow> (string, bytes) result" where
  "mc_decrypt wc channel ciphertext self =
     result_bind (ok_or ''No CEK for channel'' (mc_channel_keys self channel)) (\<lambda>key.
       if length ciphertext < IV_LEN + 16 then Err ''Ciphertext too short''
       else ok_or ''OperationError'' (wc_decrypt wc key (take IV_LEN ciphertext) (drop IV_LEN ciphertext)))"

definition mc_has_cek :: "bytes \<Rightarrow> ('m, 'k) mls_client \<Rightarrow> bool" where
  "mc_has_cek channel self = (mc_channel_keys self channel \<noteq> None)"

definition mc_process_welcome ::
  "('p, 'c, 's, 'g, 'o) openmls \<Rightarrow> bytes \<Rightarrow> (('p, 'c, 's, 'g) mls_manager, 'k) mls_client \<Rightarrow>
   (('p, 'c, 's, 'g) mls_manager, 'k) mls_client \<times> (string, bytes) result" where
  "mc_process_welcome api welcome self =
     (case js_process_welcome api welcome (mc_manager self) of (m, r) \<Rightarrow> (self\<lparr>mc_manager := m\<rparr>, r))"

definition mc_process_commit ::
  "('p, 'c, 's, 'g, 'o) openmls \<Rightarrow> bytes \<Rightarrow> bytes \<Rightarrow> (('p, 'c, 's, 'g) mls_manager, 'k) mls_client \<Rightarrow>
   (('p, 'c, 's, 'g) mls_manager, 'k) mls_client \<times> (string, unit) result" where
  "mc_process_commit api channel commit self =
     (case js_process_commit api channel commit (mc_manager self) of (m, r) \<Rightarrow> (self\<lparr>mc_manager := m\<rparr>, r))"

definition mc_remove_member ::
  "('p, 'c, 's, 'g, 'o) openmls \<Rightarrow> bytes \<Rightarrow> u32 \<Rightarrow> (('p, 'c, 's, 'g) mls_manager, 'k) mls_client \<Rightarrow>
   (('p, 'c, 's, 'g) mls_manager, 'k) mls_client \<times> (string, bytes) result" where
  "mc_remove_member api channel member_index self =
     (case js_remove_member api channel member_index (mc_manager self) of (m, r) \<Rightarrow> (self\<lparr>mc_manager := m\<rparr>, r))"

definition mc_member_count ::
  "('p, 'c, 's, 'g, 'o) openmls \<Rightarrow> bytes \<Rightarrow> (('p, 'c, 's, 'g) mls_manager, 'k) mls_client \<Rightarrow>
   (string, u32) result exec" where
  "mc_member_count api channel self = js_member_count api channel (mc_manager self)"

section \<open>What it does, in terms of the manager\<close>

definition mgr_of :: "('m, 'k) mls_client \<Rightarrow> 'm" where
  "mgr_of self = js_inner (mc_manager self)"

definition set_mgr :: "'m \<Rightarrow> ('m, 'k) mls_client \<Rightarrow> ('m, 'k) mls_client" where
  "set_mgr m self = self\<lparr>mc_manager := \<lparr>js_inner = m\<rparr>\<rparr>"

lemma mgr_of_simps [simp]:
  "mgr_of (set_mgr m self) = m" "mgr_of (mc_import_cek wc ch raw self) = mgr_of self"
  "mc_channel_keys (set_mgr m self) = mc_channel_keys self" "mc_raw_ceks (set_mgr m self) = mc_raw_ceks self"
  "set_mgr m (set_mgr m' self) = set_mgr m self"
  by (simp_all add: mgr_of_def set_mgr_def mc_import_cek_def)

lemma mc_keys_simps [simp]:
  "mc_channel_keys (mc_import_cek wc ch raw self) = (mc_channel_keys self)(ch \<mapsto> wc_import wc raw)"
  "mc_raw_ceks (mc_import_cek wc ch raw self) = (mc_raw_ceks self)(ch \<mapsto> raw)"
  by (simp_all add: mc_import_cek_def)

lemma mc_calls:
  "mc_generate_key_package api self = (case mls_generate_key_package api (mgr_of self) of
     (m, r) \<Rightarrow> (set_mgr m self, map_err (\<lambda>e. ''KeyPackage: '' @ e) r))"
  "mc_process_welcome api w self = (case mls_process_welcome api w (mgr_of self) of
     (m, r) \<Rightarrow> (set_mgr m self, map_err (\<lambda>e. ''processWelcome: '' @ e) r))"
  "mc_process_commit api ch c self = (case mls_process_commit api ch c (mgr_of self) of
     (m, r) \<Rightarrow> (set_mgr m self, map_err (\<lambda>e. ''processCommit: '' @ e) r))"
  "mc_remove_member api ch i self = (case mls_remove_member api ch i (mgr_of self) of
     (m, r) \<Rightarrow> (set_mgr m self, map_err (\<lambda>e. ''removeMember: '' @ e) r))"
  by (simp_all add: mc_generate_key_package_def js_generate_key_package_def mc_process_welcome_def
      js_process_welcome_def mc_process_commit_def js_process_commit_def mc_remove_member_def
      js_remove_member_def js_wrap_def mgr_of_def set_mgr_def split: prod.split)

lemma mc_create_group_Ok:
  assumes "mls_create_group api ch (mgr_of self) = Ret (m, Ok ())"
  shows "mc_create_group api wc raw ch self = Ret (mc_import_cek wc ch raw (set_mgr m self), Ok ())"
  using assms by (simp add: mc_create_group_def js_create_group_def js_wrap_def mgr_of_def set_mgr_def)

lemma mc_add_member_Ok:
  assumes "mls_add_member api ch kp (mgr_of self) = (m, Ok (c, w))" "length c < 2 ^ 32"
  shows "mc_add_member api ch kp self = Ret (set_mgr m self, Ok (c, w))"
proof -
  obtain q where "js_add_member api ch kp \<lparr>js_inner = mgr_of self\<rparr> = Ret (\<lparr>js_inner = m\<rparr>, Ok q)"
    "unpack_add_member q = Some (c, w)"
    using js_add_member_sees [OF assms(1)] assms(2) by auto
  then show ?thesis by (cases "mc_manager self") (simp add: mc_add_member_def mgr_of_def set_mgr_def)
qed

lemma mc_encrypt_cek_Ok:
  assumes "mls_encrypt api ch (CEK_PREFIX @ raw) (mgr_of self) = Ret (m, Ok ct)" "mc_raw_ceks self ch = Some raw"
  shows "mc_encrypt_cek_for_member api ch self = Ret (set_mgr m self, Ok ct)"
  using assms by (simp add: mc_encrypt_cek_for_member_def js_encrypt_def js_wrap_def mgr_of_def set_mgr_def)

lemma mc_try_decrypt_cek_Ok:
  assumes "mls_decrypt api ch ct (mgr_of self) = (m, Ok (CEK_PREFIX @ raw))" "length raw = 32"
  shows "mc_try_decrypt_cek api wc ch ct self = (mc_import_cek wc ch raw (set_mgr m self), True)"
  using assms
  by (simp add: mc_try_decrypt_cek_def js_decrypt_def js_wrap_def mgr_of_def set_mgr_def CEK_LEN_def
      CEK_PREFIX_def)

lemma mc_decrypt_encrypt:
  assumes "aes_law wc" "length raw = 32" "length iv = 12"
    and "mc_channel_keys a ch = Some (wc_import wc raw)" "mc_channel_keys b ch = Some (wc_import wc raw)"
  obtains ct where "mc_encrypt wc iv ch pt a = Ok ct" "mc_decrypt wc ch ct b = Ok pt" "length ct = length pt + 28"
proof -
  have law: "wc_decrypt wc (wc_import wc raw) iv (wc_encrypt wc (wc_import wc raw) iv pt) = Some pt"
    "length (wc_encrypt wc (wc_import wc raw) iv pt) = length pt + 16"
    using assms(1-3) unfolding aes_law_def by blast+
  show ?thesis
    by (rule that [of "iv @ wc_encrypt wc (wc_import wc raw) iv pt"])
      (simp_all add: mc_encrypt_def mc_decrypt_def IV_LEN_def assms(3-5) law)
qed

end
