(* ===== verification/Gateway.thy ===== *)
theory Gateway
  imports Nif
begin

text \<open>
  The handlers of \<^verbatim>\<open>apps/gateway/lib/gateway/binary_socket.ex\<close> that pass the messages and
  the group traffic of a channel through the NIFs: what they check and what they broadcast. The
  database, the rate limiter's answer and the channel id parsed from the topic are arguments, and
  replies with an error status are told apart by their cause only. A NIF inside
  \<^verbatim>\<open>safe_nif_call\<close> that raises or panics is refused; a panic outside of it is the panic
  of the handler, which the socket answers with an internal error.
\<close>

datatype gateway_error = Gw_Malformed | Gw_Invalid atom | Gw_Rate_Limited | Gw_Batch_Too_Large

text \<open>What a message leaves behind: its id for the reply, what is stored, and the broadcast.\<close>

record gateway_message =
  gm_id :: bytes
  gm_bucket :: u32
  gm_sender :: bytes
  gm_content :: bytes
  gm_created_at :: u64
  gm_broadcast :: bytes

text \<open>\<^verbatim>\<open>msg:send\<close>\<close>

definition gateway_send ::
  "('b, 'm, 'r, 'l, 'e) capnp \<Rightarrow> ('e \<Rightarrow> string) \<Rightarrow> int \<Rightarrow> message_id \<Rightarrow> bool \<Rightarrow> bytes \<Rightarrow> bytes \<Rightarrow> bytes \<Rightarrow> bytes \<Rightarrow>
   (gateway_error, gateway_message) result exec" where
  "gateway_send capi show_error now fresh allow tid uid channel_id envelope =
     (case nif_envelope_decode capi show_error envelope of
        Err e \<Rightarrow> Ret (Err Gw_Malformed)
      | Ok (etid, ecid, esid, mid, ts, payload) \<Rightarrow>
          exec_bind (nif_validate_message now fresh tid channel_id uid payload 0) (\<lambda>(status, reason).
          if status \<noteq> A_Ok then Ret (Err (Gw_Invalid reason))
          else if \<not> allow then Ret (Err Gw_Rate_Limited)
          else exec_bind (nif_compute_time_bucket ts) (\<lambda>bucket.
            exec_bind (nif_envelope_encode capi tid channel_id uid mid ts payload) (\<lambda>out_bin.
              Ret (Ok \<lparr>gm_id = mid, gm_bucket = bucket, gm_sender = uid, gm_content = payload,
                gm_created_at = ts, gm_broadcast = out_bin\<rparr>)))))"

text \<open>\<^verbatim>\<open>mls:commit\<close>: the commit is broadcast as it came.\<close>

definition gateway_commit ::
  "('b, 'm, 'r, 'l, 'e) capnp \<Rightarrow> ('e \<Rightarrow> string) \<Rightarrow> bytes \<Rightarrow> (gateway_error, bytes) result" where
  "gateway_commit capi show_error commit_bin =
     (case nif_mls_commit_capnp_decode capi show_error commit_bin of
        Err e \<Rightarrow> Err Gw_Malformed
      | Ok commit \<Rightarrow> Ok commit_bin)"

text \<open>\<^verbatim>\<open>mls:welcome\<close>: a two-byte length, little-endian, and that many bytes of a user id.\<close>

definition u16_le :: "nat \<Rightarrow> bytes" where
  "u16_le n = [of_nat n, of_nat (n div 256)]"

definition of_u16_le :: "bytes \<Rightarrow> nat" where
  "of_u16_le b = unat (b ! 0) + 256 * unat (b ! 1)"

definition gateway_welcome :: "bytes \<Rightarrow> (gateway_error, bytes) result" where
  "gateway_welcome payload =
     (if length payload > 2 \<and> length (drop 2 payload) \<ge> of_u16_le payload then Ok payload
      else Err Gw_Malformed)"

text \<open>
  \<^verbatim>\<open>mls:key_package\<close> stores the package it is sent, and \<^verbatim>\<open>mls:fetch_kp\<close>
  replies with the packages stored for a user.
\<close>

definition gateway_key_package ::
  "('b, 'm, 'r, 'l, 'e) capnp \<Rightarrow> ('e \<Rightarrow> string) \<Rightarrow> bytes \<Rightarrow> (gateway_error, bytes) result" where
  "gateway_key_package capi show_error bin =
     (case nif_mls_key_package_capnp_decode capi show_error bin of
        Err e \<Rightarrow> Err Gw_Malformed
      | Ok kp \<Rightarrow> Ok kp)"

definition gateway_fetch_kp :: "('b, 'm, 'r, 'l, 'e) capnp \<Rightarrow> bytes list \<Rightarrow> bytes exec" where
  "gateway_fetch_kp capi packages = nif_mls_key_package_list_encode capi packages"

lemmas [rust_defs] =
  gateway_send_def gateway_commit_def gateway_welcome_def gateway_key_package_def gateway_fetch_kp_def

section \<open>What passes\<close>

lemma u16_le_read [simp]: "n < 65536 \<Longrightarrow> of_u16_le (u16_le n @ b) = n"
  by (simp add: u16_le_def of_u16_le_def unat_of_nat mod_mult_div_eq [of n 256])

lemma length_u16_le [simp]: "length (u16_le n) = 2"
  by (simp add: u16_le_def)

lemma gateway_welcome_passes:
  assumes "length uid < 65536" "w \<noteq> [] \<or> uid \<noteq> []"
  shows "gateway_welcome (u16_le (length uid) @ uid @ w) = Ok (u16_le (length uid) @ uid @ w)"
  using assms by (cases uid) (auto simp: gateway_welcome_def Suc_leI neq_Nil_conv)

lemma gateway_commit_passes:
  assumes "capnp_laws capi content limit" "length c \<le> limit"
  obtains bin where "mls_commit_encode capi c = Ret bin" "gateway_commit capi show_error bin = Ok bin"
    "mls_commit_decode capi bin = Ok c"
  using events_carry [OF assms(1), of c "[]"] assms(2)
  by (auto simp: gateway_commit_def nif_mls_commit_capnp_decode_def)

lemma gateway_key_package_passes:
  assumes "capnp_laws capi content limit" "length kp + 8 \<le> limit"
  obtains up reply where "mls_key_package_encode capi kp = Ret up"
    "gateway_key_package capi show_error up = Ok kp" "gateway_fetch_kp capi [kp] = Ret reply"
    "mls_key_package_list_decode capi reply = Ok [kp]"
proof -
  obtain up where "mls_key_package_encode capi kp = Ret up" "mls_key_package_decode capi up = Ok kp"
    using events_carry [OF assms(1), of kp "[]"] assms(2) by auto
  moreover obtain reply where "mls_key_package_list_encode capi [kp] = Ret reply"
    "mls_key_package_list_decode capi reply = Ok [kp]"
    using key_package_list_carries [OF assms(1), of "[kp]"] assms(2) by auto
  ultimately show ?thesis
    using that [of up reply]
    by (simp add: gateway_key_package_def nif_mls_key_package_capnp_decode_def
        gateway_fetch_kp_def nif_mls_key_package_list_encode_def)
qed

text \<open>
  A message in an envelope passes when the clock is readable, the ids have sixteen bytes, the
  content is neither empty nor above 256 KB and the timestamp has a bucket; the sender it is
  broadcast with is the user of the connection, whatever the envelope says.
\<close>

lemma gateway_send_passes:
  assumes capi: "capnp_laws capi content limit"
    and clock: "1000000 \<le> now" "now div 1000000 < 2 ^ 64" and ids: "length tid = 16" "length cid = 16" "length uid = 16"
    and payload: "payload \<noteq> []" "length payload \<le> 262144" and ts: "unat ts div 864000000 < 2 ^ 32"
    and limit: "length t + length c + length s + length mid + length payload \<le> limit"
      "48 + length mid + length payload \<le> limit"
  obtains env gm where "envelope_encode capi t c s mid ts payload = Ret env"
    "gateway_send capi show_error now fresh True tid uid cid env = Ret (Ok gm)"
    "envelope_decode capi (gm_broadcast gm) = Ok \<lparr>de_tenant_id = tid, de_channel_id = cid, de_sender_id = uid,
      de_message_id = mid, de_timestamp = ts, de_payload = payload\<rparr>"
proof -
  obtain env where env: "envelope_encode capi t c s mid ts payload = Ret env"
    "envelope_decode capi env = Ok \<lparr>de_tenant_id = t, de_channel_id = c, de_sender_id = s,
      de_message_id = mid, de_timestamp = ts, de_payload = payload\<rparr>"
    using envelope_carries [OF capi limit(1)] by blast
  obtain out where out: "envelope_encode capi tid cid uid mid ts payload = Ret out"
    "envelope_decode capi out = Ok \<lparr>de_tenant_id = tid, de_channel_id = cid, de_sender_id = uid,
      de_message_id = mid, de_timestamp = ts, de_payload = payload\<rparr>"
    using envelope_carries [OF capi, of tid cid uid mid payload] limit(2) ids by auto
  have "nif_validate_message now fresh tid cid uid payload 0 = Ret (A_Ok, A_Ok)"
    using nif_validate_message_eq [OF clock] ids payload by simp
  then have "gateway_send capi show_error now fresh True tid uid cid env = Ret (Ok
      \<lparr>gm_id = mid, gm_bucket = of_nat (unat ts div 864000000), gm_sender = uid, gm_content = payload,
       gm_created_at = ts, gm_broadcast = out\<rparr>)"
    using ts by (simp add: gateway_send_def nif_envelope_decode_def env(2) nif_compute_time_bucket_def
        tb_from_timestamp_ms_eq nif_envelope_encode_def out(1))
  with env(1) out(2) show ?thesis by (intro that) auto
qed

end
