(* ===== verification/Js_Channel.thy ===== *)
theory Js_Channel
  imports Gateway Js_Client Mls_Lifecycle "HOL-Library.Monad_Syntax"
begin

text \<open>
  A channel as its clients run it: \<^verbatim>\<open>sdks/mercury-sdk-js/src/channel.ts\<close> over
  \<open>Js_Client\<close> in every browser and \<open>Gateway\<close> between them. The transport delivers in order;
  the Cap'n Proto codec of the browser reads and writes the same format as the server's and is
  the same parameter. Modelled are the handlers of messages, commits, welcomes and content
  keys, and sending, inviting and removing; the composed steps below connect them.
\<close>

section \<open>One client of a channel\<close>

record ('m, 'k) channel_client =
  ch_mls :: "('m, 'k) mls_client"
  ch_user :: bytes
  ch_ready :: bool
  ch_creator :: bool

type_synonym ('p, 'c, 's, 'g, 'k) sdk_client = "(('p, 'c, 's, 'g) mls_manager, 'k) channel_client"

definition channel_on_message ::
  "('b, 'm, 'r, 'l, 'e) capnp \<Rightarrow> 'k webcrypto \<Rightarrow> bytes \<Rightarrow> bytes \<Rightarrow> ('n, 'k) channel_client \<Rightarrow> bytes option" where
  "channel_on_message capi wc gid data self =
     (case envelope_decode capi data of
        Err e \<Rightarrow> None
      | Ok env \<Rightarrow>
          if de_sender_id env = ch_user self then None
          else (case mc_decrypt wc gid (de_payload env) (ch_mls self) of
                  Ok pt \<Rightarrow> Some pt
                | Err e \<Rightarrow> None))"

definition channel_on_commit ::
  "('b, 'm, 'r, 'l, 'e) capnp \<Rightarrow> ('p, 'c, 's, 'g, 'o) openmls \<Rightarrow> bytes \<Rightarrow> bytes \<Rightarrow>
   ('p, 'c, 's, 'g, 'k) sdk_client \<Rightarrow> ('p, 'c, 's, 'g, 'k) sdk_client" where
  "channel_on_commit capi api gid data self =
     (case mls_commit_decode capi data of
        Err e \<Rightarrow> self
      | Ok commit \<Rightarrow> self\<lparr>ch_mls := fst (mc_process_commit api gid commit (ch_mls self))\<rparr>)"

definition channel_on_welcome ::
  "('b, 'm, 'r, 'l, 'e) capnp \<Rightarrow> ('p, 'c, 's, 'g, 'o) openmls \<Rightarrow> bytes \<Rightarrow>
   ('p, 'c, 's, 'g, 'k) sdk_client \<Rightarrow> ('p, 'c, 's, 'g, 'k) sdk_client" where
  "channel_on_welcome capi api data self =
     (if ch_ready self \<or> length data < 2 then self
      else let uid_len = of_u16_le data in
        if take uid_len (drop 2 data) \<noteq> ch_user self then self
        else (case mls_welcome_decode capi (drop (2 + uid_len) data) of
                Err e \<Rightarrow> self
              | Ok w \<Rightarrow> self\<lparr>ch_mls := fst (mc_process_welcome api (dw_welcome w) (ch_mls self))\<rparr>))"

definition channel_on_cek ::
  "('p, 'c, 's, 'g, 'o) openmls \<Rightarrow> 'k webcrypto \<Rightarrow> bytes \<Rightarrow> bytes \<Rightarrow>
   ('p, 'c, 's, 'g, 'k) sdk_client \<Rightarrow> ('p, 'c, 's, 'g, 'k) sdk_client" where
  "channel_on_cek api wc gid data self =
     (if ch_ready self then self
      else (case mc_try_decrypt_cek api wc gid data (ch_mls self) of
              (m, was_cek) \<Rightarrow> self\<lparr>ch_mls := m, ch_ready := was_cek\<rparr>))"

text \<open>
  Sending while connected: the envelope that is pushed. The random vector and message id and
  the time are arguments.
\<close>

definition channel_send ::
  "('b, 'm, 'r, 'l, 'e) capnp \<Rightarrow> 'k webcrypto \<Rightarrow> bytes \<Rightarrow> bytes \<Rightarrow> bytes \<Rightarrow> bytes \<Rightarrow> u64 \<Rightarrow> bytes \<Rightarrow>
   ('n, 'k) channel_client \<Rightarrow> (string, bytes) result exec" where
  "channel_send capi wc tid gid iv mid ts content self =
     (if \<not> ch_ready self then Ret (Err ''Channel not ready'')
      else (case mc_encrypt wc iv gid content (ch_mls self) of
              Err e \<Rightarrow> Ret (Err e)
            | Ok payload \<Rightarrow>
                exec_bind (envelope_encode capi tid gid (ch_user self) mid ts payload) (\<lambda>env. Ret (Ok env))))"

text \<open>Adding a member: the commit and the welcome that are pushed.\<close>

definition channel_add_member ::
  "('b, 'm, 'r, 'l, 'e) capnp \<Rightarrow> ('p, 'c, 's, 'g, 'o) openmls \<Rightarrow> bytes \<Rightarrow> bytes \<Rightarrow> bytes \<Rightarrow>
   ('p, 'c, 's, 'g, 'k) sdk_client \<Rightarrow> (('p, 'c, 's, 'g, 'k) sdk_client \<times> (string, bytes \<times> bytes) result) exec" where
  "channel_add_member capi api gid uid key_package self =
     exec_bind (mc_add_member api gid key_package (ch_mls self)) (\<lambda>(m, r).
       (case r of
          Err e \<Rightarrow> Ret (self\<lparr>ch_mls := m\<rparr>, Err e)
        | Ok (commit, welcome) \<Rightarrow>
            exec_bind (mls_commit_encode capi commit) (\<lambda>commit_bin.
            exec_bind (mls_welcome_encode capi welcome uid) (\<lambda>welcome_bin.
              Ret (self\<lparr>ch_mls := m\<rparr>, Ok (commit_bin, u16_le (length uid) @ uid @ welcome_bin))))))"

definition channel_remove_member ::
  "('b, 'm, 'r, 'l, 'e) capnp \<Rightarrow> ('p, 'c, 's, 'g, 'o) openmls \<Rightarrow> bytes \<Rightarrow> u32 \<Rightarrow>
   ('p, 'c, 's, 'g, 'k) sdk_client \<Rightarrow> (('p, 'c, 's, 'g, 'k) sdk_client \<times> (string, bytes) result) exec" where
  "channel_remove_member capi api gid member_index self =
     (case mc_remove_member api gid member_index (ch_mls self) of
        (m, Err e) \<Rightarrow> Ret (self\<lparr>ch_mls := m\<rparr>, Err e)
      | (m, Ok commit) \<Rightarrow>
          exec_bind (mls_commit_encode capi commit) (\<lambda>commit_bin. Ret (self\<lparr>ch_mls := m\<rparr>, Ok commit_bin)))"

text \<open>Joining a channel in which no one is: the client creates the group and is ready.\<close>

definition channel_open ::
  "('p, 'c, 's, 'g, 'o) openmls \<Rightarrow> 'k webcrypto \<Rightarrow> bytes \<Rightarrow> bytes \<Rightarrow> ('p, 'c, 's, 'g, 'k) sdk_client \<Rightarrow>
   (('p, 'c, 's, 'g, 'k) sdk_client \<times> (string, unit) result) exec" where
  "channel_open api wc raw gid self =
     exec_bind (mc_create_group api wc raw gid (ch_mls self)) (\<lambda>(m, r).
       Ret (case r of
           Err e \<Rightarrow> (self\<lparr>ch_mls := m\<rparr>, Err e)
         | Ok _ \<Rightarrow> (self\<lparr>ch_mls := m, ch_creator := True, ch_ready := True\<rparr>, Ok ())))"

lemmas [rust_defs] =
  channel_on_message_def channel_on_commit_def channel_on_welcome_def channel_on_cek_def
  channel_send_def channel_add_member_def channel_remove_member_def channel_open_def

section \<open>A channel with all its clients\<close>

text \<open>
  The clients of a channel: its members, the creator first, and those that were removed, who
  stay connected and get every broadcast. A step that fails anywhere is \<open>None\<close>.
\<close>

type_synonym ('p, 'c, 's, 'g, 'k) channel_state =
  "('p, 'c, 's, 'g, 'k) sdk_client list \<times> ('p, 'c, 's, 'g, 'k) sdk_client list"

primrec returned :: "'a exec \<Rightarrow> 'a option" where
  "returned (Panic p) = None"
| "returned (Ret a) = Some a"

primrec succeeded :: "('e, 'a) result \<Rightarrow> 'a option" where
  "succeeded (Err e) = None"
| "succeeded (Ok a) = Some a"

text \<open>What the server and the browsers draw for a message.\<close>

record post =
  po_content :: bytes
  po_iv :: bytes
  po_id :: bytes
  po_time :: u64
  po_now :: int
  po_fresh :: message_id

text \<open>Everyone is shown the content or nothing; the sender is shown its own content.\<close>

fun channel_post ::
  "('b, 'm, 'r, 'l, 'e) capnp \<Rightarrow> ('e \<Rightarrow> string) \<Rightarrow> 'k webcrypto \<Rightarrow> bytes \<Rightarrow> bytes \<Rightarrow> nat \<Rightarrow> post \<Rightarrow>
   ('p, 'c, 's, 'g, 'k) channel_state \<Rightarrow> (bytes option list \<times> bytes option list) option" where
  "channel_post capi show_error wc tid gid i po (as, xs) = do {
     sent \<leftarrow> returned (channel_send capi wc tid gid (po_iv po) (po_id po) (po_time po) (po_content po) (as ! i));
     env \<leftarrow> succeeded sent;
     reply \<leftarrow> returned (gateway_send capi show_error (po_now po) (po_fresh po) True tid (ch_user (as ! i)) gid env);
     gm \<leftarrow> succeeded reply;
     Some (map (\<lambda>j. if j = i then Some (po_content po) else channel_on_message capi wc gid (gm_broadcast gm) (as ! j))
             [0..<length as],
           map (channel_on_message capi wc gid (gm_broadcast gm)) xs)
   }"

text \<open>
  A client that joins uploads its key package; the creator fetches it and adds the member; the
  commit, the welcome and the content key are broadcast in turn. One upload gives one addition:
  that the presence event may trigger another, and the fallback of a client that has waited five
  seconds, which makes it create the group itself, are left out.
\<close>

fun channel_join ::
  "('b, 'm, 'r, 'l, 'e) capnp \<Rightarrow> ('e \<Rightarrow> string) \<Rightarrow> ('p, 'c, 's, 'g, 'o) openmls \<Rightarrow> 'k webcrypto \<Rightarrow> bytes \<Rightarrow>
   ('p, 'c, 's, 'g, 'k) sdk_client \<Rightarrow> ('p, 'c, 's, 'g, 'k) channel_state \<Rightarrow>
   ('p, 'c, 's, 'g, 'k) channel_state option" where
  "channel_join capi show_error api wc gid b (as, xs) = do {
     let (m, made) = mc_generate_key_package api (ch_mls b);
     kp \<leftarrow> succeeded made;
     up \<leftarrow> returned (mls_key_package_encode capi kp);
     stored \<leftarrow> succeeded (gateway_key_package capi show_error up);
     reply \<leftarrow> returned (gateway_fetch_kp capi [stored]);
     packages \<leftarrow> succeeded (mls_key_package_list_decode capi reply);
     (c1, added) \<leftarrow> returned (channel_add_member capi api gid (ch_user b) (hd packages) (as ! 0));
     (commit_bin, welcome_payload) \<leftarrow> succeeded added;
     commit_out \<leftarrow> succeeded (gateway_commit capi show_error commit_bin);
     welcome_out \<leftarrow> succeeded (gateway_welcome welcome_payload);
     (c2, made_cek) \<leftarrow> returned (mc_encrypt_cek_for_member api gid (ch_mls c1));
     cek \<leftarrow> succeeded made_cek;
     let hear = (\<lambda>c. channel_on_cek api wc gid cek
       (channel_on_welcome capi api welcome_out (channel_on_commit capi api gid commit_out c)));
     Some (channel_on_cek api wc gid cek (channel_on_welcome capi api welcome_out (c1\<lparr>ch_mls := c2\<rparr>)) #
             map hear (tl as) @ [hear (b\<lparr>ch_mls := m\<rparr>)],
           map hear xs)
   }"

text \<open>Member \<open>i\<close> removes member \<open>k\<close>, which gets the commit too.\<close>

fun channel_remove ::
  "('b, 'm, 'r, 'l, 'e) capnp \<Rightarrow> ('e \<Rightarrow> string) \<Rightarrow> ('p, 'c, 's, 'g, 'o) openmls \<Rightarrow> ('g \<Rightarrow> u32) \<Rightarrow> bytes \<Rightarrow>
   nat \<Rightarrow> nat \<Rightarrow> ('p, 'c, 's, 'g, 'k) channel_state \<Rightarrow> ('p, 'c, 's, 'g, 'k) channel_state option" where
  "channel_remove capi show_error api leaf gid i k (as, xs) = do {
     (c1, made) \<leftarrow> returned (channel_remove_member capi api gid
       (leaf_at leaf gid (mgr_of (ch_mls (as ! k)))) (as ! i));
     commit_bin \<leftarrow> succeeded made;
     commit_out \<leftarrow> succeeded (gateway_commit capi show_error commit_bin);
     let hear = channel_on_commit capi api gid commit_out;
     Some (map (\<lambda>j. if j = i then c1 else hear (as ! j)) [j \<leftarrow> [0..<length as]. j \<noteq> k],
           hear (as ! k) # map hear xs)
   }"

section \<open>What holds of a channel\<close>

abbreviation mgr_at :: "('m, 'k) channel_client \<Rightarrow> 'm" where
  "mgr_at c \<equiv> mgr_of (ch_mls c)"

definition has_cek :: "'k webcrypto \<Rightarrow> bytes \<Rightarrow> bytes \<Rightarrow> ('m, 'k) channel_client \<Rightarrow> bool" where
  "has_cek wc gid raw c \<longleftrightarrow>
     ch_ready c \<and> length (ch_user c) = 16 \<and> mc_channel_keys (ch_mls c) gid = Some (wc_import wc raw)"

text \<open>
  The managers of the members are a session of the group, whoever was removed is outside, and all
  of them, removed ones too, are ready and hold the content key, which the creator can hand on.
\<close>

definition channel_session ::
  "(('p, 's, 'g) mls_member list \<Rightarrow> bool) \<Rightarrow> (('p, 's, 'g) mls_member list \<Rightarrow> 'p \<times> 'g \<Rightarrow> bool) \<Rightarrow>
   'k webcrypto \<Rightarrow> bytes \<Rightarrow> bytes \<Rightarrow> ('p, 'c, 's, 'g, 'k) channel_state \<Rightarrow> bool" where
  "channel_session epoch outside wc gid raw cl \<longleftrightarrow>
     mls_session epoch outside gid (map mgr_at (fst cl)) (map mgr_at (snd cl)) \<and>
     (\<forall>c \<in> set (fst cl) \<union> set (snd cl). has_cek wc gid raw c) \<and> fst cl \<noteq> [] \<and>
     mc_raw_ceks (ch_mls (hd (fst cl))) gid = Some raw \<and> length raw = 32 \<and>
     distinct (map ch_user (fst cl @ snd cl))"

definition set_client :: "'m \<Rightarrow> ('m, 'k) channel_client \<Rightarrow> ('m, 'k) channel_client" where
  "set_client m c = c\<lparr>ch_mls := set_mgr m (ch_mls c)\<rparr>"

lemma set_client_simps [simp]:
  "mgr_at (set_client m c) = m" "ch_user (set_client m c) = ch_user c" "ch_ready (set_client m c) = ch_ready c"
  "has_cek wc gid raw (set_client m c) \<longleftrightarrow> has_cek wc gid raw c"
  "mc_raw_ceks (ch_mls (set_client m c)) = mc_raw_ceks (ch_mls c)"
  by (simp_all add: set_client_def has_cek_def)

lemma channel_on_commit_eq:
  assumes "mls_commit_decode capi bin = Ok c"
  shows "channel_on_commit capi api gid bin self =
    set_client (fst (mls_process_commit api gid c (mgr_at self))) self"
  using assms by (simp add: channel_on_commit_def mc_calls set_client_def split: prod.split)

lemma ready_ignores:
  assumes "ch_ready self"
  shows "channel_on_welcome capi api w self = self" "channel_on_cek api wc gid cek self = self"
  using assms by (simp_all add: channel_on_welcome_def channel_on_cek_def)

section \<open>A message\<close>

text \<open>The bounds under which the gateway lets a message pass, and the wire format carries it.\<close>

definition post_ok :: "post \<Rightarrow> bool" where
  "post_ok po \<longleftrightarrow> length (po_content po) \<le> 262116 \<and> length (po_iv po) = 12 \<and> length (po_id po) = 16 \<and>
     unat (po_time po) div 864000000 < 2 ^ 32 \<and> 1000000 \<le> po_now po \<and> po_now po div 1000000 < 2 ^ 64"

lemma channel_post_shown:
  assumes capi: "capnp_laws capi content limit" "262208 \<le> limit" and aes: "aes_law wc"
    and session: "channel_session epoch outside wc gid raw (as, xs)"
    and ids: "length tid = 16" "length gid = 16" and i: "i < length as" and po: "post_ok po"
  shows "channel_post capi show_error wc tid gid i po (as, xs) =
    Some (replicate (length as) (Some (po_content po)), replicate (length xs) (Some (po_content po)))"
proof -
  have cek: "has_cek wc gid raw c" if "c \<in> set as \<union> set xs" for c
    using session that by (simp add: channel_session_def)
  have raw: "length raw = 32" using session by (simp add: channel_session_def)
  have sender: "ch_ready (as ! i)" "length (ch_user (as ! i)) = 16"
    "mc_channel_keys (ch_mls (as ! i)) gid = Some (wc_import wc raw)"
    using cek [of "as ! i"] i by (simp_all add: has_cek_def)
  have iv: "length (po_iv po) = 12" using po by (simp add: post_ok_def)
  obtain payload where enc: "mc_encrypt wc (po_iv po) gid (po_content po) (ch_mls (as ! i)) = Ok payload"
    "length payload = length (po_content po) + 28"
    using mc_decrypt_encrypt [OF aes raw iv sender(3) sender(3)] by metis
  have dec: "mc_decrypt wc gid payload (ch_mls c) = Ok (po_content po)" if "c \<in> set as \<union> set xs" for c
    using mc_decrypt_encrypt [OF aes raw iv sender(3), of "ch_mls c" "po_content po"] cek [OF that] enc(1)
    unfolding has_cek_def by (metis result.inject(2))
  have nonempty: "payload \<noteq> []" using enc(2) by auto
  obtain env gm where env: "envelope_encode capi tid gid (ch_user (as ! i)) (po_id po) (po_time po) payload = Ret env"
    and gm: "gateway_send capi show_error (po_now po) (po_fresh po) True tid (ch_user (as ! i)) gid env = Ret (Ok gm)"
    and out: "envelope_decode capi (gm_broadcast gm) = Ok \<lparr>de_tenant_id = tid, de_channel_id = gid,
      de_sender_id = ch_user (as ! i), de_message_id = po_id po, de_timestamp = po_time po, de_payload = payload\<rparr>"
    using gateway_send_passes [OF capi(1) _ _ ids sender(2) nonempty,
        of "po_now po" "po_time po" tid gid "ch_user (as ! i)" "po_id po" show_error "po_fresh po"]
      po enc(2) ids sender(2) capi(2)
    by (auto simp: post_ok_def)
  have hears: "channel_on_message capi wc gid (gm_broadcast gm) c = Some (po_content po)"
    if "c \<in> set as \<union> set xs" "ch_user c \<noteq> ch_user (as ! i)" for c
    using dec [OF that(1)] that(2) by (simp add: channel_on_message_def out)
  have apart: "ch_user (as ! j) \<noteq> ch_user (as ! i)" if "j < length as" "j \<noteq> i" for j
    using session that i by (simp add: channel_session_def distinct_map inj_on_def)
      (metis nth_eq_iff_index_eq nth_mem)
  have "ch_user ` set as \<inter> ch_user ` set xs = {}"
    using session by (simp add: channel_session_def)
  then have "ch_user x \<noteq> ch_user (as ! i)" if "x \<in> set xs" for x
    using that nth_mem [OF i] by (metis disjoint_iff image_eqI)
  then have "map (channel_on_message capi wc gid (gm_broadcast gm)) xs = replicate (length xs) (Some (po_content po))"
    using hears by (intro nth_equalityI) simp_all
  moreover have "map (\<lambda>j. if j = i then Some (po_content po)
      else channel_on_message capi wc gid (gm_broadcast gm) (as ! j)) [0..<length as] =
      replicate (length as) (Some (po_content po))"
    using hears apart by (intro nth_equalityI) simp_all
  ultimately show ?thesis
    by (simp add: channel_send_def sender(1) enc(1) env gm del: map_eq_conv)
qed

section \<open>A removal\<close>

lemma users_without:
  assumes "k < length as" "distinct (map u as @ map u xs)"
  shows "set (map (\<lambda>j. u (as ! j)) [j \<leftarrow> [0..<length as]. j \<noteq> k] @ u (as ! k) # map u xs) = set (map u as @ map u xs)"
    "distinct (map (\<lambda>j. u (as ! j)) [j \<leftarrow> [0..<length as]. j \<noteq> k] @ u (as ! k) # map u xs)"
proof -
  let ?js = "[j \<leftarrow> [0..<length as]. j \<noteq> k]" and ?u = "\<lambda>j. u (as ! j)"
  have as: "map u as = map ?u [0..<length as]" by (rule nth_equalityI) simp_all
  have inj: "inj_on ?u {0..<length as}"
    using assms(2) unfolding as by (simp add: distinct_map)
  have "insert k (set ?js) = {0..<length as}" using assms(1) by auto
  then have all: "insert (?u k) (?u ` set ?js) = set (map u as)" unfolding as by (metis image_insert list.set_map set_upt)
  then show "set (map ?u ?js @ ?u k # map u xs) = set (map u as @ map u xs)" by auto
  have "distinct (map ?u ?js)" using inj by (auto simp: distinct_map inj_on_def)
  moreover have "?u k \<notin> ?u ` set ?js" using inj assms(1) by (auto simp: inj_on_def)
  moreover have "set (map u as) \<inter> set (map u xs) = {}" "distinct (map u xs)" using assms(2) by simp_all
  ultimately show "distinct (map ?u ?js @ ?u k # map u xs)" unfolding all [symmetric] by auto
qed

lemma channel_remove_keeps:
  assumes capi: "capnp_laws capi content limit" and law: "remove_law api epoch outside leaf"
    and session: "channel_session epoch outside wc gid raw (as, xs)"
    and ik: "i < length as" "0 < k" "k < length as" "i \<noteq> k"
    and fits: "\<And>m c. mls_remove_member api gid (leaf_at leaf gid (mgr_at (as ! k))) (mgr_at (as ! i)) = (m, Ok c) \<Longrightarrow>
      length c \<le> limit"
  shows "\<exists>as' xs'. channel_remove capi show_error api leaf gid i k (as, xs) = Some (as', xs') \<and>
    channel_session epoch outside wc gid raw (as', xs') \<and> length as' = length as - 1 \<and>
    length xs' = Suc (length xs) \<and> set (map ch_user (as' @ xs')) = set (map ch_user (as @ xs)) \<and>
    mg_signer ` mgr_at ` set as' \<subseteq> mg_signer ` mgr_at ` set as"
proof -
  let ?as = "map mgr_at as" and ?js = "[j \<leftarrow> [0..<length as]. j \<noteq> k]"
  have mls: "mls_session epoch outside gid ?as (map mgr_at xs)" and bounds: "i < length ?as" "k < length ?as"
    using session ik by (simp_all add: channel_session_def)
  from session_expel [OF law mls bounds ik(4)]
  obtain cb ds es where rem: "mls_remove_member api gid (leaf_at leaf gid (?as ! k)) (?as ! i) = (ds i, Ok cb)"
    "\<forall>j < length ?as. j \<noteq> i \<longrightarrow> mls_process_commit api gid cb (?as ! j) = (ds j, Ok ())"
    "\<forall>x \<in> set (map mgr_at xs). mls_process_commit api gid cb x = (es x, Err ''failed to process commit'')"
    "\<forall>j < length ?as. same_member leaf gid (?as ! j) (ds j)"
    "\<forall>told. mls_session epoch outside gid (map ds [j \<leftarrow> [0..<length ?as]. j \<noteq> k])
      ((if told then ds k else ?as ! k) # map es (map mgr_at xs))" .
  have removed: "mls_remove_member api gid (leaf_at leaf gid (mgr_at (as ! k))) (mgr_at (as ! i)) = (ds i, Ok cb)"
    using rem(1) ik by simp
  obtain bin where bin: "mls_commit_encode capi cb = Ret bin" "gateway_commit capi show_error bin = Ok bin"
    "mls_commit_decode capi bin = Ok cb"
    using gateway_commit_passes [OF capi fits [OF removed]] .
  let ?as' = "map (\<lambda>j. set_client (ds j) (as ! j)) ?js"
  let ?xs' = "set_client (ds k) (as ! k) # map (\<lambda>x. set_client (es (mgr_at x)) x) xs"
  have hears: "channel_on_commit capi api gid bin (as ! j) = set_client (ds j) (as ! j)" if "j < length as" "j \<noteq> i" for j
    using channel_on_commit_eq [OF bin(3), of api gid "as ! j"] rem(2) that by simp
  have "channel_remove_member capi api gid (leaf_at leaf gid (mgr_at (as ! k))) (as ! i) =
      Ret (set_client (ds i) (as ! i), Ok bin)"
    using removed bin(1) by (simp add: channel_remove_member_def mc_calls set_client_def)
  moreover have "map (\<lambda>j. if j = i then set_client (ds i) (as ! i) else channel_on_commit capi api gid bin (as ! j)) ?js = ?as'"
    using hears by (intro map_cong) auto
  moreover have "map (channel_on_commit capi api gid bin) xs = map (\<lambda>x. set_client (es (mgr_at x)) x) xs"
    using rem(3) by (simp add: channel_on_commit_eq [OF bin(3)])
  ultimately have run: "channel_remove capi show_error api leaf gid i k (as, xs) = Some (?as', ?xs')"
    using bin(2) hears [OF ik(3)] ik(4) by (simp add: Let_def del: map_eq_conv)
  have "mls_session epoch outside gid (map mgr_at ?as') (map mgr_at ?xs')"
    using rem(5) [rule_format, of True] by (simp add: comp_def)
  moreover have "has_cek wc gid raw c" if "c \<in> set ?as' \<union> set ?xs'" for c
    using session that ik(3) by (auto simp: channel_session_def)
  moreover have "[0..<length as] = 0 # [Suc 0..<length as]" using ik(2,3) by (intro upt_conv_Cons) linarith
  then have "?js = 0 # [j \<leftarrow> [Suc 0..<length as]. j \<noteq> k]" using ik(2) by simp
  then have "?as' \<noteq> []" "mc_raw_ceks (ch_mls (hd ?as')) gid = Some raw"
    using session unfolding channel_session_def by (auto simp: hd_conv_nth)
  moreover have users: "set (map ch_user (?as' @ ?xs')) = set (map ch_user (as @ xs))"
    "distinct (map ch_user (?as' @ ?xs'))"
    using session ik(3) users_without [of k as ch_user xs] by (simp_all add: channel_session_def comp_def)
  ultimately have "channel_session epoch outside wc gid raw (?as', ?xs')"
    using session unfolding channel_session_def by (simp del: map_map)
  moreover have "mg_signer ` mgr_at ` set ?as' \<subseteq> mg_signer ` mgr_at ` set as"
    using rem(4) by (auto simp: same_member_def)
  ultimately show ?thesis
    using run users length_upt_without [OF ik(3)] by (intro exI [of _ ?as'] exI [of _ ?xs'] conjI) simp_all
qed

section \<open>A new member\<close>

lemma head_rest:
  assumes "as \<noteq> []"
  shows "map f as = f (as ! 0) # map (\<lambda>j. f (as ! j)) [Suc 0..<length as]"
proof -
  have "map f as = map (\<lambda>j. f (as ! j)) [0..<length as]" by (rule nth_equalityI) simp_all
  then show ?thesis using assms by (simp add: upt_rec [of 0])
qed

text \<open>A client that may join: a new user with a new signer, not in the channel yet.\<close>

definition joins_ok ::
  "('p, 'c, 's, 'g, 'o) openmls \<Rightarrow> bytes \<Rightarrow> nat \<Rightarrow> ('p, 'c, 's, 'g, 'k) sdk_client \<Rightarrow> ('p, 'c, 's, 'g, 'k) sdk_client \<Rightarrow> bool" where
  "joins_ok api gid limit creator b \<longleftrightarrow>
     \<not> ch_ready b \<and> length (ch_user b) = 16 \<and> map_of (mg_groups (mgr_at b)) gid = None \<and>
     (case mls_generate_key_package api (mgr_at b) of
        (m, Err e) \<Rightarrow> False
      | (m, Ok kp) \<Rightarrow> length kp + 8 \<le> limit \<and>
          (case mls_add_member api gid kp (mgr_at creator) of
             (a, Err e) \<Rightarrow> True
           | (a, Ok (c, w)) \<Rightarrow> length c \<le> limit \<and> length c < 2 ^ 32 \<and> length w + 16 \<le> limit))"

text \<open>The client that joins hears the commit, its welcome and the content key.\<close>

lemma joiner_hears:
  assumes b: "\<not> ch_ready b" "length (ch_user b) = 16" "map_of (mg_groups (mgr_at b)) gid = None"
    and commit: "mls_commit_decode capi commit_bin = Ok c"
    and wel: "mls_welcome_decode capi w_bin = Ok \<lparr>dw_welcome = w, dw_user_id = u\<rparr>"
    and join: "mls_process_welcome api w (mgr_at b) = (b1, Ok gid)"
    and cek: "mls_decrypt api gid ct b1 = (b2, Ok (CEK_PREFIX @ raw))" "length raw = 32"
  obtains b' where "channel_on_cek api wc gid ct (channel_on_welcome capi api (u16_le 16 @ ch_user b @ w_bin)
      (channel_on_commit capi api gid commit_bin b)) = b'"
    "mgr_at b' = b2" "ch_user b' = ch_user b" "has_cek wc gid raw b'"
proof -
  have "mls_process_commit api gid c (mgr_at b) = (mgr_at b, Err ''group not found'')"
    using b(3) by (simp add: mls_process_commit_def)
  then have b0: "channel_on_commit capi api gid commit_bin b = set_client (mgr_at b) b"
    using channel_on_commit_eq [OF commit, of api gid b] by simp
  have "of_u16_le (u16_le 16 @ ch_user b @ w_bin) = 16" by simp
  then have "channel_on_welcome capi api (u16_le 16 @ ch_user b @ w_bin) (set_client (mgr_at b) b) = set_client b1 b"
    using b(1,2) wel join
    by (simp add: channel_on_welcome_def Let_def mc_calls set_client_def)
  moreover have "channel_on_cek api wc gid ct (set_client b1 b) =
      b\<lparr>ch_mls := mc_import_cek wc gid raw (set_mgr b2 (ch_mls b)), ch_ready := True\<rparr>"
    using mc_try_decrypt_cek_Ok [of api gid ct "set_mgr b1 (ch_mls b)" b2 raw wc] cek b(1)
    by (simp add: channel_on_cek_def set_client_def)
  ultimately show ?thesis
    using b(2) that [of "b\<lparr>ch_mls := mc_import_cek wc gid raw (set_mgr b2 (ch_mls b)), ch_ready := True\<rparr>"]
    by (simp add: b0 has_cek_def)
qed

text \<open>The steps of a join, from what the managers return.\<close>

lemma channel_join_run:
  assumes capi: "capnp_laws capi content limit" and "as \<noteq> []"
    and b: "\<not> ch_ready b" "length (ch_user b) = 16" "map_of (mg_groups (mgr_at b)) gid = None"
    and ready: "\<forall>c \<in> set as \<union> set xs. ch_ready c"
    and raw: "length raw = 32" "mc_raw_ceks (ch_mls (as ! 0)) gid = Some raw"
    and kp: "mls_generate_key_package api (mgr_at b) = (m, Ok kp)" "length kp + 8 \<le> limit"
    and add: "mls_add_member api gid kp (mgr_at (as ! 0)) = (d, Ok (cb, wb))"
    and fits: "length cb \<le> limit" "length cb < 2 ^ 32" "length wb + 16 \<le> limit"
    and join: "mls_process_welcome api wb m = (b1, Ok gid)"
    and commit: "\<forall>j < length as. j \<noteq> 0 \<longrightarrow> fst (mls_process_commit api gid cb (mgr_at (as ! j))) = ds j"
    and gone: "\<forall>x \<in> set xs. fst (mls_process_commit api gid cb (mgr_at x)) = es (mgr_at x)"
    and cek: "mls_encrypt api gid (CEK_PREFIX @ raw) d = Ret (h, Ok ct)"
      "mls_decrypt api gid ct b1 = (b2, Ok (CEK_PREFIX @ raw))"
  obtains b' where "channel_join capi show_error api wc gid b (as, xs) =
      Some (set_client h (as ! 0) # map (\<lambda>j. set_client (ds j) (as ! j)) [Suc 0..<length as] @ [b'],
        map (\<lambda>x. set_client (es (mgr_at x)) x) xs)"
    "mgr_at b' = b2" "ch_user b' = ch_user b" "has_cek wc gid raw b'"
proof -
  obtain up reply where up: "mls_key_package_encode capi kp = Ret up"
    "gateway_key_package capi show_error up = Ok kp" "gateway_fetch_kp capi [kp] = Ret reply"
    "mls_key_package_list_decode capi reply = Ok [kp]"
    using gateway_key_package_passes [OF capi kp(2)] .
  obtain bin where bin: "mls_commit_encode capi cb = Ret bin" "gateway_commit capi show_error bin = Ok bin"
    "mls_commit_decode capi bin = Ok cb"
    using gateway_commit_passes [OF capi fits(1)] .
  obtain wbin where wbin: "mls_welcome_encode capi wb (ch_user b) = Ret wbin"
    "mls_welcome_decode capi wbin = Ok \<lparr>dw_welcome = wb, dw_user_id = ch_user b\<rparr>"
    using events_carry [OF capi, of wb "ch_user b"] fits(3) b(2) by auto
  let ?w = "u16_le 16 @ ch_user b @ wbin"
  have gw: "gateway_welcome ?w = Ok ?w"
    using gateway_welcome_passes [of "ch_user b" wbin] b(2) by fastforce
  have "map_of (mg_groups m) gid = None"
    using kp(1) b(3) by (auto simp: mls_generate_key_package_def split: prod.splits)
  then obtain b' where b': "channel_on_cek api wc gid ct (channel_on_welcome capi api ?w
      (channel_on_commit capi api gid bin (set_client m b))) = b'"
    "mgr_at b' = b2" "ch_user b' = ch_user b" "has_cek wc gid raw b'"
    using joiner_hears [of "set_client m b" gid capi bin cb wbin wb "ch_user b" api b1 ct b2 raw wc]
      b bin(3) wbin(2) join cek(2) raw(1) by simp metis
  let ?hear = "\<lambda>c. channel_on_cek api wc gid ct (channel_on_welcome capi api ?w (channel_on_commit capi api gid bin c))"
  have hears: "?hear c = set_client (fst (mls_process_commit api gid cb (mgr_at c))) c" if "c \<in> set as \<union> set xs" for c
    using ready that by (simp add: channel_on_commit_eq [OF bin(3)] ready_ignores)
  have "map ?hear (tl as) = map (\<lambda>j. set_client (ds j) (as ! j)) [Suc 0..<length as]"
    using commit by (intro nth_equalityI) (simp_all add: nth_tl hears)
  moreover have "map ?hear xs = map (\<lambda>x. set_client (es (mgr_at x)) x) xs" using gone by (simp add: hears)
  moreover have "mc_generate_key_package api (ch_mls b) = (set_mgr m (ch_mls b), Ok kp)"
    by (simp add: mc_calls kp(1))
  moreover have "channel_add_member capi api gid (ch_user b) kp (as ! 0) =
      Ret (set_client d (as ! 0), Ok (bin, ?w))"
    using mc_add_member_Ok [of api gid kp "ch_mls (as ! 0)", OF add fits(2)] b(2)
    by (simp add: channel_add_member_def bin(1) wbin(1) set_client_def)
  moreover have "mc_encrypt_cek_for_member api gid (ch_mls (set_client d (as ! 0))) =
      Ret (set_mgr h (ch_mls (as ! 0)), Ok ct)"
    using mc_encrypt_cek_Ok [of api gid raw "ch_mls (set_client d (as ! 0))" h ct] cek(1) raw(2)
    by (simp add: set_client_def)
  moreover have "(set_client d (as ! 0))\<lparr>ch_mls := set_mgr h (ch_mls (as ! 0))\<rparr> = set_client h (as ! 0)"
    "b\<lparr>ch_mls := set_mgr m (ch_mls b)\<rparr> = set_client m b"
    by (simp_all add: set_client_def)
  moreover have "ch_ready (set_client h (as ! 0))" using ready \<open>as \<noteq> []\<close> by simp
  note ignores = ready_ignores [OF this]
  ultimately have "channel_join capi show_error api wc gid b (as, xs) =
      Some (set_client h (as ! 0) # map (\<lambda>j. set_client (ds j) (as ! j)) [Suc 0..<length as] @ [b'],
        map (\<lambda>x. set_client (es (mgr_at x)) x) xs)"
    using up bin(2) gw b'(1) by (simp add: ignores Let_def del: map_eq_conv)
  then show ?thesis using b'(2-4) by (rule that)
qed

lemma channel_join_joins:
  assumes capi: "capnp_laws capi content limit" and laws: "mls_laws api gid epoch outside leaf"
    and session: "channel_session epoch outside wc gid raw (as, xs)" and room: "length as < 1000"
    and fresh: "mg_signer (mgr_at b) \<notin> mg_signer ` mgr_at ` set as" "ch_user b \<notin> ch_user ` (set as \<union> set xs)"
    and ok: "joins_ok api gid limit (as ! 0) b"
  shows "\<exists>as' xs'. channel_join capi show_error api wc gid b (as, xs) = Some (as', xs') \<and>
    channel_session epoch outside wc gid raw (as', xs') \<and> length as' = Suc (length as) \<and> length xs' = length xs \<and>
    set (map ch_user (as' @ xs')) = insert (ch_user b) (set (map ch_user (as @ xs))) \<and>
    mg_signer ` mgr_at ` set as' = insert (mg_signer (mgr_at b)) (mg_signer ` mgr_at ` set as)"
proof -
  let ?as = "map mgr_at as" and ?n = "length as"
  have mls: "mls_session epoch outside gid ?as (map mgr_at xs)" and n: "0 < length ?as" "length ?as < 1000"
    and raw: "length raw = 32" "mc_raw_ceks (ch_mls (as ! 0)) gid = Some raw"
    using session room by (auto simp: channel_session_def hd_conv_nth)
  obtain m kp where made: "mls_generate_key_package api (mgr_at b) = (m, Ok kp)"
    using ok by (auto simp: joins_ok_def split: prod.splits result.splits)
  have b: "\<not> ch_ready b" "length (ch_user b) = 16" "map_of (mg_groups (mgr_at b)) gid = None"
    and kp: "mls_generate_key_package api (mgr_at b) = (m, Ok kp)" "length kp + 8 \<le> limit"
    and sizes: "case mls_add_member api gid kp (mgr_at (as ! 0)) of (a, Err e) \<Rightarrow> True
      | (a, Ok (c, w)) \<Rightarrow> length c \<le> limit \<and> length c < 4294967296 \<and> length w + 16 \<le> limit"
    using ok made by (simp_all add: joins_ok_def)
  have fresh': "mg_signer (mgr_at b) \<notin> mg_signer ` set ?as" using fresh(1) by (simp add: image_image)
  from session_invite [OF mls_lawsD(4,2) [OF laws] mls n kp(1) fresh']
  obtain cb wb b1 ds es where inv:
    "mls_add_member api gid kp (?as ! 0) = (ds 0, Ok (cb, wb))" "mls_process_welcome api wb m = (b1, Ok gid)"
    "\<forall>j < length ?as. j \<noteq> 0 \<longrightarrow> mls_process_commit api gid cb (?as ! j) = (ds j, Ok ())"
    "\<forall>x \<in> set (map mgr_at xs). mls_process_commit api gid cb x = (es x, Err ''failed to process commit'')"
    "\<forall>j < length ?as. same_member leaf gid (?as ! j) (ds j)" "mg_signer b1 = mg_signer (mgr_at b)"
    "mls_session epoch outside gid (map ds [0..<length ?as] @ [b1]) (map es (map mgr_at xs))"
    "leaf_at leaf gid b1 = free_leaf (map (leaf_at leaf gid) ?as)"
    "bears_loss api epoch outside leaf (map (member_of gid) (map ds [0..<length ?as] @ [b1]))" .
  let ?as1 = "map ds [0..<length ?as] @ [b1]" and ?key = "CEK_PREFIX @ raw"
  have size: "0 < length ?as1" "length ?key \<le> 65536" by (simp_all add: raw(1) CEK_PREFIX_def)
  from session_say_some [OF inv(9,7) size, where R = "{?n}"]
  obtain ct hs where say: "mls_encrypt api gid ?key (?as1 ! 0) = Ret (hs 0, Ok ct)"
    "\<forall>j < length ?as1. j \<noteq> 0 \<longrightarrow> mls_decrypt api gid ct (?as1 ! j) = (hs j, Ok ?key)"
    "\<forall>j < length ?as1. same_member leaf gid (?as1 ! j) (hs j)"
    "mls_session epoch outside gid (map (\<lambda>j. if j = 0 \<or> j \<in> {?n} then hs j else ?as1 ! j) [0..<length ?as1])
      (map es (map mgr_at xs))" .
  have zero: "?as ! 0 = mgr_at (as ! 0)" "?as1 ! 0 = ds 0" using n(1) by (simp_all add: nth_append)
  have add: "mls_add_member api gid kp (mgr_at (as ! 0)) = (ds 0, Ok (cb, wb))" using inv(1) zero(1) by simp
  have enc: "mls_encrypt api gid ?key (ds 0) = Ret (hs 0, Ok ct)" using say(1) zero(2) by simp
  have dec: "mls_decrypt api gid ct b1 = (hs ?n, Ok ?key)"
    using say(2) [rule_format, of ?n] n(1) by (simp add: nth_append)
  have fits: "length cb \<le> limit" "length cb < 2 ^ 32" "length wb + 16 \<le> limit" using sizes add by simp_all
  have ready: "\<forall>c \<in> set as \<union> set xs. ch_ready c" using session by (simp add: channel_session_def has_cek_def)
  have ne: "as \<noteq> []" using n(1) by simp
  have heard: "\<forall>j < ?n. j \<noteq> 0 \<longrightarrow> fst (mls_process_commit api gid cb (mgr_at (as ! j))) = ds j"
    "\<forall>x \<in> set xs. fst (mls_process_commit api gid cb (mgr_at x)) = es (mgr_at x)"
    using inv(3,4) by simp_all
  obtain b' where run: "channel_join capi show_error api wc gid b (as, xs) =
      Some (set_client (hs 0) (as ! 0) # map (\<lambda>j. set_client (ds j) (as ! j)) [Suc 0..<?n] @ [b'],
        map (\<lambda>x. set_client (es (mgr_at x)) x) xs)"
    and b': "mgr_at b' = hs ?n" "ch_user b' = ch_user b" "has_cek wc gid raw b'"
    using channel_join_run [OF capi ne b ready raw kp add fits inv(2) heard enc dec] .
  let ?as' = "set_client (hs 0) (as ! 0) # map (\<lambda>j. set_client (ds j) (as ! j)) [Suc 0..<?n] @ [b']"
  let ?xs' = "map (\<lambda>x. set_client (es (mgr_at x)) x) xs"
  have "map mgr_at ?as' = map (\<lambda>j. if j = 0 \<or> j \<in> {?n} then hs j else ?as1 ! j) [0..<length ?as1]"
  proof -
    have js: "[0..<length ?as1] = 0 # [Suc 0..<?n] @ [?n]"
      using n(1) by (simp add: upt_rec [of 0])
    have "map (\<lambda>j. if j = 0 \<or> j \<in> {?n} then hs j else ?as1 ! j) [Suc 0..<?n] = map ds [Suc 0..<?n]"
      by (rule map_cong) (simp_all add: nth_append)
    then show ?thesis unfolding js by (simp add: b'(1) comp_def del: map_eq_conv)
  qed
  then have "mls_session epoch outside gid (map mgr_at ?as') (map mgr_at ?xs')"
    using say(4) by (simp only: map_map comp_def set_client_simps)
  moreover have "has_cek wc gid raw c" if "c \<in> set ?as' \<union> set ?xs'" for c
    using session that n(1) b'(3) by (auto simp: channel_session_def)
  moreover have users: "map ch_user ?as' = map ch_user as @ [ch_user b]" "map ch_user ?xs' = map ch_user xs"
    using head_rest [of as ch_user] n(1) b'(2) by (simp_all add: comp_def)
  moreover have new: "ch_user b \<notin> ch_user ` set as" "ch_user b \<notin> ch_user ` set xs" using fresh(2) by auto
  ultimately have "channel_session epoch outside wc gid raw (?as', ?xs')"
    using session new raw unfolding channel_session_def fst_conv snd_conv map_append
    by (simp del: map_map list.map)
  moreover have "map (\<lambda>c. mg_signer (mgr_at c)) ?as' = map (\<lambda>c. mg_signer (mgr_at c)) as @ [mg_signer (mgr_at b)]"
  proof -
    have "mg_signer (hs 0) = mg_signer (ds 0)" "mg_signer (hs ?n) = mg_signer b1"
      using say(3) [rule_format, of 0] say(3) [rule_format, of ?n] n(1)
      by (simp_all add: same_member_def nth_append)
    moreover have "mg_signer (ds j) = mg_signer (mgr_at (as ! j))" if "j < ?n" for j
      using inv(5) that by (simp add: same_member_def)
    ultimately show ?thesis
      using head_rest [of as "\<lambda>c. mg_signer (mgr_at c)"] n(1) b'(1) inv(6) by simp
  qed
  from arg_cong [OF this, of set]
  have "mg_signer ` mgr_at ` set ?as' = insert (mg_signer (mgr_at b)) (mg_signer ` mgr_at ` set as)"
    unfolding set_map set_append image_image by simp
  moreover have "set (map ch_user (?as' @ ?xs')) = insert (ch_user b) (set (map ch_user (as @ xs)))"
    unfolding map_append users by simp
  ultimately show ?thesis
    using run n(1) by (intro exI [where x = ?xs'] exI [where x = ?as']) (simp only: simp_thms, simp)
qed

section \<open>Histories of a channel\<close>

declare channel_post.simps [simp del] channel_join.simps [simp del] channel_remove.simps [simp del]

text \<open>
  \<open>Ch_Post i po\<close>: member \<open>i\<close> sends; \<open>Ch_Join b\<close>: the client \<open>b\<close> joins,
  which the creator adds; \<open>Ch_Remove i k\<close>: member \<open>i\<close> removes member \<open>k\<close>.
  A run collects what the members and the removed clients are shown.
\<close>

datatype 'c channel_event =
    Ch_Post nat post
  | Ch_Join 'c
  | Ch_Remove nat nat

fun channel_step ::
  "('b, 'm, 'r, 'l, 'e) capnp \<Rightarrow> ('e \<Rightarrow> string) \<Rightarrow> ('p, 'c, 's, 'g, 'o) openmls \<Rightarrow> 'k webcrypto \<Rightarrow> ('g \<Rightarrow> u32) \<Rightarrow>
   bytes \<Rightarrow> bytes \<Rightarrow> ('p, 'c, 's, 'g, 'k) sdk_client channel_event \<Rightarrow> ('p, 'c, 's, 'g, 'k) channel_state \<Rightarrow>
   (('p, 'c, 's, 'g, 'k) channel_state \<times> (bytes option list \<times> bytes option list) list) option" where
  "channel_step capi show_error api wc leaf tid gid (Ch_Post i po) cl =
     map_option (\<lambda>shown. (cl, [shown])) (channel_post capi show_error wc tid gid i po cl)"
| "channel_step capi show_error api wc leaf tid gid (Ch_Join b) cl =
     map_option (\<lambda>cl'. (cl', [])) (channel_join capi show_error api wc gid b cl)"
| "channel_step capi show_error api wc leaf tid gid (Ch_Remove i k) cl =
     map_option (\<lambda>cl'. (cl', [])) (channel_remove capi show_error api leaf gid i k cl)"

fun channel_run ::
  "('b, 'm, 'r, 'l, 'e) capnp \<Rightarrow> ('e \<Rightarrow> string) \<Rightarrow> ('p, 'c, 's, 'g, 'o) openmls \<Rightarrow> 'k webcrypto \<Rightarrow> ('g \<Rightarrow> u32) \<Rightarrow>
   bytes \<Rightarrow> bytes \<Rightarrow> ('p, 'c, 's, 'g, 'k) sdk_client channel_event list \<Rightarrow> ('p, 'c, 's, 'g, 'k) channel_state \<Rightarrow>
   (('p, 'c, 's, 'g, 'k) channel_state \<times> (bytes option list \<times> bytes option list) list) option" where
  "channel_run capi show_error api wc leaf tid gid [] cl = Some (cl, [])"
| "channel_run capi show_error api wc leaf tid gid (ev # evs) cl =
     (case channel_step capi show_error api wc leaf tid gid ev cl of
        None \<Rightarrow> None
      | Some (cl', shown) \<Rightarrow>
          map_option (\<lambda>(cl'', later). (cl'', shown @ later)) (channel_run capi show_error api wc leaf tid gid evs cl'))"

text \<open>
  When an event is allowed: indices are in range, the creator is not removed, no one removes
  itself, those who join are new, and what is sent fits.
\<close>

fun channel_event_ok ::
  "('p, 'c, 's, 'g, 'o) openmls \<Rightarrow> ('g \<Rightarrow> u32) \<Rightarrow> bytes \<Rightarrow> nat \<Rightarrow> ('p, 'c, 's, 'g, 'k) sdk_client channel_event \<Rightarrow>
   ('p, 'c, 's, 'g, 'k) channel_state \<Rightarrow> bool" where
  "channel_event_ok api leaf gid limit (Ch_Post i po) (as, xs) \<longleftrightarrow> i < length as \<and> post_ok po"
| "channel_event_ok api leaf gid limit (Ch_Join b) (as, xs) \<longleftrightarrow>
     length as < 1000 \<and> mg_signer (mgr_at b) \<notin> set (map (\<lambda>c. mg_signer (mgr_at c)) as) \<and>
     ch_user b \<notin> set (map ch_user (as @ xs)) \<and> joins_ok api gid limit (as ! 0) b"
| "channel_event_ok api leaf gid limit (Ch_Remove i k) (as, xs) \<longleftrightarrow>
     i < length as \<and> 0 < k \<and> k < length as \<and> i \<noteq> k \<and>
     (case mls_remove_member api gid (leaf_at leaf gid (mgr_at (as ! k))) (mgr_at (as ! i)) of
        (a, Err e) \<Rightarrow> True
      | (a, Ok c) \<Rightarrow> length c \<le> limit)"

fun channel_history_ok ::
  "('b, 'm, 'r, 'l, 'e) capnp \<Rightarrow> ('e \<Rightarrow> string) \<Rightarrow> ('p, 'c, 's, 'g, 'o) openmls \<Rightarrow> 'k webcrypto \<Rightarrow> ('g \<Rightarrow> u32) \<Rightarrow>
   bytes \<Rightarrow> bytes \<Rightarrow> nat \<Rightarrow> ('p, 'c, 's, 'g, 'k) sdk_client channel_event list \<Rightarrow>
   ('p, 'c, 's, 'g, 'k) channel_state \<Rightarrow> bool" where
  "channel_history_ok capi show_error api wc leaf tid gid limit [] cl \<longleftrightarrow> True"
| "channel_history_ok capi show_error api wc leaf tid gid limit (ev # evs) cl \<longleftrightarrow>
     channel_event_ok api leaf gid limit ev cl \<and>
     (case channel_step capi show_error api wc leaf tid gid ev cl of
        None \<Rightarrow> True
      | Some (cl', shown) \<Rightarrow> channel_history_ok capi show_error api wc leaf tid gid limit evs cl')"

text \<open>What everyone is to be shown, with \<open>n\<close> members and \<open>x\<close> removed clients.\<close>

fun channel_shows :: "nat \<Rightarrow> nat \<Rightarrow> 'c channel_event list \<Rightarrow> (bytes option list \<times> bytes option list) list" where
  "channel_shows n x [] = []"
| "channel_shows n x (Ch_Post i po # evs) =
     (replicate n (Some (po_content po)), replicate x (Some (po_content po))) # channel_shows n x evs"
| "channel_shows n x (Ch_Join b # evs) = channel_shows (Suc n) x evs"
| "channel_shows n x (Ch_Remove i k # evs) = channel_shows (n - 1) (Suc x) evs"

lemma channel_step_shows:
  assumes capi: "capnp_laws capi content limit" "262208 \<le> limit" and aes: "aes_law wc"
    and laws: "mls_laws api gid epoch outside leaf" and ids: "length tid = 16" "length gid = 16"
    and session: "channel_session epoch outside wc gid raw (as, xs)"
    and ok: "channel_event_ok api leaf gid limit ev (as, xs)"
  obtains as' xs' shown where "channel_step capi show_error api wc leaf tid gid ev (as, xs) = Some ((as', xs'), shown)"
    "channel_session epoch outside wc gid raw (as', xs')"
    "\<forall>evs. channel_shows (length as) (length xs) (ev # evs) = shown @ channel_shows (length as') (length xs') evs"
    "length as \<le> 1000 \<longrightarrow> length as' \<le> 1000"
proof (cases ev)
  case (Ch_Post i po)
  have "channel_post capi show_error wc tid gid i po (as, xs) =
      Some (replicate (length as) (Some (po_content po)), replicate (length xs) (Some (po_content po)))"
    using channel_post_shown [OF capi aes session ids] ok by (simp add: Ch_Post)
  then show ?thesis
    using that [of as xs "[(replicate (length as) (Some (po_content po)), replicate (length xs) (Some (po_content po)))]"]
      session
    by (simp add: Ch_Post)
next
  case (Ch_Join b)
  have new: "length as < 1000" "mg_signer (mgr_at b) \<notin> mg_signer ` mgr_at ` set as"
    "ch_user b \<notin> ch_user ` (set as \<union> set xs)" "joins_ok api gid limit (as ! 0) b"
    using ok by (simp_all add: Ch_Join image_image image_Un)
  obtain as' xs' where "channel_join capi show_error api wc gid b (as, xs) = Some (as', xs')"
    "channel_session epoch outside wc gid raw (as', xs')" "length as' = Suc (length as)" "length xs' = length xs"
    using channel_join_joins [OF capi(1) laws session new, of show_error] by blast
  then show ?thesis using new(1) that [of as' xs' "[]"] by (simp add: Ch_Join)
next
  case (Ch_Remove i k)
  have ik: "i < length as" "0 < k" "k < length as" "i \<noteq> k" using ok by (simp_all add: Ch_Remove)
  have "length c \<le> limit" if "mls_remove_member api gid (leaf_at leaf gid (mgr_at (as ! k))) (mgr_at (as ! i)) =
      (m, Ok c)" for m c
    using ok that by (simp add: Ch_Remove)
  then obtain as' xs' where "channel_remove capi show_error api leaf gid i k (as, xs) = Some (as', xs')"
    "channel_session epoch outside wc gid raw (as', xs')" "length as' = length as - 1" "length xs' = Suc (length xs)"
    using channel_remove_keeps [OF capi(1) mls_lawsD(5) [OF laws] session ik] by blast
  then show ?thesis using that [of as' xs' "[]"] by (simp add: Ch_Remove le_diff_conv)
qed

lemma channel_run_succeeds:
  assumes capi: "capnp_laws capi content limit" "262208 \<le> limit" and aes: "aes_law wc"
    and laws: "mls_laws api gid epoch outside leaf" and ids: "length tid = 16" "length gid = 16"
  shows "channel_session epoch outside wc gid raw (as, xs) \<Longrightarrow> length as \<le> 1000 \<Longrightarrow>
    channel_history_ok capi show_error api wc leaf tid gid limit evs (as, xs) \<Longrightarrow>
    \<exists>as' xs'. channel_run capi show_error api wc leaf tid gid evs (as, xs) =
        Some ((as', xs'), channel_shows (length as) (length xs) evs) \<and>
      channel_session epoch outside wc gid raw (as', xs') \<and> length as' \<le> 1000"
proof (induction evs arbitrary: as xs)
  case (Cons ev evs)
  have "channel_event_ok api leaf gid limit ev (as, xs)" using Cons.prems(3) by simp
  from channel_step_shows [OF assms Cons.prems(1) this, of show_error]
  obtain as1 xs1 shown where one: "channel_step capi show_error api wc leaf tid gid ev (as, xs) = Some ((as1, xs1), shown)"
    "channel_session epoch outside wc gid raw (as1, xs1)"
    "\<forall>evs. channel_shows (length as) (length xs) (ev # evs) = shown @ channel_shows (length as1) (length xs1) evs"
    "length as \<le> 1000 \<longrightarrow> length as1 \<le> 1000" .
  have small: "length as1 \<le> 1000" using one(4) Cons.prems(2) by simp
  have "channel_history_ok capi show_error api wc leaf tid gid limit evs (as1, xs1)"
    using Cons.prems(3) one(1) by simp
  from Cons.IH [OF one(2) small this] show ?case using one(1,3) by fastforce
qed simp

lemma channel_open_session:
  assumes laws: "mls_laws api gid epoch outside leaf"
    and made: "channel_open api wc raw gid a = Ret (a', Ok ())" and raw: "length raw = 32" "length (ch_user a) = 16"
  shows "channel_session epoch outside wc gid raw ([a'], [])"
proof -
  obtain m where m: "mls_create_group api gid (mgr_at a) = Ret (m, Ok ())"
    "a' = a\<lparr>ch_mls := mc_import_cek wc gid raw (set_mgr m (ch_mls a)), ch_creator := True, ch_ready := True\<rparr>"
  proof (cases "mls_create_group api gid (mgr_at a)")
    case (Panic p)
    then show ?thesis using made
      by (simp add: channel_open_def mc_create_group_def js_create_group_def js_wrap_def mgr_of_def)
  next
    case (Ret r)
    show ?thesis
    proof (cases "snd r")
      case (Err e)
      then show ?thesis using made Ret
        by (cases r) (simp add: channel_open_def mc_create_group_def js_create_group_def js_wrap_def mgr_of_def)
    next
      case (Ok u)
      then have "mls_create_group api gid (mgr_at a) = Ret (fst r, Ok ())" using Ret by (cases r) simp
      then show ?thesis using made that [of "fst r"]
        by (simp add: channel_open_def mc_create_group_Ok)
    qed
  qed
  have "mls_session epoch outside gid [m] []"
    using create_session [OF mls_lawsD(1) [OF laws] m(1)] by blast
  then show ?thesis using raw by (simp add: channel_session_def has_cek_def m(2))
qed

section \<open>Correctness\<close>


text \<open>A stand-in for AES-GCM: an empty tag, and no secrecy.\<close>

definition tag_crypto :: "bytes webcrypto" where
  "tag_crypto = \<lparr>wc_import = (\<lambda>raw. raw), wc_encrypt = (\<lambda>k iv pt. replicate 16 0 @ pt),
     wc_decrypt = (\<lambda>k iv ct. if take 16 ct = replicate 16 0 then Some (drop 16 ct) else None)\<rparr>"

lemma tag_crypto_law: "aes_law tag_crypto"
  by (simp add: aes_law_def tag_crypto_def)

definition leaf_sdk_client :: "nat \<Rightarrow> (nat, bytes, nat, leaf_group, bytes) sdk_client" where
  "leaf_sdk_client n = \<lparr>ch_mls = \<lparr>mc_manager = \<lparr>js_inner = leaf_client n\<rparr>, mc_channel_keys = Map.empty,
     mc_raw_ceks = Map.empty\<rparr>, ch_user = replicate 16 (of_nat n), ch_ready = False, ch_creator = False\<rparr>"

definition hello :: "bytes \<Rightarrow> post" where
  "hello content = \<lparr>po_content = content, po_iv = replicate 12 1, po_id = replicate 16 2, po_time = 1704067200000,
     po_now = 1704067200000000000, po_fresh = Message_Id (replicate 16 0)\<rparr>"

lemma history_ok_step:
  assumes "channel_event_ok api leaf gid limit ev cl"
    and "\<And>cl' shown. channel_step capi show_error api wc leaf tid gid ev cl = Some (cl', shown) \<Longrightarrow>
      channel_history_ok capi show_error api wc leaf tid gid limit evs cl'"
  shows "channel_history_ok capi show_error api wc leaf tid gid limit (ev # evs) cl"
  using assms by (simp split: option.split)

lemma channel_remove_length:
  assumes "channel_remove capi show_error api leaf gid i k (as, xs) = Some (as', xs')"
  shows "length as' = length [j \<leftarrow> [0..<length as]. j \<noteq> k]"
  using assms by (auto simp: channel_remove.simps Option.bind_eq_Some_conv Let_def)

text \<open>
  Two clients; the second says something, is removed, and is shown what the first says next. What
  the managers return, until the second has its content key.
\<close>

definition leaf_opened :: "nat \<Rightarrow> nat \<Rightarrow> nat \<Rightarrow> u32 list \<Rightarrow> u32 \<Rightarrow> u32 list \<Rightarrow> (nat, bytes, nat, leaf_group) mls_manager" where
  "leaf_opened n p e ls own pend = (leaf_client n)\<lparr>mg_provider := p, mg_groups := [(replicate 16 8,
     \<lparr>lg_id = replicate 16 8, lg_epoch = e, lg_leaves = ls, lg_own = own, lg_active = True, lg_pending = pend\<rparr>)]\<rparr>"

lemmas leaf_run_defs = leaf_openmls_def leaf_client_def leaf_opened_def hm_insert_def to_bytes_def
  mls_create_group_def mls_generate_key_package_def mls_add_member_def add_member_body_def mls_encrypt_def
  mls_remove_member_def mls_process_welcome_def mls_decrypt_def receive_protocol_def with_group_def
  st_bind_def st_lift_def st_context_def MAX_GROUP_MEMBERS_def MAX_MESSAGE_SIZE_def free_leaf_def

lemma length_enc_nats: "length (enc_nats ns) = sum_list ns + length ns"
  by (induction ns) simp_all

lemma leaf_channel_calls:
  shows "mls_create_group leaf_openmls (replicate 16 8) (leaf_client 0) = Ret (leaf_opened 0 1 0 [0] 0 [], Ok ())"
    "mls_generate_key_package leaf_openmls (leaf_client 1) = (leaf_client 1\<lparr>mg_provider := 1\<rparr>, Ok (enc_nats [0, 1]))"
    "mls_add_member leaf_openmls (replicate 16 8) (enc_nats [0, 1]) (leaf_opened 0 1 0 [0] 0 []) =
      (leaf_opened 0 2 1 [0, 1] 0 [0, 1], Ok (enc_nats [2, 0, 1], enc_nats ([3, 1, 1, Suc (Suc 0), 0, 1] @ replicate 16 8)))"
    "mls_process_welcome leaf_openmls (enc_nats ([3, 1, 1, Suc (Suc 0), 0, 1] @ replicate 16 8)) (leaf_client 1\<lparr>mg_provider := 1\<rparr>) =
      (leaf_opened 1 3 1 [0, 1] 1 [], Ok (replicate 16 8))"
    "length key \<le> 65536 \<Longrightarrow> mls_encrypt leaf_openmls (replicate 16 8) key (leaf_opened 0 2 1 [0, 1] 0 [0, 1]) =
      Ret (leaf_opened 0 3 1 [0, 1] 0 [0, 1], Ok (enc_nats (1 # 1 # map unat key)))"
    "mls_decrypt leaf_openmls (replicate 16 8) (enc_nats (1 # 1 # map unat key)) (leaf_opened 1 3 1 [0, 1] 1 []) =
      (leaf_opened 1 4 1 [0, 1] 1 [], Ok key)"
    "mls_remove_member leaf_openmls (replicate 16 8) 1 (leaf_opened 0 3 1 [0, 1] 0 [0, 1]) =
      (leaf_opened 0 4 2 [0] 0 [0], Ok (enc_nats [4, 1, 1]))"
  by (simp_all add: leaf_run_defs del: enc_nats.simps)

definition leaf_channel_creator :: "(nat, bytes, nat, leaf_group, bytes) sdk_client" where
  "leaf_channel_creator = (leaf_sdk_client 0)\<lparr>ch_mls := mc_import_cek tag_crypto (replicate 16 8) (replicate 32 7)
     (set_mgr (leaf_opened 0 1 0 [0] 0 []) (ch_mls (leaf_sdk_client 0))), ch_creator := True, ch_ready := True\<rparr>"

lemma leaf_clients:
  "mgr_at (leaf_sdk_client n) = leaf_client n" "\<not> ch_ready (leaf_sdk_client n)"
  "ch_user (leaf_sdk_client n) = replicate 16 (of_nat n)" "mg_groups (leaf_client n) = []" "mg_signer (leaf_client n) = n"
  "mgr_at leaf_channel_creator = leaf_opened 0 1 0 [0] 0 []" "ch_user leaf_channel_creator = replicate 16 0"
  "ch_ready leaf_channel_creator" "mg_signer (leaf_opened n p e ls own pend) = n"
  "mc_raw_ceks (ch_mls leaf_channel_creator) (replicate 16 8) = Some (replicate 32 7)"
proof -
  show "mgr_at (leaf_sdk_client n) = leaf_client n" by (simp add: leaf_sdk_client_def mgr_of_def)
qed (simp_all add: leaf_sdk_client_def leaf_channel_creator_def leaf_client_def leaf_opened_def)

lemma leaf_channel_opens:
  "channel_open leaf_openmls tag_crypto (replicate 32 7) (replicate 16 8) (leaf_sdk_client 0) =
    Ret (leaf_channel_creator, Ok ())"
  using mc_create_group_Ok [of leaf_openmls "replicate 16 8" "ch_mls (leaf_sdk_client 0)" "leaf_opened 0 1 0 [0] 0 []"]
  by (simp add: channel_open_def leaf_channel_creator_def leaf_sdk_client_def mgr_of_def leaf_channel_calls(1))

lemma leaf_channel_joins:
  obtains b where "channel_join chunk_capnp (\<lambda>e. e) leaf_openmls tag_crypto (replicate 16 8) (leaf_sdk_client 1)
      ([leaf_channel_creator], []) = Some ([set_client (leaf_opened 0 3 1 [0, 1] 0 [0, 1]) leaf_channel_creator, b], [])"
    "mgr_at b = leaf_opened 1 4 1 [0, 1] 1 []"
proof -
  let ?key = "CEK_PREFIX @ replicate 32 7" and ?d = "leaf_opened 0 2 1 [0, 1] 0 [0, 1]"
  have new: "\<not> ch_ready (leaf_sdk_client 1)" "length (ch_user (leaf_sdk_client 1)) = 16"
    "map_of (mg_groups (mgr_at (leaf_sdk_client 1))) (replicate 16 8) = None"
    "mgr_at (leaf_sdk_client 1) = leaf_client 1"
    by (simp_all add: leaf_clients)
  have creator: "mgr_at ([leaf_channel_creator] ! 0) = leaf_opened 0 1 0 [0] 0 []"
    "mc_raw_ceks (ch_mls ([leaf_channel_creator] ! 0)) (replicate 16 8) = Some (replicate 32 7)"
    "\<forall>c \<in> set [leaf_channel_creator] \<union> set []. ch_ready c"
    by (simp_all add: leaf_clients)
  have sizes: "length (enc_nats [0, 1]) + 8 \<le> 67108864" "length (enc_nats [2, 0, 1]) \<le> 67108864"
    "length (enc_nats [2, 0, 1]) < 2 ^ 32" "length (enc_nats ([3, 1, 1, Suc (Suc 0), 0, 1] @ replicate 16 8)) + 16 \<le> 67108864"
    "length (replicate 32 7 :: bytes) = 32" "length ?key \<le> 65536"
    by (simp_all add: CEK_PREFIX_def length_enc_nats sum_list_replicate del: enc_nats.simps)
  have calls: "mls_generate_key_package leaf_openmls (mgr_at (leaf_sdk_client 1)) =
      (leaf_client 1\<lparr>mg_provider := 1\<rparr>, Ok (enc_nats [0, 1]))"
    "mls_add_member leaf_openmls (replicate 16 8) (enc_nats [0, 1]) (mgr_at ([leaf_channel_creator] ! 0)) =
      (?d, Ok (enc_nats [2, 0, 1], enc_nats ([3, 1, 1, Suc (Suc 0), 0, 1] @ replicate 16 8)))"
    "mls_encrypt leaf_openmls (replicate 16 8) ?key ?d =
      Ret (leaf_opened 0 3 1 [0, 1] 0 [0, 1], Ok (enc_nats (1 # 1 # map unat ?key)))"
    unfolding new(4) creator(1) by (rule leaf_channel_calls(2,3) leaf_channel_calls(5) [OF sizes(6)])+
  obtain b where "channel_join chunk_capnp (\<lambda>e. e) leaf_openmls tag_crypto (replicate 16 8) (leaf_sdk_client 1)
      ([leaf_channel_creator], []) =
    Some (set_client (leaf_opened 0 3 1 [0, 1] 0 [0, 1]) ([leaf_channel_creator] ! 0) #
      map (\<lambda>j. set_client (leaf_client 0) ([leaf_channel_creator] ! j)) [Suc 0..<length [leaf_channel_creator]] @ [b],
      map (\<lambda>x. set_client (leaf_client 0) x) [])"
    "mgr_at b = leaf_opened 1 4 1 [0, 1] 1 []"
    using channel_join_run [where show_error = "\<lambda>e. e" and wc = tag_crypto and ds = "\<lambda>j. leaf_client 0"
        and es = "\<lambda>x. leaf_client 0", OF chunk_capnp_laws _ new(1-3) creator(3) sizes(5) creator(2) calls(1) sizes(1)
        calls(2) sizes(2-4) leaf_channel_calls(4) _ _ calls(3) leaf_channel_calls(6)]
    by auto
  then show ?thesis using that [of b] by simp
qed


end
