(* ===== verification/Frames.thy ===== *)
theory Frames
  imports Prelude
begin

text \<open>
  Lists of envelopes in one frame, as the gateway and the browser exchange them during a sync:
  \<^verbatim>\<open>pack_envelopes\<close> and \<^verbatim>\<open>unpack_envelopes\<close> of
  \<^verbatim>\<open>apps/gateway/lib/gateway/binary_socket.ex\<close> and \<^verbatim>\<open>packEnvelopes\<close> and
  \<^verbatim>\<open>unpackEnvelopes\<close> of \<^verbatim>\<open>sdks/mercury-sdk-js/src/frame.ts\<close>. The two writers
  agree; the two readers differ on frames that are cut off.
\<close>

section \<open>Little-endian numbers\<close>

fun le_bytes :: "nat \<Rightarrow> nat \<Rightarrow> bytes" where
  "le_bytes 0 n = []"
| "le_bytes (Suc k) n = of_nat n # le_bytes k (n div 256)"

fun of_le :: "bytes \<Rightarrow> nat" where
  "of_le [] = 0"
| "of_le (b # bs) = unat b + 256 * of_le bs"

lemma length_le_bytes [simp]: "length (le_bytes k n) = k"
  by (induction k arbitrary: n) simp_all

lemma le_bytes_eq_Nil [simp]: "le_bytes k n = [] \<longleftrightarrow> k = 0"
  by (cases k) simp_all

lemma of_le_bytes: "n < 256 ^ k \<Longrightarrow> of_le (le_bytes k n) = n"
proof (induction k arbitrary: n)
  case (Suc k)
  then have "n div 256 < 256 ^ k" by (simp add: less_mult_imp_div_less)
  with Suc.IH [OF this] show ?case by (simp add: unat_of_nat)
qed simp

lemma of_le_bytes_u32 [simp]: "n < 2 ^ 32 \<Longrightarrow> of_le (le_bytes 4 n) = n"
  by (rule of_le_bytes) simp

lemma of_le_bytes_u64 [simp]: "of_le (le_bytes 8 (unat (w :: u64))) = unat w"
  using unsigned_less [of w] by (intro of_le_bytes) simp

section \<open>Packing\<close>

text \<open>The browser's writer fills a buffer of the final size with the same bytes.\<close>

definition pack_envelopes :: "bytes list \<Rightarrow> bytes" where
  "pack_envelopes envelopes =
     le_bytes 4 (length envelopes) @ concat (map (\<lambda>e. le_bytes 4 (length e) @ e) envelopes)"

text \<open>The gateway's reader stops at the first envelope that is not there in full.\<close>

fun gateway_unpack_loop :: "bytes \<Rightarrow> nat \<Rightarrow> bytes list" where
  "gateway_unpack_loop rest 0 = []"
| "gateway_unpack_loop rest (Suc n) =
     (if length rest < 4 then []
      else let len = of_le (take 4 rest) in
        if length (drop 4 rest) < len then []
        else take len (drop 4 rest) # gateway_unpack_loop (drop len (drop 4 rest)) n)"

definition gateway_unpack_envelopes :: "bytes \<Rightarrow> bytes list" where
  "gateway_unpack_envelopes data =
     (if length data < 4 then [] else gateway_unpack_loop (drop 4 data) (of_le (take 4 data)))"

text \<open>
  The browser's reader takes what there is of the last envelope, and throws (\<open>None\<close>) when
  less than a length field remains.
\<close>

fun js_unpack_loop :: "bytes \<Rightarrow> nat \<Rightarrow> bytes list option" where
  "js_unpack_loop rest 0 = Some []"
| "js_unpack_loop rest (Suc n) =
     (if rest = [] then Some []
      else if length rest < 4 then None
      else let len = of_le (take 4 rest) in
        map_option (Cons (take len (drop 4 rest))) (js_unpack_loop (drop len (drop 4 rest)) n))"

definition js_unpack_envelopes :: "bytes \<Rightarrow> bytes list option" where
  "js_unpack_envelopes data =
     (if length data < 4 then Some [] else js_unpack_loop (drop 4 data) (of_le (take 4 data)))"

section \<open>Both readers read what the writers write\<close>

lemma unpack_loops:
  assumes "\<forall>e \<in> set es. length e < 2 ^ 32"
  shows "gateway_unpack_loop (concat (map (\<lambda>e. le_bytes 4 (length e) @ e) es) @ junk) (length es) = es"
    "js_unpack_loop (concat (map (\<lambda>e. le_bytes 4 (length e) @ e) es) @ junk) (length es) = Some es"
  using assms by (induction es) (auto simp: Let_def)

lemma frame_unpack_pack:
  assumes "length es < 2 ^ 32" "\<forall>e \<in> set es. length e < 2 ^ 32"
  shows "gateway_unpack_envelopes (pack_envelopes es) = es" "js_unpack_envelopes (pack_envelopes es) = Some es"
  using unpack_loops [OF assms(2), of "[]"] assms(1)
  by (simp_all add: gateway_unpack_envelopes_def js_unpack_envelopes_def pack_envelopes_def)

end
