(* ===== verification/Gateway_Sync.thy ===== *)
theory Gateway_Sync
  imports Gateway Frames Collections
begin

text \<open>
  Catching up after a disconnection, on the server: \<^verbatim>\<open>sync:request\<close> and
  \<^verbatim>\<open>sync:push\<close> of \<^verbatim>\<open>apps/gateway/lib/gateway/binary_socket.ex\<close> over
  \<^verbatim>\<open>apps/persistence/lib/persistence/sync.ex\<close> and \<^verbatim>\<open>messages.ex\<close>, for one channel
  of one tenant. The table of messages is as the queries see it: partitions by time bucket, in
  each the rows in the order of their keys; which queries and writes fail is an argument. The
  hexadecimal and base-64 text that values take between the two modules is left out. An
  exception is a panic of the handler, which the socket answers with an internal error.
\<close>

section \<open>The table of messages\<close>

record message_row =
  row_sender :: bytes
  row_content :: bytes
  row_content_type :: nat
  row_created_at :: u64

type_synonym messages_table = "(u32, (bytes, message_row) btreemap) hashmap"

text \<open>An insertion into the table is an update when the key is there.\<close>

definition messages_write :: "u32 \<Rightarrow> bytes \<Rightarrow> message_row \<Rightarrow> messages_table \<Rightarrow> messages_table" where
  "messages_write bucket mid row tbl = hm_upsert bucket [] (bt_insert mid row) tbl"

definition fetch_messages_after ::
  "(u32 \<Rightarrow> bool) \<Rightarrow> messages_table \<Rightarrow> u32 \<Rightarrow> u64 \<Rightarrow> nat \<Rightarrow> (bytes \<times> message_row) list" where
  "fetch_messages_after down tbl bucket since_ts limit =
     (if down bucket then []
      else filter (\<lambda>(mid, row). row_created_at row > since_ts) (take limit (rev (entry_or bucket [] tbl))))"

text \<open>An Elixir range whose end is below its start counts down.\<close>

definition bucket_range :: "u32 \<Rightarrow> u32 \<Rightarrow> u32 list" where
  "bucket_range a b =
     (if a \<le> b then map of_nat [unat a..<Suc (unat b)] else rev (map of_nat [unat b..<Suc (unat a)]))"

definition MAX_DELTAS :: nat where
  "MAX_DELTAS = 100"

definition get_deltas ::
  "(u32 \<Rightarrow> bool) \<Rightarrow> messages_table \<Rightarrow> u64 \<Rightarrow> u64 \<Rightarrow> nat \<Rightarrow> ((bytes \<times> message_row) list \<times> bool) exec" where
  "get_deltas down tbl now_ms since limit =
     (let limit = min limit MAX_DELTAS in
      exec_bind (nif_compute_time_bucket now_ms) (\<lambda>current_bucket.
      exec_bind (nif_compute_time_bucket since) (\<lambda>since_bucket.
        let deltas = take (limit + 1) (sort_key (\<lambda>(mid, row). row_created_at row)
          (concat (map (\<lambda>b. fetch_messages_after down tbl b since (limit + 1)) (bucket_range since_bucket current_bucket))))
        in Ret (take limit deltas, length deltas > limit))))"

section \<open>The handlers\<close>

text \<open>An error term of a NIF is raised where the caller does not expect it.\<close>

definition raising :: "'a nif_result exec \<Rightarrow> 'a exec" where
  "raising r = exec_bind r (\<lambda>x. case x of Err e \<Rightarrow> Panic (Expect_Failed ''argument error'') | Ok a \<Rightarrow> Ret a)"

fun exec_map :: "('a \<Rightarrow> 'b exec) \<Rightarrow> 'a list \<Rightarrow> 'b list exec" where
  "exec_map f [] = Ret []"
| "exec_map f (x # xs) = exec_bind (f x) (\<lambda>y. exec_bind (exec_map f xs) (\<lambda>ys. Ret (y # ys)))"

text \<open>
  The three readings of the clock: by \<^verbatim>\<open>get_deltas\<close> and by the handler in milliseconds, and
  by the clock NIF.
\<close>

record sync_clock =
  sc_query :: u64
  sc_local :: u64
  sc_nif :: int

definition gateway_sync_request ::
  "('b, 'm, 'r, 'l, 'e) capnp \<Rightarrow> overflow \<Rightarrow> (u32 \<Rightarrow> bool) \<Rightarrow> sync_clock \<Rightarrow> bytes \<Rightarrow> bytes \<Rightarrow> bytes \<Rightarrow> bytes \<Rightarrow>
   messages_table \<Rightarrow> bytes exec" where
  "gateway_sync_request capi m down clk tid uid cid payload tbl =
     (let request = (if length payload \<ge> 16 then take 16 payload else le_bytes 8 0 @ le_bytes 4 100 @ le_bytes 4 0);
          since_wall = of_nat (of_le (take 8 request)); limit = of_le (take 4 (drop 8 request));
          last_counter = of_nat (of_le (drop 12 request)); limit = min limit 100
      in exec_bind (get_deltas down tbl (sc_query clk) since_wall limit) (\<lambda>(deltas, has_more).
         exec_bind (raising (nif_hlc_merge m (sc_nif clk) (sc_local clk) 0 uid since_wall last_counter uid))
           (\<lambda>(merged_wall, merged_counter).
         exec_bind (exec_map (\<lambda>(mid, row). nif_envelope_encode capi tid cid (row_sender row) mid
             (row_created_at row) (row_content row)) deltas) (\<lambda>envelopes.
         Ret (le_bytes 8 (unat merged_wall) @ [if has_more then 1 else 0] @ pack_envelopes envelopes)))))"

text \<open>
  Applying pushed deltas, with the writes made before an exception. A write that fails is logged
  nowhere and counted as applied: its error is not \<^verbatim>\<open>false\<close>.
\<close>

type_synonym delta_map = "bytes \<times> bytes \<times> bytes \<times> u64"

fun apply_deltas ::
  "(bytes \<Rightarrow> bool) \<Rightarrow> delta_map list \<Rightarrow> messages_table \<Rightarrow> messages_table \<times> nat exec" where
  "apply_deltas lost [] tbl = (tbl, Ret 0)"
| "apply_deltas lost ((mid, sid, content, ts) # ds) tbl =
     (case nif_compute_time_bucket ts of
        Panic p \<Rightarrow> (tbl, Panic p)
      | Ret bucket \<Rightarrow>
          let tbl' = (if lost mid then tbl
            else messages_write bucket mid
              \<lparr>row_sender = sid, row_content = content, row_content_type = 0, row_created_at = ts\<rparr> tbl)
          in (case apply_deltas lost ds tbl' of
                (tbl'', r) \<Rightarrow> (tbl'', exec_bind r (\<lambda>n. Ret (Suc n)))))"

definition decode_deltas :: "('b, 'm, 'r, 'l, 'e) capnp \<Rightarrow> ('e \<Rightarrow> string) \<Rightarrow> bytes list \<Rightarrow> delta_map list" where
  "decode_deltas capi show_error envelopes =
     concat (map (\<lambda>env. case nif_envelope_decode capi show_error env of
        Err e \<Rightarrow> []
      | Ok (etid, ecid, sid, mid, ts, pl) \<Rightarrow> [(mid, sid, pl, ts)]) envelopes)"

definition gateway_sync_push ::
  "('b, 'm, 'r, 'l, 'e) capnp \<Rightarrow> ('e \<Rightarrow> string) \<Rightarrow> (bytes \<Rightarrow> bool) \<Rightarrow> sync_clock \<Rightarrow> bytes \<Rightarrow> bytes \<Rightarrow>
   messages_table \<Rightarrow> messages_table \<times> (gateway_error, bytes) result exec" where
  "gateway_sync_push capi show_error lost clk uid payload tbl =
     (let deltas = decode_deltas capi show_error (gateway_unpack_envelopes payload) in
      if length deltas > 1000 then (tbl, Ret (Err Gw_Batch_Too_Large))
      else (case apply_deltas lost deltas tbl of
              (tbl', r) \<Rightarrow>
                (tbl', exec_bind r (\<lambda>count.
                   exec_bind (raising (nif_hlc_tick (sc_nif clk) (sc_local clk) 0 uid)) (\<lambda>(wall, cnt).
                     Ret (Ok (le_bytes 4 count @ le_bytes 8 (unat wall))))))))"

lemmas [rust_defs] =
  messages_write_def fetch_messages_after_def get_deltas_def gateway_sync_request_def decode_deltas_def
  gateway_sync_push_def

section \<open>What a request finds\<close>

lemma get_deltas_Ret:
  "get_deltas down tbl now_ms since limit = Ret (page, rest) \<longleftrightarrow>
    unat now_ms div 864000000 < 2 ^ 32 \<and> unat since div 864000000 < 2 ^ 32 \<and>
    (let found = take (min limit 100 + 1) (sort_key (\<lambda>(mid, row). row_created_at row)
        (concat (map (\<lambda>b. fetch_messages_after down tbl b since (min limit 100 + 1))
          (bucket_range (of_nat (unat since div 864000000)) (of_nat (unat now_ms div 864000000))))))
     in page = take (min limit 100) found \<and> rest = (min limit 100 < length found))"
  by (auto simp: get_deltas_def nif_compute_time_bucket_def tb_from_timestamp_ms_eq MAX_DELTAS_def Let_def)

lemma mem_fetch:
  "(mid, row) \<in> set (fetch_messages_after down tbl b since limit) \<Longrightarrow>
    since < row_created_at row \<and> (mid, row) \<in> set (entry_or b [] tbl)"
  by (auto simp: fetch_messages_after_def dest: in_set_takeD split: if_splits)

lemma mem_entry_or: "x \<in> set (entry_or b [] tbl) \<longleftrightarrow> (\<exists>p. map_of tbl b = Some p \<and> x \<in> set p)"
  by (cases "map_of tbl b") (simp_all add: entry_or_def)

lemma get_deltas_page:
  assumes "get_deltas down tbl now_ms since limit = Ret (page, rest)"
  shows "length page \<le> limit" "length page \<le> 100"
    "(mid, row) \<in> set page \<Longrightarrow> since < row_created_at row \<and> (\<exists>b p. map_of tbl b = Some p \<and> (mid, row) \<in> set p)"
proof -
  show "length page \<le> limit" "length page \<le> 100"
    using assms by (auto simp: get_deltas_Ret Let_def)
  assume "(mid, row) \<in> set page"
  then obtain b where "(mid, row) \<in> set (fetch_messages_after down tbl b since (min limit 100 + 1))"
    using assms by (auto simp: get_deltas_Ret Let_def dest!: in_set_takeD)
  from mem_fetch [OF this] show "since < row_created_at row \<and> (\<exists>b p. map_of tbl b = Some p \<and> (mid, row) \<in> set p)"
    by (auto simp: mem_entry_or)
qed

text \<open>A well-formed table: keys are ordered and rows are in the partition of their time.\<close>

definition table_ok :: "messages_table \<Rightarrow> bool" where
  "table_ok tbl \<longleftrightarrow> hm_ok tbl \<and> (\<forall>b p. map_of tbl b = Some p \<longrightarrow>
     bt_ok p \<and> (\<forall>(mid, row) \<in> set p. unat (row_created_at row) div 864000000 = unat b))"

text \<open>The rows after \<open>since\<close> up to the end of the partition of \<open>now\<close>.\<close>

definition rows_between :: "messages_table \<Rightarrow> u64 \<Rightarrow> u64 \<Rightarrow> (bytes \<times> message_row) set" where
  "rows_between tbl since now_ms =
     {(mid, row). since < row_created_at row \<and> unat (row_created_at row) div 864000000 \<le> unat now_ms div 864000000 \<and>
        (\<exists>b p. map_of tbl b = Some p \<and> (mid, row) \<in> set p)}"

lemma set_bucket_range:
  assumes "unat a \<le> unat b"
  shows "set (bucket_range a b) = {w. a \<le> w \<and> w \<le> b}" "distinct (bucket_range a b)"
proof -
  have "unat b < 2 ^ LENGTH(32)" by (rule unsigned_less)
  then have small: "unat (of_nat n :: u32) = n" if "n < Suc (unat b)" for n
    using that by (simp add: unat_of_nat)
  have range: "bucket_range a b = map of_nat [unat a..<Suc (unat b)]"
    using assms by (simp add: bucket_range_def word_le_nat_alt del: upt_Suc)
  have "map unat (bucket_range a b) = [unat a..<Suc (unat b)]"
    unfolding range map_map by (rule map_idI) (use small in auto)
  then show "distinct (bucket_range a b)" by (metis distinct_map distinct_upt)
  show "set (bucket_range a b) = {w. a \<le> w \<and> w \<le> b}"
  proof (intro set_eqI iffI)
    fix w assume "w \<in> set (bucket_range a b)"
    then show "w \<in> {w. a \<le> w \<and> w \<le> b}"
      using assms small by (auto simp: bucket_range_def word_le_nat_alt)
  next
    fix w assume "w \<in> {w. a \<le> w \<and> w \<le> b}"
    then have "unat w \<in> set [unat a..<Suc (unat b)]" by (auto simp: word_le_nat_alt)
    then have "of_nat (unat w) \<in> (of_nat :: nat \<Rightarrow> u32) ` set [unat a..<Suc (unat b)]" by blast
    then show "w \<in> set (bucket_range a b)"
      using assms by (simp add: bucket_range_def word_le_nat_alt)
  qed
qed

lemma distinct_concat_map:
  assumes "distinct xs" "\<And>x. x \<in> set xs \<Longrightarrow> distinct (f x)"
    and "\<And>x y. x \<in> set xs \<Longrightarrow> y \<in> set xs \<Longrightarrow> x \<noteq> y \<Longrightarrow> set (f x) \<inter> set (f y) = {}"
  shows "distinct (concat (map f xs))"
  using assms
proof (induction xs)
  case (Cons x xs)
  have "set (f x) \<inter> set (f y) = {}" if "y \<in> set xs" for y
    using Cons.prems(1) that by (intro Cons.prems(3)) auto
  then show ?case using Cons by auto
qed simp

text \<open>When nothing is cut off, a request finds them all, the oldest first.\<close>

lemma get_deltas_complete:
  assumes tbl: "table_ok tbl" and since: "since \<le> now_ms" "unat now_ms div 864000000 < 2 ^ 32"
    and up: "\<And>b. \<not> down b" and small: "\<And>b p. map_of tbl b = Some p \<Longrightarrow> length p \<le> 101"
    and few: "card (rows_between tbl since now_ms) \<le> 100"
  obtains page where "get_deltas down tbl now_ms since 100 = Ret (page, False)"
    "set page = rows_between tbl since now_ms" "distinct page" "sorted (map (\<lambda>(mid, row). row_created_at row) page)"
proof -
  let ?a = "of_nat (unat since div 864000000) :: u32" and ?b = "of_nat (unat now_ms div 864000000) :: u32"
  let ?f = "\<lambda>b. fetch_messages_after down tbl b since 101"
  have le: "unat since div 864000000 \<le> unat now_ms div 864000000"
    using since(1) by (simp add: word_le_nat_alt div_le_mono)
  have ends: "unat ?a = unat since div 864000000" "unat ?b = unat now_ms div 864000000"
    using le since(2) by (simp_all add: unat_of_nat)
  have fetch: "?f b = filter (\<lambda>(mid, row). row_created_at row > since) (rev (entry_or b [] tbl))" for b
    using up small [of b] by (simp add: fetch_messages_after_def entry_or_def split: option.split)
  have bucket: "unat (row_created_at row) div 864000000 = unat b" if "(mid, row) \<in> set (?f b)" for mid row b
    using tbl mem_fetch [OF that] by (fastforce simp: table_ok_def mem_entry_or)
  have "distinct (?f b)" for b
  proof (cases "map_of tbl b")
    case (Some p)
    then have "distinct p" using tbl bt_ok_distinct [of p] by (auto simp: table_ok_def distinct_map)
    then show ?thesis unfolding fetch using Some by (simp add: entry_or_def)
  qed (simp add: fetch entry_or_def)
  moreover have "set (?f b) \<inter> set (?f c) = {}" if "b \<noteq> c" for b c
  proof -
    have "b = c" if "(mid, row) \<in> set (?f b)" "(mid, row) \<in> set (?f c)" for mid row
      using bucket [OF that(1)] bucket [OF that(2)] by (simp add: word_unat_eq_iff)
    then show ?thesis using that by auto
  qed
  moreover have range: "set (bucket_range ?a ?b) = {w. ?a \<le> w \<and> w \<le> ?b}" "distinct (bucket_range ?a ?b)"
    using set_bucket_range [of ?a ?b] le ends by simp_all
  ultimately have dist: "distinct (concat (map ?f (bucket_range ?a ?b)))"
    by (intro distinct_concat_map)
  have rows: "set (concat (map ?f (bucket_range ?a ?b))) = rows_between tbl since now_ms"
  proof (intro set_eqI iffI; clarify)
    fix mid row assume "(mid, row) \<in> set (concat (map ?f (bucket_range ?a ?b)))"
    then obtain b where b: "b \<le> ?b" "(mid, row) \<in> set (?f b)"
      unfolding set_concat set_map range(1) by blast
    then have "unat (row_created_at row) div 864000000 \<le> unat now_ms div 864000000"
      using bucket ends(2) by (simp add: word_le_nat_alt)
    then show "(mid, row) \<in> rows_between tbl since now_ms"
      using mem_fetch [OF b(2)] by (auto simp: rows_between_def mem_entry_or)
  next
    fix mid row assume row: "(mid, row) \<in> rows_between tbl since now_ms"
    then obtain b p where b: "map_of tbl b = Some p" "(mid, row) \<in> set p" "since < row_created_at row"
      "unat (row_created_at row) div 864000000 \<le> unat now_ms div 864000000"
      by (auto simp: rows_between_def)
    have mem: "(mid, row) \<in> set (?f b)" unfolding fetch using b by (simp add: entry_or_def)
    have "unat since div 864000000 \<le> unat (row_created_at row) div 864000000"
      using b(3) by (simp add: word_less_nat_alt div_le_mono)
    then have "?a \<le> b" "b \<le> ?b" using bucket [OF mem] b(4) ends by (simp_all add: word_le_nat_alt)
    then show "(mid, row) \<in> set (concat (map ?f (bucket_range ?a ?b)))"
      unfolding set_concat set_map range(1) using mem by blast
  qed
  let ?page = "sort_key (\<lambda>(mid, row). row_created_at row) (concat (map ?f (bucket_range ?a ?b)))"
  have len: "length ?page \<le> 100" using few distinct_card [OF dist] rows by simp
  then have "get_deltas down tbl now_ms since 100 = Ret (?page, False)"
    using since(2) le by (simp add: get_deltas_Ret Let_def)
  then show ?thesis using that [of ?page] rows dist by simp
qed

section \<open>What a request answers\<close>

text \<open>The frames' length fields have 32 bits: no envelope within the limit is longer.\<close>

definition frame_law :: "('b, 'm, 'r, 'l, 'e) capnp \<Rightarrow> nat \<Rightarrow> bool" where
  "frame_law capi limit \<longleftrightarrow> (\<forall>t c s mid ts p out.
     length t + length c + length s + length mid + length p \<le> limit \<and> envelope_encode capi t c s mid ts p = Ret out \<longrightarrow>
     length out < 2 ^ 32)"

definition rows_fit :: "nat \<Rightarrow> bytes \<Rightarrow> bytes \<Rightarrow> messages_table \<Rightarrow> bool" where
  "rows_fit limit tid cid tbl \<longleftrightarrow> (\<forall>b p mid row. map_of tbl b = Some p \<and> (mid, row) \<in> set p \<longrightarrow>
     length tid + length cid + length (row_sender row) + length mid + length (row_content row) \<le> limit)"

definition row_envelope :: "bytes \<Rightarrow> bytes \<Rightarrow> bytes \<times> message_row \<Rightarrow> decoded_envelope" where
  "row_envelope tid cid mr = \<lparr>de_tenant_id = tid, de_channel_id = cid, de_sender_id = row_sender (snd mr),
     de_message_id = fst mr, de_timestamp = row_created_at (snd mr), de_payload = row_content (snd mr)\<rparr>"

lemma encode_list:
  assumes capi: "capnp_laws capi content limit" "frame_law capi limit"
    and fits: "\<And>x. x \<in> set xs \<Longrightarrow> length tid + length cid + length (s x) + length (mid x) + length (p x) \<le> limit"
  shows "\<exists>envs. exec_map (\<lambda>x. envelope_encode capi tid cid (s x) (mid x) (ts x) (p x)) xs = Ret envs \<and>
    map (envelope_decode capi) envs = map (\<lambda>x. Ok \<lparr>de_tenant_id = tid, de_channel_id = cid, de_sender_id = s x,
      de_message_id = mid x, de_timestamp = ts x, de_payload = p x\<rparr>) xs \<and> (\<forall>e \<in> set envs. length e < 2 ^ 32)"
  using fits
proof (induction xs)
  case (Cons x xs)
  have "length tid + length cid + length (s x) + length (mid x) + length (p x) \<le> limit" using Cons.prems by simp
  from envelope_carries [OF capi(1) this] obtain env where
    env: "envelope_encode capi tid cid (s x) (mid x) (ts x) (p x) = Ret env"
    "envelope_decode capi env = Ok \<lparr>de_tenant_id = tid, de_channel_id = cid, de_sender_id = s x,
      de_message_id = mid x, de_timestamp = ts x, de_payload = p x\<rparr>" by blast
  have len: "length env < 2 ^ 32" using capi(2) Cons.prems [of x] env(1) unfolding frame_law_def by auto
  show ?case using Cons.IH [OF Cons.prems] env len by fastforce
qed simp

lemma encode_rows:
  assumes "capnp_laws capi content limit" "frame_law capi limit"
    and "\<And>mid row. (mid, row) \<in> set page \<Longrightarrow>
      length tid + length cid + length (row_sender row) + length mid + length (row_content row) \<le> limit"
  shows "\<exists>envs. exec_map (\<lambda>(mid, row). nif_envelope_encode capi tid cid (row_sender row) mid
      (row_created_at row) (row_content row)) page = Ret envs \<and>
    map (envelope_decode capi) envs = map (\<lambda>x. Ok (row_envelope tid cid x)) page \<and> (\<forall>e \<in> set envs. length e < 2 ^ 32)"
  using encode_list [OF assms(1,2), of page tid cid "\<lambda>x. row_sender (snd x)" fst "\<lambda>x. row_content (snd x)"
      "\<lambda>x. row_created_at (snd x)"] assms(3)
  by (simp add: nif_envelope_encode_def row_envelope_def split_def)

lemma sync_merge_wall:
  assumes "length uid = 16" "system_time_ms t = Ret now"
  shows "\<exists>c. raising (nif_hlc_merge m t local 0 uid since 0 uid) = Ret (max (max now local) since, c)"
  using assms
  by (cases m; simp add: raising_def nif_hlc_merge_def parse_uuid_16_def hlc_merge_def Let_def add_ovf_def checked_add_def)

lemma gateway_sync_request_answers:
  assumes capi: "capnp_laws capi content limit" "frame_law capi limit" and uid: "length uid = 16"
    and fit: "rows_fit limit tid cid tbl" and found: "get_deltas down tbl (sc_query clk) since 100 = Ret (page, rest)"
    and now: "system_time_ms (sc_nif clk) = Ret now"
  obtains envs where "gateway_sync_request capi m down clk tid uid cid
      (le_bytes 8 (unat since) @ le_bytes 4 100 @ le_bytes 4 0) tbl =
    Ret (le_bytes 8 (unat (max (max now (sc_local clk)) since)) @ [if rest then 1 else 0] @ pack_envelopes envs)"
    "map (envelope_decode capi) envs = map (\<lambda>x. Ok (row_envelope tid cid x)) page"
    "\<forall>e \<in> set envs. length e < 2 ^ 32" "length envs \<le> 100"
proof -
  have "length tid + length cid + length (row_sender row) + length mid + length (row_content row) \<le> limit"
    if "(mid, row) \<in> set page" for mid row
    using get_deltas_page(3) [OF found that] fit unfolding rows_fit_def by blast
  from encode_rows [OF capi this] obtain envs where envs:
    "exec_map (\<lambda>(mid, row). nif_envelope_encode capi tid cid (row_sender row) mid
      (row_created_at row) (row_content row)) page = Ret envs"
    "map (envelope_decode capi) envs = map (\<lambda>x. Ok (row_envelope tid cid x)) page" "\<forall>e \<in> set envs. length e < 2 ^ 32" by blast
  have "length envs \<le> 100" using arg_cong [OF envs(2), of length] get_deltas_page(2) [OF found] by simp
  moreover obtain c where merge: "raising (nif_hlc_merge m (sc_nif clk) (sc_local clk) 0 uid since 0 uid) =
      Ret (max (max now (sc_local clk)) since, c)"
    using sync_merge_wall [OF uid now, of m "sc_local clk" since] by blast
  have "gateway_sync_request capi m down clk tid uid cid (le_bytes 8 (unat since) @ le_bytes 4 100 @ le_bytes 4 0) tbl =
    Ret (le_bytes 8 (unat (max (max now (sc_local clk)) since)) @ [if rest then 1 else 0] @ pack_envelopes envs)"
    by (simp add: gateway_sync_request_def Let_def found merge envs(1))
  ultimately show ?thesis using that envs(2,3) by blast
qed

section \<open>What a push writes\<close>

definition delta_row :: "delta_map \<Rightarrow> message_row" where
  "delta_row d = (case d of (mid, sid, content, ts) \<Rightarrow>
     \<lparr>row_sender = sid, row_content = content, row_content_type = 0, row_created_at = ts\<rparr>)"

text \<open>Every delta is counted, those whose write failed too.\<close>

lemma apply_deltas_all:
  assumes "\<forall>d \<in> set ds. unat (row_created_at (delta_row d)) div 864000000 < 2 ^ 32"
  shows "apply_deltas lost ds tbl =
    (fold (\<lambda>d. messages_write (of_nat (unat (row_created_at (delta_row d)) div 864000000)) (fst d) (delta_row d))
       (filter (\<lambda>d. \<not> lost (fst d)) ds) tbl, Ret (length ds))"
  using assms
proof (induction ds arbitrary: tbl)
  case (Cons d ds)
  obtain mid sid content ts where d: "d = (mid, sid, content, ts)" by (cases d) auto
  have bucket: "unat ts div 864000000 < 2 ^ 32" using Cons.prems d by (simp add: delta_row_def)
  have "\<forall>d \<in> set ds. unat (row_created_at (delta_row d)) div 864000000 < 2 ^ 32" using Cons.prems by simp
  with Cons.IH bucket show ?case
    by (simp add: d nif_compute_time_bucket_def tb_from_timestamp_ms_eq delta_row_def)
qed simp

lemma decode_decoded:
  assumes "map (envelope_decode capi) envs = map (\<lambda>x. Ok (f x)) xs"
  shows "decode_deltas capi show_error envs =
    map (\<lambda>x. (de_message_id (f x), de_sender_id (f x), de_payload (f x), de_timestamp (f x))) xs"
  using assms
proof (induction xs arbitrary: envs)
  case (Cons x xs)
  then show ?case by (cases envs) (auto simp: decode_deltas_def nif_envelope_decode_def)
qed (simp add: decode_deltas_def)

lemma sync_tick:
  assumes "length uid = 16" "system_time_ms t = Ret now"
  shows "\<exists>w c. raising (nif_hlc_tick t local 0 uid) = Ret (w, c)"
  using assms
  by (simp add: raising_def nif_hlc_tick_def parse_uuid_16_def hlc_tick_def Let_def checked_add_def
      split: if_splits)

end
