(* ===== verification/Js_Sync.thy ===== *)
theory Js_Sync
  imports Gateway_Sync "HOL-Library.Product_Lexorder"
begin

text \<open>
  Catching up after a disconnection, in the browser:
  \<^verbatim>\<open>sdks/mercury-sdk-js/src/sync.ts\<close>, \<^verbatim>\<open>offline-queue.ts\<close>, the parts of
  \<^verbatim>\<open>store.ts\<close> they use, and \<^verbatim>\<open>sync\<close>, \<^verbatim>\<open>pushDeltas\<close> and the offline
  branch of \<^verbatim>\<open>send\<close> in \<^verbatim>\<open>channel.ts\<close>. The IndexedDB object stores are maps and
  a queue; their ids, kept as hexadecimal text, are the bytes. Wall clocks are taken to be below
  \<^verbatim>\<open>2^53\<close> ms, where a JavaScript number holds them exactly. A rejected promise is an
  error, with the changes made before it.
\<close>

section \<open>The local store\<close>

record stored_message =
  sm_sender :: bytes
  sm_content :: bytes
  sm_content_type :: nat
  sm_timestamp :: u64

text \<open>
  A queued message: what \<^verbatim>\<open>send\<close> puts in, the plain text, and the encrypted content that
  \<^verbatim>\<open>pushDeltas\<close> looks for.
\<close>

record queued_payload =
  qp_message_id :: bytes
  qp_content :: bytes
  qp_encrypted_content :: "bytes option"
  qp_hlc_wall :: u64

record queued_message =
  qm_id :: nat
  qm_channel :: bytes
  qm_payload :: queued_payload

record local_store =
  db_messages :: "(bytes \<times> bytes, stored_message) hashmap"
  db_sync_state :: "(bytes, u64) hashmap"
  db_queue :: "queued_message list"
  db_next_id :: nat

definition MAX_MESSAGES_PER_CHANNEL :: nat where
  "MAX_MESSAGES_PER_CHANNEL = 10000"

definition MAX_QUEUE_SIZE :: nat where
  "MAX_QUEUE_SIZE = 10000"

definition DRAIN_BATCH_SIZE :: nat where
  "DRAIN_BATCH_SIZE = 100"

definition write_message :: "bytes \<Rightarrow> bytes \<Rightarrow> stored_message \<Rightarrow> local_store \<Rightarrow> local_store" where
  "write_message channel mid msg self = self\<lparr>db_messages := hm_insert (channel, mid) msg (db_messages self)\<rparr>"

text \<open>The oldest messages of a channel go first, those of one time in the order of their keys.\<close>

definition evict_old_messages :: "bytes \<Rightarrow> local_store \<Rightarrow> local_store" where
  "evict_old_messages channel self =
     (let mine = filter (\<lambda>((c, mid), msg). c = channel) (db_messages self);
          oldest = take (length mine - MAX_MESSAGES_PER_CHANNEL)
            (sort_key (\<lambda>((c, mid), msg). (sm_timestamp msg, mid)) mine)
      in self\<lparr>db_messages := fold (\<lambda>(key, msg). hm_remove key) oldest (db_messages self)\<rparr>)"

definition clear_queue :: "nat \<Rightarrow> local_store \<Rightarrow> local_store" where
  "clear_queue up_to_id self = self\<lparr>db_queue := filter (\<lambda>q. qm_id q > up_to_id) (db_queue self)\<rparr>"

section \<open>The offline queue\<close>

definition queue_enqueue :: "bytes \<Rightarrow> queued_payload \<Rightarrow> local_store \<Rightarrow> local_store" where
  "queue_enqueue channel payload self =
     (let self = (if length (db_queue self) \<ge> MAX_QUEUE_SIZE
        then (case db_queue self of [] \<Rightarrow> self | oldest # _ \<Rightarrow> clear_queue (qm_id oldest) self) else self)
      in self\<lparr>db_queue := db_queue self @ [\<lparr>qm_id = db_next_id self, qm_channel = channel, qm_payload = payload\<rparr>],
              db_next_id := Suc (db_next_id self)\<rparr>)"

definition queue_drain :: "local_store \<Rightarrow> queued_message list" where
  "queue_drain self = take DRAIN_BATCH_SIZE (db_queue self)"

text \<open>\<^verbatim>\<open>send\<close> while disconnected; the random id and the time are arguments.\<close>

definition channel_send_offline :: "bytes \<Rightarrow> bytes \<Rightarrow> u64 \<Rightarrow> bytes \<Rightarrow> local_store \<Rightarrow> local_store" where
  "channel_send_offline channel mid now content self =
     queue_enqueue channel \<lparr>qp_message_id = mid, qp_content = content, qp_encrypted_content = None, qp_hlc_wall = now\<rparr> self"

section \<open>Pulling\<close>

definition channel_sync_reply ::
  "('b, 'm, 'r, 'l, 'e) capnp \<Rightarrow> ('e \<Rightarrow> string) \<Rightarrow> bytes \<Rightarrow> (string, decoded_envelope list \<times> u64 \<times> bool) result" where
  "channel_sync_reply capi show_error reply =
     (if length reply < 8 then Err ''RangeError''
      else result_bind (ok_or ''RangeError'' (js_unpack_envelopes (drop 9 reply))) (\<lambda>envelopes.
        result_bind (collect_results (map (\<lambda>env. map_err show_error (envelope_decode capi env)) envelopes)) (\<lambda>deltas.
          Ok (deltas, of_nat (of_le (take 8 reply)), length reply > 8 \<and> reply ! 8 = 1))))"

text \<open>What the server is at when a request arrives.\<close>

record sync_moment =
  mo_clock :: sync_clock
  mo_down :: "u32 \<Rightarrow> bool"
  mo_table :: messages_table

definition channel_sync ::
  "('b, 'm, 'r, 'l, 'e) capnp \<Rightarrow> ('e \<Rightarrow> string) \<Rightarrow> overflow \<Rightarrow> bytes \<Rightarrow> bytes \<Rightarrow> bytes \<Rightarrow> sync_moment \<Rightarrow> u64 \<Rightarrow>
   (string, decoded_envelope list \<times> u64 \<times> bool) result" where
  "channel_sync capi show_error m tid uid cid mo last_wall =
     (case gateway_sync_request capi m (mo_down mo) (mo_clock mo) tid uid cid
         (le_bytes 8 (unat last_wall) @ le_bytes 4 100 @ le_bytes 4 0) (mo_table mo) of
        Panic p \<Rightarrow> Err ''internal_error''
      | Ret reply \<Rightarrow> channel_sync_reply capi show_error reply)"

definition store_delta :: "bytes \<Rightarrow> decoded_envelope \<Rightarrow> local_store \<Rightarrow> local_store" where
  "store_delta channel d = write_message channel (de_message_id d)
     \<lparr>sm_sender = de_sender_id d, sm_content = de_payload d, sm_content_type = 0, sm_timestamp = de_timestamp d\<rparr>"

text \<open>
  The loop of \<^verbatim>\<open>syncChannel\<close>, one turn for each moment of the server; \<open>None\<close> when
  the moments given are not enough for it to end.
\<close>

fun sync_pull ::
  "('b, 'm, 'r, 'l, 'e) capnp \<Rightarrow> ('e \<Rightarrow> string) \<Rightarrow> overflow \<Rightarrow> bytes \<Rightarrow> bytes \<Rightarrow> bytes \<Rightarrow> sync_moment list \<Rightarrow> u64 \<Rightarrow>
   nat \<Rightarrow> local_store \<Rightarrow> (local_store \<times> (string, nat \<times> u64) result) option" where
  "sync_pull capi show_error m tid uid cid [] wall received self = None"
| "sync_pull capi show_error m tid uid cid (mo # mos) wall received self =
     (case channel_sync capi show_error m tid uid cid mo wall of
        Err e \<Rightarrow> Some (self, Err e)
      | Ok (deltas, server_hlc, has_more) \<Rightarrow>
          let self' = fold (store_delta cid) deltas self; received' = received + length deltas
          in if has_more then sync_pull capi show_error m tid uid cid mos server_hlc received' self'
             else Some (self', Ok (received', server_hlc)))"

section \<open>Pushing\<close>

definition push_deltas ::
  "('b, 'm, 'r, 'l, 'e) capnp \<Rightarrow> ('e \<Rightarrow> string) \<Rightarrow> (bytes \<Rightarrow> bool) \<Rightarrow> sync_clock \<Rightarrow> bytes \<Rightarrow> bytes \<Rightarrow> bytes \<Rightarrow>
   queued_payload list \<Rightarrow> messages_table \<Rightarrow> messages_table \<times> (string, nat) result" where
  "push_deltas capi show_error lost clk tid uid cid deltas tbl =
     (case exec_map (\<lambda>d. envelope_encode capi tid cid uid (qp_message_id d) (qp_hlc_wall d)
         (case qp_encrypted_content d of None \<Rightarrow> [] | Some content \<Rightarrow> content)) deltas of
        Panic p \<Rightarrow> (tbl, Err ''encode'')
      | Ret envelopes \<Rightarrow>
          (case gateway_sync_push capi show_error lost clk uid (pack_envelopes envelopes) tbl of
             (tbl', Panic p) \<Rightarrow> (tbl', Err ''internal_error'')
           | (tbl', Ret (Err e)) \<Rightarrow> (tbl', Err ''batch_too_large'')
           | (tbl', Ret (Ok reply)) \<Rightarrow> (tbl', Ok (of_le (take 4 reply)))))"

text \<open>The second half of \<^verbatim>\<open>syncChannel\<close>.\<close>

definition sync_push ::
  "('b, 'm, 'r, 'l, 'e) capnp \<Rightarrow> ('e \<Rightarrow> string) \<Rightarrow> (bytes \<Rightarrow> bool) \<Rightarrow> sync_clock \<Rightarrow> bytes \<Rightarrow> bytes \<Rightarrow> bytes \<Rightarrow>
   messages_table \<Rightarrow> local_store \<Rightarrow> messages_table \<times> local_store \<times> (string, nat) result" where
  "sync_push capi show_error lost clk tid uid cid tbl self =
     (let channel_deltas = filter (\<lambda>q. qm_channel q = cid) (queue_drain self) in
      if channel_deltas = [] then (tbl, evict_old_messages cid self, Ok 0)
      else (case push_deltas capi show_error lost clk tid uid cid (map qm_payload channel_deltas) tbl of
              (tbl', Err e) \<Rightarrow> (tbl', self, Err e)
            | (tbl', Ok accepted) \<Rightarrow>
                (tbl', evict_old_messages cid (clear_queue (qm_id (last channel_deltas)) self), Ok accepted)))"

text \<open>
  \<^verbatim>\<open>syncChannel\<close>: the moments of the pull, then that of the push. The table after it, the
  store, and how many messages were received and pushed.
\<close>

definition sync_channel ::
  "('b, 'm, 'r, 'l, 'e) capnp \<Rightarrow> ('e \<Rightarrow> string) \<Rightarrow> overflow \<Rightarrow> bytes \<Rightarrow> bytes \<Rightarrow> bytes \<Rightarrow> sync_moment list \<Rightarrow>
   (bytes \<Rightarrow> bool) \<Rightarrow> sync_moment \<Rightarrow> local_store \<Rightarrow>
   (messages_table \<times> local_store \<times> (string, nat \<times> nat) result) option" where
  "sync_channel capi show_error m tid uid cid mos lost mo self =
     (let last_wall = entry_or cid 0 (db_sync_state self) in
      case sync_pull capi show_error m tid uid cid mos last_wall 0 self of
        None \<Rightarrow> None
      | Some (self1, Err e) \<Rightarrow> Some (mo_table mo, self1, Err e)
      | Some (self1, Ok (received, wall)) \<Rightarrow>
          let self2 = (if wall > last_wall
            then self1\<lparr>db_sync_state := hm_insert cid wall (db_sync_state self1)\<rparr> else self1)
          in (case sync_push capi show_error lost (mo_clock mo) tid uid cid (mo_table mo) self2 of
                (tbl, self3, r) \<Rightarrow> Some (tbl, self3, result_map (\<lambda>pushed. (received, pushed)) r)))"

section \<open>A turn of the pull\<close>

lemma collect_decoded:
  assumes "map (envelope_decode capi) envs = map (\<lambda>x. Ok (f x)) xs"
  shows "collect_results (map (\<lambda>env. map_err show_error (envelope_decode capi env)) envs) = Ok (map f xs)"
proof -
  have "map (\<lambda>env. map_err show_error (envelope_decode capi env)) envs = map (map_err show_error) (map (\<lambda>x. Ok (f x)) xs)"
    unfolding assms [symmetric] by simp
  also have "\<dots> = map Ok (map f xs)" by simp
  finally show ?thesis by (simp del: map_map)
qed

lemma channel_sync_answers:
  assumes capi: "capnp_laws capi content limit" "frame_law capi limit" and uid: "length uid = 16"
    and fit: "rows_fit limit tid cid (mo_table mo)"
    and found: "get_deltas (mo_down mo) (mo_table mo) (sc_query (mo_clock mo)) since 100 = Ret (page, rest)"
    and now: "system_time_ms (sc_nif (mo_clock mo)) = Ret now"
  shows "channel_sync capi show_error m tid uid cid mo since =
    Ok (map (row_envelope tid cid) page, max (max now (sc_local (mo_clock mo))) since, rest)"
proof -
  obtain envs where envs: "gateway_sync_request capi m (mo_down mo) (mo_clock mo) tid uid cid
      (le_bytes 8 (unat since) @ le_bytes 4 100 @ le_bytes 4 0) (mo_table mo) =
    Ret (le_bytes 8 (unat (max (max now (sc_local (mo_clock mo))) since)) @ [if rest then 1 else 0] @ pack_envelopes envs)"
    "map (envelope_decode capi) envs = map (\<lambda>x. Ok (row_envelope tid cid x)) page"
    "\<forall>e \<in> set envs. length e < 2 ^ 32" "length envs \<le> 100"
    using gateway_sync_request_answers [OF capi uid fit found now] .
  have "js_unpack_envelopes (pack_envelopes envs) = Some envs" using envs(3,4) by (intro frame_unpack_pack) auto
  then show ?thesis
    by (simp add: channel_sync_def envs(1) channel_sync_reply_def collect_decoded [OF envs(2)] nth_append)
qed

lemma channel_sync_Ok:
  assumes capi: "capnp_laws capi content limit" "frame_law capi limit" and uid: "length uid = 16"
    and fit: "rows_fit limit tid cid (mo_table mo)"
    and ok: "channel_sync capi show_error m tid uid cid mo since = Ok (deltas, wall, rest)"
  obtains page now where "get_deltas (mo_down mo) (mo_table mo) (sc_query (mo_clock mo)) since 100 = Ret (page, rest)"
    "system_time_ms (sc_nif (mo_clock mo)) = Ret now" "deltas = map (row_envelope tid cid) page"
    "wall = max (max now (sc_local (mo_clock mo))) since"
proof -
  obtain page rest' where found: "get_deltas (mo_down mo) (mo_table mo) (sc_query (mo_clock mo)) since 100 = Ret (page, rest')"
    using ok by (cases "get_deltas (mo_down mo) (mo_table mo) (sc_query (mo_clock mo)) since 100")
      (auto simp: channel_sync_def gateway_sync_request_def Let_def)
  obtain now where now: "system_time_ms (sc_nif (mo_clock mo)) = Ret now"
    using ok uid by (cases "system_time_ms (sc_nif (mo_clock mo))")
      (auto simp: channel_sync_def gateway_sync_request_def Let_def found raising_def nif_hlc_merge_def
        parse_uuid_16_def hlc_merge_def)
  show ?thesis
    using that [OF _ now] found ok channel_sync_answers [OF capi uid fit found now, of show_error m] by simp
qed

section \<open>What a pull stores\<close>

definition stored_row :: "message_row \<Rightarrow> stored_message" where
  "stored_row row = \<lparr>sm_sender = row_sender row, sm_content = row_content row, sm_content_type = 0,
     sm_timestamp = row_created_at row\<rparr>"

lemma map_of_store_delta:
  "map_of (db_messages (store_delta cid (row_envelope tid cid x) self)) =
    (map_of (db_messages self))((cid, fst x) \<mapsto> stored_row (snd x))"
  by (simp add: store_delta_def write_message_def row_envelope_def stored_row_def)

lemma map_of_store_page:
  assumes "distinct (map fst page)"
  shows "map_of (db_messages (fold (store_delta cid) (map (row_envelope tid cid) page) self)) (c, mid) =
    (case if c = cid then map_of page mid else None of
       Some row \<Rightarrow> Some (stored_row row) | None \<Rightarrow> map_of (db_messages self) (c, mid))"
  using assms
proof (induction page arbitrary: self)
  case (Cons x page)
  have "map_of page (fst x) = None" using Cons.prems by (simp add: map_of_eq_None_iff)
  with Cons show ?case by (cases x) (auto simp: map_of_store_delta split: option.splits)
qed simp

lemma store_page_new:
  assumes "map_of (db_messages (fold (store_delta cid) (map (row_envelope tid cid) page) self)) (cid, mid) = Some msg"
    and "map_of (db_messages self) (cid, mid) \<noteq> Some msg"
  shows "\<exists>row. (mid, row) \<in> set page \<and> msg = stored_row row"
  using assms
proof (induction page arbitrary: self)
  case (Cons x page)
  show ?case
  proof (cases "map_of (db_messages (store_delta cid (row_envelope tid cid x) self)) (cid, mid) = Some msg")
    case True
    with Cons.prems(2) show ?thesis by (cases x) (auto simp: map_of_store_delta split: if_splits)
  qed (use Cons.IH [of "store_delta cid (row_envelope tid cid x) self"] Cons.prems(1) in auto)
qed simp

lemma sync_pull_new:
  assumes capi: "capnp_laws capi content limit" "frame_law capi limit" and uid: "length uid = 16"
    and "\<forall>mo \<in> set mos. rows_fit limit tid cid (mo_table mo)"
    and "sync_pull capi show_error m tid uid cid mos since n self = Some (self', Ok (received, wall))"
  shows "since \<le> wall \<and> (\<forall>mid msg. map_of (db_messages self') (cid, mid) = Some msg \<and>
    map_of (db_messages self) (cid, mid) \<noteq> Some msg \<longrightarrow> since < sm_timestamp msg)"
  using assms(4-)
proof (induction mos arbitrary: since n self)
  case (Cons mo mos)
  obtain deltas w rest where ok: "channel_sync capi show_error m tid uid cid mo since = Ok (deltas, w, rest)"
    using Cons.prems(2) by (cases "channel_sync capi show_error m tid uid cid mo since") auto
  have "rows_fit limit tid cid (mo_table mo)" using Cons.prems(1) by simp
  from channel_sync_Ok [OF capi uid this ok] obtain page now where
    page: "get_deltas (mo_down mo) (mo_table mo) (sc_query (mo_clock mo)) since 100 = Ret (page, rest)"
    "deltas = map (row_envelope tid cid) page" "w = max (max now (sc_local (mo_clock mo))) since" by metis
  let ?self = "fold (store_delta cid) deltas self"
  have new: "since < sm_timestamp msg"
    if "map_of (db_messages ?self) (cid, mid) = Some msg" "map_of (db_messages self) (cid, mid) \<noteq> Some msg" for mid msg
    using store_page_new [OF that [unfolded page(2)]] get_deltas_page(3) [OF page(1)] by (auto simp: stored_row_def)
  show ?case
  proof (cases rest)
    case True
    then have "sync_pull capi show_error m tid uid cid mos w (n + length deltas) ?self = Some (self', Ok (received, wall))"
      using Cons.prems(2) ok by (simp add: Let_def)
    from Cons.IH [OF _ this] Cons.prems(1)
    have "w \<le> wall" "\<forall>mid msg. map_of (db_messages self') (cid, mid) = Some msg \<and>
        map_of (db_messages ?self) (cid, mid) \<noteq> Some msg \<longrightarrow> w < sm_timestamp msg" by auto
    moreover have "since \<le> w" by (simp add: page(3))
    ultimately show ?thesis using new by (meson le_less_trans order_trans)
  next
    case False
    then have "self' = ?self" "wall = w" using Cons.prems(2) ok by (auto simp: Let_def)
    then show ?thesis using new by (auto simp: page(3))
  qed
qed simp

section \<open>A sample backlog\<close>

lemma length_put_chunks: "length (put_chunks cs) = (\<Sum>c\<leftarrow>cs. 2 * length c + 1)"
  by (induction cs) simp_all

lemma chunk_frame_law: "frame_law chunk_capnp 67108864"
  unfolding frame_law_def
proof (intro allI impI, elim conjE)
  fix t c s mid p out :: bytes and ts :: u64
  assume fits: "length t + length c + length s + length mid + length p \<le> 67108864"
    and out: "envelope_encode chunk_capnp t c s mid ts p = Ret out"
  have "out = put_chunks ([0] # u64_bytes ts # [t, c, s, mid, p, [], [], [], []])"
    using out by (auto simp: envelope_encode_def cp_finish_def chunk_capnp_def all_fields_def empty_content_def Let_def
        simp del: put_chunks.simps)
  then show "length out < 2 ^ 32" using fits by (simp add: length_put_chunks u64_bytes_def del: put_chunks.simps)
qed

text \<open>A backlog of \<open>k\<close> messages of one time, and the server at one later moment.\<close>

definition backlog_row :: message_row where
  "backlog_row = \<lparr>row_sender = replicate 16 7, row_content = [1, 2, 3], row_content_type = 0, row_created_at = 1704067100000\<rparr>"

definition backlog_moment :: "nat \<Rightarrow> sync_moment" where
  "backlog_moment k = \<lparr>mo_clock = \<lparr>sc_query = 1704067200000, sc_local = 1704067200000, sc_nif = 1704067200000000000\<rparr>,
     mo_down = (\<lambda>_. False), mo_table = [(1972, map (\<lambda>i. ([of_nat i], backlog_row)) [0..<k])]\<rparr>"

definition empty_store :: local_store where
  "empty_store = \<lparr>db_messages = [], db_sync_state = [], db_queue = [], db_next_id = 0\<rparr>"

lemma backlog_clock:
  "system_time_ms (sc_nif (mo_clock (backlog_moment k))) = Ret 1704067200000"
  "sc_local (mo_clock (backlog_moment k)) = 1704067200000" "sc_query (mo_clock (backlog_moment k)) = 1704067200000"
  "\<not> mo_down (backlog_moment k) b"
  by (simp_all add: backlog_moment_def system_time_ms_Ret)

lemma backlog_fits: "rows_fit 67108864 (replicate 16 9) (replicate 16 8) (mo_table (backlog_moment k))"
  by (auto simp: rows_fit_def backlog_moment_def backlog_row_def split: if_splits)

lemma backlog_between:
  assumes "since < 1704067100000"
  shows "rows_between (mo_table (backlog_moment k)) since 1704067200000 = (\<lambda>i. ([of_nat i], backlog_row)) ` {..<k}"
  using assms by (auto simp: rows_between_def backlog_moment_def backlog_row_def atLeast0LessThan)

lemma bucket_range_self: "bucket_range b b = [b]"
  by (simp add: bucket_range_def)

lemma backlog_page:
  assumes "k \<le> 101"
  shows "get_deltas (mo_down (backlog_moment k)) (mo_table (backlog_moment k)) 1704067200000 1704067000000 100 =
      Ret (take 100 (rev (map (\<lambda>i. ([of_nat i], backlog_row)) [0..<k])), k = 101)"
    and "get_deltas (mo_down (backlog_moment k)) (mo_table (backlog_moment k)) 1704067200000 1704067200000 100 =
      Ret ([], False)"
proof -
  let ?rows = "rev (map (\<lambda>i. ([of_nat i], backlog_row)) [0..<k]) :: (bytes \<times> message_row) list"
  have table: "fetch_messages_after (mo_down (backlog_moment k)) (mo_table (backlog_moment k)) 1972 since 101 =
      filter (\<lambda>(mid, row). row_created_at row > since) ?rows" for since
    using assms by (simp add: fetch_messages_after_def backlog_moment_def entry_or_def)
  have all: "filter (\<lambda>(mid, row). row_created_at row > 1704067000000) ?rows = ?rows"
    "filter (\<lambda>(mid, row). row_created_at row > 1704067200000) ?rows = []"
    by (auto simp: filter_id_conv filter_empty_conv backlog_row_def)
  have "sorted (map (\<lambda>(mid, row). row_created_at row) ?rows)"
    by (simp add: rev_map comp_def map_replicate_const)
  then have sort: "sort_key (\<lambda>(mid, row). row_created_at row) ?rows = ?rows" by (rule sort_key_id_if_sorted)
  show "get_deltas (mo_down (backlog_moment k)) (mo_table (backlog_moment k)) 1704067200000 1704067000000 100 =
      Ret (take 100 ?rows, k = 101)"
    using assms sort by (auto simp: get_deltas_Ret bucket_range_self table all Let_def simp del: rev_map)
  show "get_deltas (mo_down (backlog_moment k)) (mo_table (backlog_moment k)) 1704067200000 1704067200000 100 = Ret ([], False)"
    by (simp add: get_deltas_Ret bucket_range_self table all Let_def)
qed

lemma backlog_pull:
  "sync_pull chunk_capnp (\<lambda>e. e) Checked (replicate 16 9) (replicate 16 7) (replicate 16 8)
     [backlog_moment 101, backlog_moment 101] 1704067000000 0 empty_store =
   Some (fold (store_delta (replicate 16 8)) (map (row_envelope (replicate 16 9) (replicate 16 8))
     (take 100 (rev (map (\<lambda>i. ([of_nat i], backlog_row)) [0..<101])))) empty_store, Ok (100, 1704067200000))"
proof -
  have turn: "channel_sync chunk_capnp (\<lambda>e. e) Checked (replicate 16 9) (replicate 16 7) (replicate 16 8)
      (backlog_moment 101) since = Ok (map (row_envelope (replicate 16 9) (replicate 16 8)) page, max 1704067200000 since, rest)"
    if "get_deltas (mo_down (backlog_moment 101)) (mo_table (backlog_moment 101)) 1704067200000 since 100 = Ret (page, rest)"
    for since page rest
    using channel_sync_answers [OF chunk_capnp_laws chunk_frame_law, of "replicate 16 7" "replicate 16 9" "replicate 16 8"
        "backlog_moment 101" since page rest 1704067200000 "\<lambda>e. e" Checked] that
    by (simp add: backlog_clock backlog_fits)
  show ?thesis
    using turn [OF backlog_page(2) [OF order_refl]]
    by (simp add: turn [OF backlog_page(1) [OF order_refl]] Let_def del: rev_map)
qed

lemma backlog_first_lost: "[0 :: u8] \<notin> fst ` set (take 100 (rev (map (\<lambda>i. ([of_nat i], r)) [0..<101])))"
proof -
  have "[0..<101] = 0 # [1..<101 :: nat]" by (simp add: upt_conv_Cons)
  then have "take 100 (rev (map (\<lambda>i. ([of_nat i :: u8], r)) [0..<101])) = rev (map (\<lambda>i. ([of_nat i], r)) [1..<101])"
    by simp
  moreover have "of_nat i \<noteq> (0 :: u8)" if "i \<in> {1..<101}" for i
    using that by (auto simp: word_unat_eq_iff unat_of_nat)
  ultimately show ?thesis by fastforce
qed

section \<open>Catching up\<close>

text \<open>
  C11. Catching up works when a page is enough: with every partition there and within the limit of
  its query, a client whose last sync was at \<open>since\<close> receives each of the messages after
  it, at most a hundred, stores them under their ids, leaves the rest of its store alone, and
  takes the server's clock as its next starting point.
\<close>

theorem sync_fetches_backlog:
  assumes "capnp_laws capi content limit" "frame_law capi limit" "length uid = 16"
    and "table_ok (mo_table mo)" "rows_fit limit tid cid (mo_table mo)"
    and "since \<le> sc_query (mo_clock mo)" "unat (sc_query (mo_clock mo)) div 864000000 < 2 ^ 32"
    and "\<And>b. \<not> mo_down mo b" "\<And>b p. map_of (mo_table mo) b = Some p \<Longrightarrow> length p \<le> 101"
    and "card (rows_between (mo_table mo) since (sc_query (mo_clock mo))) \<le> 100"
    and "inj_on fst (rows_between (mo_table mo) since (sc_query (mo_clock mo)))"
    and "system_time_ms (sc_nif (mo_clock mo)) = Ret now"
  shows "\<exists>self'. sync_pull capi show_error m tid uid cid (mo # mos) since n self =
      Some (self', Ok (n + card (rows_between (mo_table mo) since (sc_query (mo_clock mo))),
        max (max now (sc_local (mo_clock mo))) since)) \<and>
    (\<forall>mid row. (mid, row) \<in> rows_between (mo_table mo) since (sc_query (mo_clock mo)) \<longrightarrow>
       map_of (db_messages self') (cid, mid) = Some (stored_row row)) \<and>
    (\<forall>c mid. c \<noteq> cid \<or> mid \<notin> fst ` rows_between (mo_table mo) since (sc_query (mo_clock mo)) \<longrightarrow>
       map_of (db_messages self') (c, mid) = map_of (db_messages self) (c, mid))"
proof -
  obtain page where page: "get_deltas (mo_down mo) (mo_table mo) (sc_query (mo_clock mo)) since 100 = Ret (page, False)"
    "set page = rows_between (mo_table mo) since (sc_query (mo_clock mo))" "distinct page"
    "sorted (map (\<lambda>(mid, row). row_created_at row) page)"
    using get_deltas_complete [OF assms(4,6-10)] .
  have ids: "distinct (map fst page)" using page(2,3) assms(11) by (simp add: distinct_map)
  let ?self = "fold (store_delta cid) (map (row_envelope tid cid) page) self"
  have "sync_pull capi show_error m tid uid cid (mo # mos) since n self =
      Some (?self, Ok (n + length page, max (max now (sc_local (mo_clock mo))) since))"
    by (simp add: channel_sync_answers [OF assms(1-3,5) page(1) assms(12)] Let_def)
  moreover have "map_of page mid = Some row" if "(mid, row) \<in> set page" for mid row using ids that by simp
  moreover have "map_of page mid = None" if "mid \<notin> fst ` set page" for mid using that by (simp add: map_of_eq_None_iff)
  ultimately show ?thesis
    unfolding page(2) [symmetric] distinct_card [OF page(3)]
    by (intro exI [of _ ?self]) (auto simp: map_of_store_page [OF ids])
qed

theorem sync_fetches_backlog_witness:
  "\<exists>self'. sync_pull chunk_capnp (\<lambda>e. e) Checked (replicate 16 9) (replicate 16 7) (replicate 16 8)
     [backlog_moment 2] 1704067000000 0 empty_store = Some (self', Ok (2, 1704067200000)) \<and>
   map_of (db_messages self') (replicate 16 8, [1]) = Some (stored_row backlog_row)"
proof -
  have two: "[0..<2] = [0, 1 :: nat]" by (simp add: upt_rec numeral_2_eq_2)
  have table: "table_ok (mo_table (backlog_moment 2))"
    by (simp add: table_ok_def backlog_moment_def backlog_row_def hm_ok_def bt_ok_def two del: upt_Suc)
  have small: "length p \<le> 101" if "map_of (mo_table (backlog_moment 2)) b = Some p" for b p
    using that by (auto simp: backlog_moment_def split: if_splits)
  have rows: "rows_between (mo_table (backlog_moment 2)) 1704067000000 1704067200000 =
      {([0], backlog_row), ([1], backlog_row)}"
    by (simp add: backlog_between lessThan_nat_numeral lessThan_Suc insert_commute)
  show ?thesis
    using sync_fetches_backlog [OF chunk_capnp_laws chunk_frame_law, of "replicate 16 7" "backlog_moment 2"
        "replicate 16 9" "replicate 16 8" 1704067000000 1704067200000 "\<lambda>e. e" Checked "[]" 0 empty_store]
      table small rows by (auto simp: backlog_clock backlog_fits)
qed

text \<open>
  C9. Only one page of a backlog is ever fetched. The starting point of every further turn is the
  server's clock, not the last message received: whatever a pull stores that was sent before the
  clock of its first turn is in its first page, of at most a hundred messages. The pull ends
  with a starting point no earlier than that clock, so no later pull fetches the rest either.
\<close>

theorem sync_one_page_only:
  assumes "capnp_laws capi content limit" "frame_law capi limit" "length uid = 16"
    and "\<forall>mo' \<in> set (mo # mos). rows_fit limit tid cid (mo_table mo')"
    and "sync_pull capi show_error m tid uid cid (mo # mos) since n self = Some (self', Ok (received, wall))"
  shows "\<exists>page rest now. get_deltas (mo_down mo) (mo_table mo) (sc_query (mo_clock mo)) since 100 = Ret (page, rest) \<and>
    length page \<le> 100 \<and> system_time_ms (sc_nif (mo_clock mo)) = Ret now \<and> now \<le> wall \<and>
    {mid. \<exists>msg. map_of (db_messages self') (cid, mid) = Some msg \<and> sm_timestamp msg \<le> now \<and>
       map_of (db_messages self) (cid, mid) \<noteq> Some msg} \<subseteq> fst ` set page"
proof -
  obtain deltas w rest where ok: "channel_sync capi show_error m tid uid cid mo since = Ok (deltas, w, rest)"
    using assms(5) by (cases "channel_sync capi show_error m tid uid cid mo since") auto
  have "rows_fit limit tid cid (mo_table mo)" using assms(4) by simp
  from channel_sync_Ok [OF assms(1-3) this ok] obtain page now where
    page: "get_deltas (mo_down mo) (mo_table mo) (sc_query (mo_clock mo)) since 100 = Ret (page, rest)"
    "system_time_ms (sc_nif (mo_clock mo)) = Ret now"
    "deltas = map (row_envelope tid cid) page" "w = max (max now (sc_local (mo_clock mo))) since" .
  let ?self = "fold (store_delta cid) deltas self"
  have later: "w \<le> wall \<and> (\<forall>mid msg. map_of (db_messages self') (cid, mid) = Some msg \<and>
      map_of (db_messages ?self) (cid, mid) \<noteq> Some msg \<longrightarrow> w < sm_timestamp msg)"
  proof (cases rest)
    case True
    then have "sync_pull capi show_error m tid uid cid mos w (n + length deltas) ?self = Some (self', Ok (received, wall))"
      using assms(5) ok by (simp add: Let_def)
    from sync_pull_new [OF assms(1-3) _ this] show ?thesis using assms(4) by simp
  qed (use assms(5) ok in \<open>auto simp: Let_def\<close>)
  have now: "now \<le> w" by (simp add: page(4) le_max_iff_disj)
  have "mid \<in> fst ` set page" if msg: "map_of (db_messages self') (cid, mid) = Some msg" "sm_timestamp msg \<le> now"
    "map_of (db_messages self) (cid, mid) \<noteq> Some msg" for mid msg
  proof -
    have "\<not> w < sm_timestamp msg" using msg(2) now by simp
    then have "map_of (db_messages ?self) (cid, mid) = Some msg" using later msg(1) by blast
    from store_page_new [OF this [unfolded page(3)] msg(3)] show ?thesis by force
  qed
  moreover have "now \<le> wall" using later now order_trans by blast
  ultimately show ?thesis using page(1,2) get_deltas_page(2) [OF page(1)] by blast
qed

theorem sync_one_page_only_witness:
  "\<exists>self'. sync_pull chunk_capnp (\<lambda>e. e) Checked (replicate 16 9) (replicate 16 7) (replicate 16 8)
     [backlog_moment 101, backlog_moment 101] 1704067000000 0 empty_store = Some (self', Ok (100, 1704067200000)) \<and>
   ([0], backlog_row) \<in> rows_between (mo_table (backlog_moment 101)) 1704067000000 1704067200000 \<and>
   \<not> (\<exists>msg. map_of (db_messages self') (replicate 16 8, [0]) = Some msg \<and> sm_timestamp msg \<le> 1704067200000)"
proof -
  have fit: "\<forall>mo' \<in> set [backlog_moment 101, backlog_moment 101]. rows_fit 67108864 (replicate 16 9) (replicate 16 8) (mo_table mo')"
    by (simp add: backlog_fits)
  have row: "([0], backlog_row) \<in> rows_between (mo_table (backlog_moment 101)) 1704067000000 1704067200000"
    by (subst backlog_between) (auto intro: image_eqI [of _ _ 0])
  show ?thesis
    using sync_one_page_only [OF chunk_capnp_laws chunk_frame_law _ fit backlog_pull] backlog_pull row
      backlog_first_lost [of backlog_row] backlog_page(1) [OF order_refl]
    by (auto simp: backlog_clock empty_store_def)
qed

section \<open>What a push delivers\<close>

type_synonym offline_send = "bytes \<times> bytes \<times> u64 \<times> bytes"

definition send_offline :: "offline_send \<Rightarrow> local_store \<Rightarrow> local_store" where
  "send_offline x = (case x of (cid, mid, now, content) \<Rightarrow> channel_send_offline cid mid now content)"

definition queue_item :: "nat \<Rightarrow> offline_send \<Rightarrow> queued_message" where
  "queue_item i x = (case x of (cid, mid, now, content) \<Rightarrow> \<lparr>qm_id = i, qm_channel = cid, qm_payload =
     \<lparr>qp_message_id = mid, qp_content = content, qp_encrypted_content = None, qp_hlc_wall = now\<rparr>\<rparr>)"

lemma queue_item_sel [simp]:
  "qm_id (queue_item i x) = i" "qm_channel (queue_item i x) = fst x"
  "qp_encrypted_content (qm_payload (queue_item i x)) = None"
  "qp_message_id (qm_payload (queue_item i x)) = fst (snd x)"
  "qp_hlc_wall (qm_payload (queue_item i x)) = fst (snd (snd x))"
  by (simp_all add: queue_item_def split: prod.split)

lemma offline_queue:
  assumes "db_queue self = []" "length sends \<le> 100"
  shows "db_queue (fold send_offline sends self) =
      map (\<lambda>(i, x). queue_item i x) (enumerate (db_next_id self) sends) \<and>
    db_next_id (fold send_offline sends self) = db_next_id self + length sends"
  using assms(2)
proof (induction sends rule: rev_induct)
  case (snoc x sends)
  then show ?case
    by (cases x) (simp add: send_offline_def channel_send_offline_def queue_enqueue_def MAX_QUEUE_SIZE_def
        enumerate_append_eq queue_item_def)
qed (simp add: assms(1))

lemma push_pending:
  assumes capi: "capnp_laws capi content limit" "frame_law capi limit" and uid: "length uid = 16"
    and now: "system_time_ms (sc_nif clk) = Ret now" and few: "length ds \<le> 100"
    and ds: "\<forall>d \<in> set ds. qp_encrypted_content d = None \<and> unat (qp_hlc_wall d) div 864000000 < 2 ^ 32 \<and>
      length tid + length cid + length uid + length (qp_message_id d) \<le> limit"
  shows "push_deltas capi show_error lost clk tid uid cid ds tbl =
    (fold (\<lambda>d. messages_write (of_nat (unat (row_created_at (delta_row d)) div 864000000)) (fst d) (delta_row d))
       (filter (\<lambda>d. \<not> lost (fst d)) (map (\<lambda>d. (qp_message_id d, uid, [], qp_hlc_wall d)) ds)) tbl, Ok (length ds))"
proof -
  let ?content = "\<lambda>d. case qp_encrypted_content d of None \<Rightarrow> [] | Some c \<Rightarrow> c"
  have "length tid + length cid + length uid + length (qp_message_id d) + length (?content d) \<le> limit"
    if "d \<in> set ds" for d using ds that by simp
  from encode_list [OF capi, of ds tid cid "\<lambda>_. uid" qp_message_id ?content qp_hlc_wall, OF this] obtain envs where
    enc: "exec_map (\<lambda>d. envelope_encode capi tid cid uid (qp_message_id d) (qp_hlc_wall d) (?content d)) ds = Ret envs"
    and dec: "map (envelope_decode capi) envs = map (\<lambda>d. Ok \<lparr>de_tenant_id = tid, de_channel_id = cid,
      de_sender_id = uid, de_message_id = qp_message_id d, de_timestamp = qp_hlc_wall d, de_payload = ?content d\<rparr>) ds"
    and small: "\<forall>e \<in> set envs. length e < 2 ^ 32" by blast
  have "length envs = length ds" using arg_cong [OF dec, of length] by simp
  then have unpack: "gateway_unpack_envelopes (pack_envelopes envs) = envs"
    using small few by (intro frame_unpack_pack) auto
  have deltas: "decode_deltas capi show_error envs = map (\<lambda>d. (qp_message_id d, uid, [], qp_hlc_wall d)) ds"
    using decode_decoded [OF dec] ds by simp
  obtain w c where tick: "raising (nif_hlc_tick (sc_nif clk) (sc_local clk) 0 uid) = Ret (w, c)"
    using sync_tick [OF uid now] by blast
  have fit: "\<forall>d \<in> set (map (\<lambda>d. (qp_message_id d, uid, [] :: bytes, qp_hlc_wall d)) ds).
      unat (row_created_at (delta_row d)) div 864000000 < 2 ^ 32"
    using ds by (simp add: delta_row_def)
  show ?thesis
    using few by (simp add: push_deltas_def enc gateway_sync_push_def unpack deltas apply_deltas_all [OF fit] tick Let_def)
qed

lemma map_pending:
  assumes "\<And>i x. f (queue_item i x) = h x"
  shows "map f (filter (\<lambda>q. qm_channel q = cid) (map (\<lambda>(i, x). queue_item i x) (enumerate n xs))) =
    map h (filter (\<lambda>x. fst x = cid) xs)"
  by (induction xs arbitrary: n) (simp_all add: assms)

lemma last_pending:
  fixes after :: "offline_send list"
  defines "items \<equiv> \<lambda>n xs. map (\<lambda>(i, x). queue_item i x) (enumerate n xs)"
  assumes "fst x = cid" "\<forall>y \<in> set after. fst y \<noteq> cid"
  shows "\<exists>p. filter (\<lambda>q. qm_channel q = cid) (items n (before @ x # after)) = p @ [queue_item (n + length before) x]"
    and "filter (\<lambda>q. qm_id q > n + length before) (items n (before @ x # after)) = items (Suc (n + length before)) after"
proof -
  have "filter (\<lambda>q. qm_channel q = cid) (items k after) = []" for k
    using assms(3) unfolding items_def by (induction after arbitrary: k) simp_all
  then show "\<exists>p. filter (\<lambda>q. qm_channel q = cid) (items n (before @ x # after)) = p @ [queue_item (n + length before) x]"
    using assms(2) by (simp add: items_def enumerate_append_eq)
  show "filter (\<lambda>q. qm_id q > n + length before) (items n (before @ x # after)) = items (Suc (n + length before)) after"
  proof -
    have "filter (\<lambda>q. qm_id q > n + length before) (items n before) = []"
      by (auto simp: items_def filter_empty_conv in_set_enumerate_eq)
    moreover have "filter (\<lambda>q. qm_id q > n + length before) (items (Suc (n + length before)) after) =
        items (Suc (n + length before)) after"
      by (intro filter_True) (auto simp: items_def in_set_enumerate_eq)
    ultimately show ?thesis by (simp add: items_def enumerate_append_eq)
  qed
qed

text \<open>
  C10. What is written offline arrives empty. Messages sent while disconnected are queued as plain
  text, and the push looks for encrypted content: every message of the channel is written to the
  table under its id and time with no content at all. All of them are reported accepted, those
  whose write failed too, and removed from the queue, with every message to another channel queued
  before the last of them.
\<close>

theorem offline_push_loses_content:
  assumes "capnp_laws capi content limit" "frame_law capi limit" "length uid = 16"
    and "system_time_ms (sc_nif clk) = Ret now" "db_queue self = []" "length sends \<le> 100"
    and "sends = before @ x # after" "fst x = cid" "\<forall>y \<in> set after. fst y \<noteq> cid"
    and "\<forall>(c, mid, ts, content) \<in> set sends. unat ts div 864000000 < 2 ^ 32 \<and>
      length tid + length cid + length uid + length mid \<le> limit"
  shows "\<exists>self'. sync_push capi show_error lost clk tid uid cid tbl (fold send_offline sends self) =
      (fold (\<lambda>(c, mid, ts, content). messages_write (of_nat (unat ts div 864000000)) mid
         \<lparr>row_sender = uid, row_content = [], row_content_type = 0, row_created_at = ts\<rparr>)
       (filter (\<lambda>(c, mid, ts, content). c = cid \<and> \<not> lost mid) sends) tbl,
       self', Ok (length (filter (\<lambda>(c, mid, ts, content). c = cid) sends))) \<and>
    map (\<lambda>q. (qm_channel q, qp_message_id (qm_payload q))) (db_queue self') =
      map (\<lambda>(c, mid, ts, content). (c, mid)) after"
proof -
  let ?self = "fold send_offline sends self" and ?n = "db_next_id self"
  let ?pending = "filter (\<lambda>q. qm_channel q = cid) (map (\<lambda>(i, x). queue_item i x) (enumerate ?n sends))"
  let ?tbl = "fold (\<lambda>(c, mid, ts, content). messages_write (of_nat (unat ts div 864000000)) mid
         \<lparr>row_sender = uid, row_content = [], row_content_type = 0, row_created_at = ts\<rparr>)
       (filter (\<lambda>(c, mid, ts, content). c = cid \<and> \<not> lost mid) sends) tbl"
  have queue: "db_queue ?self = map (\<lambda>(i, x). queue_item i x) (enumerate ?n sends)"
    using offline_queue [OF assms(5,6)] by simp
  then have drain: "queue_drain ?self = map (\<lambda>(i, x). queue_item i x) (enumerate ?n sends)"
    using assms(6) by (simp add: queue_drain_def DRAIN_BATCH_SIZE_def)
  obtain p where last: "?pending = p @ [queue_item (?n + length before) x]"
    using last_pending(1) [OF assms(8,9)] unfolding assms(7) by blast
  have mine: "length ?pending = length (filter (\<lambda>(c, mid, ts, content). c = cid) sends)"
    using arg_cong [OF map_pending [of "\<lambda>q. ()" "\<lambda>x. ()" cid ?n sends], of length] by (simp add: split_def)
  have few: "length ?pending \<le> 100" unfolding mine by (rule order_trans [OF length_filter_le assms(6)])
  have ok: "\<forall>d \<in> set (map qm_payload ?pending). qp_encrypted_content d = None \<and>
      unat (qp_hlc_wall d) div 864000000 < 2 ^ 32 \<and> length tid + length cid + length uid + length (qp_message_id d) \<le> limit"
    using assms(10) by (fastforce simp: enumerate_eq_zip dest: set_zip_rightD)
  have deltas: "map (\<lambda>d. (qp_message_id d, uid, [] :: bytes, qp_hlc_wall d)) (map qm_payload ?pending) =
      map (\<lambda>(c, mid, ts, content). (mid, uid, [], ts)) (filter (\<lambda>x. fst x = cid) sends)"
    using map_pending [of "\<lambda>q. (qp_message_id (qm_payload q), uid, [] :: bytes, qp_hlc_wall (qm_payload q))"
      "\<lambda>(c, mid, ts, content). (mid, uid, [], ts)" cid ?n sends] by (simp add: split_def comp_def)
  have "push_deltas capi show_error lost clk tid uid cid (map qm_payload ?pending) tbl = (?tbl, Ok (length ?pending))"
    using push_pending [OF assms(1-4) _ ok, of show_error lost tbl] few
    unfolding deltas by (simp add: filter_map fold_map comp_def split_def delta_row_def conj_commute)
  then have push: "sync_push capi show_error lost clk tid uid cid tbl ?self =
      (?tbl, evict_old_messages cid (clear_queue (?n + length before) ?self), Ok (length ?pending))"
    unfolding sync_push_def drain Let_def last by simp
  have "db_queue (evict_old_messages cid (clear_queue (?n + length before) ?self)) =
      map (\<lambda>(i, x). queue_item i x) (enumerate (Suc (?n + length before)) after)"
    using last_pending(2) [OF assms(8,9), of ?n before] unfolding assms(7) [symmetric]
    by (simp add: evict_old_messages_def clear_queue_def queue Let_def)
  then have "map (\<lambda>q. (qm_channel q, qp_message_id (qm_payload q)))
      (db_queue (evict_old_messages cid (clear_queue (?n + length before) ?self))) =
      map (\<lambda>x. (fst x, fst (snd x))) (map snd (enumerate (Suc (?n + length before)) after))"
    unfolding map_map by (simp add: split_def comp_def)
  then show ?thesis using push unfolding mine by (simp add: split_def)
qed

theorem offline_push_loses_content_witness:
  "\<exists>self'. sync_push chunk_capnp (\<lambda>e. e) (\<lambda>mid. mid = [3]) (mo_clock (backlog_moment 0)) (replicate 16 9) (replicate 16 7)
     (replicate 16 8) [] (fold send_offline
       [(replicate 16 8, [1], 1704067100000, [104, 105]), (replicate 16 6, [2], 1704067100000, [98]),
        (replicate 16 8, [3], 1704067100000, [99]), (replicate 16 6, [4], 1704067100000, [100])] empty_store) =
     ([(1972, [([1], \<lparr>row_sender = replicate 16 7, row_content = [], row_content_type = 0,
        row_created_at = 1704067100000\<rparr>)])], self', Ok 2) \<and>
   map (\<lambda>q. (qm_channel q, qp_message_id (qm_payload q))) (db_queue self') = [(replicate 16 6, [4])]"
  using offline_push_loses_content [OF chunk_capnp_laws chunk_frame_law, of "replicate 16 7" "mo_clock (backlog_moment 0)"
      1704067200000 empty_store _ "[(replicate 16 8, [1], 1704067100000, [104, 105]), (replicate 16 6, [2], 1704067100000, [98])]"
      "(replicate 16 8, [3], 1704067100000, [99])" "[(replicate 16 6, [4], 1704067100000, [100])]" "replicate 16 8"
      "replicate 16 9" "\<lambda>e. e" "\<lambda>mid. mid = [3]" "[]", OF _ _ _ _ refl]
  by (simp add: backlog_clock empty_store_def messages_write_def hm_upsert_def hm_insert_def entry_or_def
      flip: numeral_2_eq_2)

end
