(* ===== verification/Crdt_Laws.thy ===== *)
theory Crdt_Laws
  imports Gcounter Lww_Register Reaction_Map Message_Log
begin

text \<open>
  The property tests of \<^verbatim>\<open>crates/mercury-crdt/tests/crdt_laws.rs\<close>: the strategies
  that generate values (the ranges they draw from, and the functions that build a value from
  what is drawn) and the three laws each type is sampled for. Here the laws are proved for
  every value the strategies can generate, with the two assumptions sampling hides: registers
  and logs must not give one clock two different contents.
\<close>

section \<open>Strategies\<close>

definition arb_node_id :: "bytes16 \<Rightarrow> bool" where
  "arb_node_id n \<longleftrightarrow> length n = 16"

definition arb_hlc :: "hlc \<Rightarrow> bool" where
  "arb_hlc h \<longleftrightarrow>
     1 \<le> wall_clock_ms h \<and> wall_clock_ms h < 1000000 \<and> counter h < 100 \<and> arb_node_id (node_id h)"

definition arb_gcounter_ops :: "(bytes16 \<times> nat) list \<Rightarrow> bool" where
  "arb_gcounter_ops ops \<longleftrightarrow> length ops < 5 \<and> (\<forall>(node, k) \<in> set ops. arb_node_id node \<and> 1 \<le> k \<and> k < 100)"

definition arb_gcounter :: "overflow \<Rightarrow> (bytes16 \<times> nat) list \<Rightarrow> gcounter exec" where
  "arb_gcounter m ops =
     exec_fold (\<lambda>(node, k) c. exec_fold (\<lambda>_ c. gc_increment m node c) (replicate k ()) c) ops gc_new"

definition arb_lww_register :: "u64 \<times> hlc \<Rightarrow> u64 lww_register" where
  "arb_lww_register vh = lww_new (fst vh) (snd vh)"

definition arb_orset_ops :: "(u32 \<times> bytes16) list \<Rightarrow> bool" where
  "arb_orset_ops ops \<longleftrightarrow> length ops < 10 \<and> (\<forall>(v, node) \<in> set ops. v < 50 \<and> arb_node_id node)"

definition arb_orset :: "overflow \<Rightarrow> (u32 \<times> bytes16) list \<Rightarrow> u32 orset exec" where
  "arb_orset m ops = exec_fold (\<lambda>(v, node) s. os_add m v node s) ops os_new"

definition arb_message_log_ops :: "(hlc \<times> bytes) list \<Rightarrow> bool" where
  "arb_message_log_ops ops \<longleftrightarrow> length ops < 10 \<and> (\<forall>(h, data) \<in> set ops. arb_hlc h \<and> length data < 16)"

definition arb_message_log :: "(hlc \<times> bytes) list \<Rightarrow> message_log" where
  "arb_message_log ops =
     fold (\<lambda>(h, data) l. case log_append h data l of Ok l' \<Rightarrow> l' | Err e \<Rightarrow> l) ops log_new"

text \<open>
  The emoji are the strings of the source in UTF-8; the ids of the users are drawn anew for each
  reaction and come with the operation.
\<close>

definition test_emojis :: "string list" where
  "test_emojis =
     [[CHR 0xF0, CHR 0x9F, CHR 0x91, CHR 0x8D],
      [CHR 0xE2, CHR 0x9D, CHR 0xA4, CHR 0xEF, CHR 0xB8, CHR 0x8F],
      [CHR 0xF0, CHR 0x9F, CHR 0x98, CHR 0x82]]"

definition arb_reaction_map_ops :: "(user_id \<times> nat \<times> bytes16) list \<Rightarrow> bool" where
  "arb_reaction_map_ops ops \<longleftrightarrow>
     length ops < 5 \<and> (\<forall>(user, emoji_idx, node) \<in> set ops. emoji_idx < 3 \<and> arb_node_id node)"

definition arb_reaction_map :: "overflow \<Rightarrow> (user_id \<times> nat \<times> bytes16) list \<Rightarrow> reaction_map exec" where
  "arb_reaction_map m ops =
     exec_fold (\<lambda>(user, emoji_idx, node) r. rm_add_reaction m user (test_emojis ! emoji_idx) node r) ops rm_new"

section \<open>The laws\<close>

definition prop_commutative :: "('s \<Rightarrow> 's \<Rightarrow> bool) \<Rightarrow> ('s \<Rightarrow> 's \<Rightarrow> 's) \<Rightarrow> 's \<Rightarrow> 's \<Rightarrow> bool" where
  "prop_commutative eq merge a b = (let ab = merge a b; ba = merge b a in eq ab ba)"

definition prop_associative :: "('s \<Rightarrow> 's \<Rightarrow> bool) \<Rightarrow> ('s \<Rightarrow> 's \<Rightarrow> 's) \<Rightarrow> 's \<Rightarrow> 's \<Rightarrow> 's \<Rightarrow> bool" where
  "prop_associative eq merge a b c =
     (let ab_c = merge (merge a b) c; bc = merge b c; a_bc = merge a bc in eq ab_c a_bc)"

definition prop_idempotent :: "('s \<Rightarrow> 's \<Rightarrow> bool) \<Rightarrow> ('s \<Rightarrow> 's \<Rightarrow> 's) \<Rightarrow> 's \<Rightarrow> bool" where
  "prop_idempotent eq merge a = (let merged = merge a a in eq merged a)"

definition crdt_laws :: "('s \<Rightarrow> 's \<Rightarrow> bool) \<Rightarrow> ('s \<Rightarrow> 's \<Rightarrow> 's) \<Rightarrow> 's \<Rightarrow> 's \<Rightarrow> 's \<Rightarrow> bool" where
  "crdt_laws eq merge a b c \<longleftrightarrow>
     prop_commutative eq merge a b \<and> prop_associative eq merge a b c \<and> prop_idempotent eq merge a"

text \<open>The reaction map is tested by hand, without associativity.\<close>

definition reaction_map_laws :: "reaction_map \<Rightarrow> reaction_map \<Rightarrow> bool" where
  "reaction_map_laws a b \<longleftrightarrow> prop_commutative rm_eq rm_merge a b \<and> prop_idempotent rm_eq rm_merge a"

context mergeable
begin

lemma laws: "good a \<Longrightarrow> good b \<Longrightarrow> good c \<Longrightarrow> crdt_laws eq merge a b c"
  by (simp add: crdt_laws_def prop_commutative_def prop_associative_def prop_idempotent_def
      commutative associative idempotent)

end

section \<open>The strategies do not panic and build well-formed values\<close>

text \<open>Increments and additions that cannot overflow are the same in every build.\<close>

lemma gc_increment_small:
  assumes "gc_slot c node + 1 < 2 ^ 64"
  shows "gc_increment m node c = gc_increment Checked node c" "\<exists>c'. gc_increment m node c = Ret c'"
proof -
  have "unat (entry_or node 0 (gc_counts c)) + unat (1 :: u64) < 2 ^ LENGTH(64)"
    using assms by (simp add: gc_slot_def)
  then have "add_ovf m (entry_or node 0 (gc_counts c)) 1 = Ret (entry_or node 0 (gc_counts c) + 1)" for m
    by (simp add: add_ovf_def checked_add_def)
  then show "gc_increment m node c = gc_increment Checked node c" "\<exists>c'. gc_increment m node c = Ret c'"
    by (simp_all add: gc_increment_def)
qed

lemma gc_repeat_increment:
  assumes "gc_ok c" "\<forall>n. gc_slot c n + k < 2 ^ 64"
  shows "\<exists>c'. exec_fold (\<lambda>_ c. gc_increment m node c) (replicate k ()) c = Ret c' \<and> gc_ok c' \<and>
    (\<forall>n. gc_slot c' n \<le> gc_slot c n + k)"
  using assms
proof (induction k arbitrary: c)
  case (Suc k)
  have small: "gc_slot c node + 1 < 2 ^ 64"
    using Suc.prems(2) [rule_format, of node] by linarith
  obtain c1 where c1: "gc_increment m node c = Ret c1" "gc_increment Checked node c = Ret c1"
    using gc_increment_small [OF small, of m] by metis
  have slots: "gc_slot c1 n \<le> gc_slot c n + 1" for n
    by (simp add: gc_slot_increment [OF c1(2)])
  have "\<forall>n. gc_slot c1 n + k < 2 ^ 64"
  proof
    fix n
    have "gc_slot c1 n + k \<le> gc_slot c n + Suc k" using slots [of n] by simp
    also have "\<dots> < 2 ^ 64" using Suc.prems(2) by blast
    finally show "gc_slot c1 n + k < 2 ^ 64" .
  qed
  with Suc.IH [OF gc_ok_increment [OF c1(1) Suc.prems(1)]] obtain c' where
    "exec_fold (\<lambda>_ c. gc_increment m node c) (replicate k ()) c1 = Ret c'" "gc_ok c'"
    "\<forall>n. gc_slot c' n \<le> gc_slot c1 n + k" by blast
  moreover have "gc_slot c1 n + k \<le> gc_slot c n + Suc k" for n using slots [of n] by simp
  ultimately show ?case using c1(1) by (auto intro: le_trans)
qed simp

lemma arb_gcounter_fold:
  assumes "gc_ok c" "\<forall>n. gc_slot c n + (\<Sum>(n, k)\<leftarrow>ops. k) < 2 ^ 64"
  shows "\<exists>c'. exec_fold (\<lambda>(node, k) c. exec_fold (\<lambda>_ c. gc_increment m node c) (replicate k ()) c) ops c =
    Ret c' \<and> gc_ok c'"
  using assms
proof (induction ops arbitrary: c)
  case (Cons x ops)
  obtain node k where x: "x = (node, k)" by (cases x)
  have "\<forall>n. gc_slot c n + k < 2 ^ 64"
  proof
    fix n
    have "gc_slot c n + k \<le> gc_slot c n + (\<Sum>(n, k)\<leftarrow>x # ops. k)" by (simp add: x)
    also have "\<dots> < 2 ^ 64" using Cons.prems(2) by blast
    finally show "gc_slot c n + k < 2 ^ 64" .
  qed
  from gc_repeat_increment [OF Cons.prems(1) this] obtain c1 where
    c1: "exec_fold (\<lambda>_ c. gc_increment m node c) (replicate k ()) c = Ret c1" "gc_ok c1"
      "\<forall>n. gc_slot c1 n \<le> gc_slot c n + k" by blast
  have "\<forall>n. gc_slot c1 n + (\<Sum>(n, k)\<leftarrow>ops. k) < 2 ^ 64"
  proof
    fix n
    have "gc_slot c1 n + (\<Sum>(n, k)\<leftarrow>ops. k) \<le> gc_slot c n + (\<Sum>(n, k)\<leftarrow>x # ops. k)"
      using c1(3) x by simp
    also have "\<dots> < 2 ^ 64" using Cons.prems(2) by blast
    finally show "gc_slot c1 n + (\<Sum>(n, k)\<leftarrow>ops. k) < 2 ^ 64" .
  qed
  from Cons.IH [OF c1(2) this] c1(1) x show ?case by auto
qed simp

lemma arb_gcounter_ok: "arb_gcounter_ops ops \<Longrightarrow> \<exists>c. arb_gcounter m ops = Ret c \<and> gc_ok c"
proof -
  assume gen: "arb_gcounter_ops ops"
  have "(\<Sum>(n, k)\<leftarrow>ops. k) \<le> (\<Sum>_\<leftarrow>ops. 100)"
    using gen by (intro sum_list_mono) (auto simp: arb_gcounter_ops_def)
  also have "\<dots> = length ops * 100" by (simp add: sum_list_triv)
  also have "\<dots> \<le> 500" using gen by (simp add: arb_gcounter_ops_def)
  finally show ?thesis
    unfolding arb_gcounter_def by (intro arb_gcounter_fold) (simp_all add: gc_ok_new)
qed

lemma os_add_small:
  assumes "os_ok s" "os_seq s node + 1 < 2 ^ 64"
  shows "\<exists>s'. os_add m v node s = Ret s' \<and> os_ok s' \<and> (\<forall>n. os_seq s' n \<le> os_seq s n + 1)"
proof -
  have "unat (entry_or node 0 (os_next_seq s)) + unat (1 :: u64) < 2 ^ LENGTH(64)"
    using assms(2) by (simp add: os_seq_def)
  note small = this unat_add_no_overflow [OF this]
  obtain s' where s': "os_add m v node s = Ret s'"
    using small(1) by (simp add: os_add_def add_ovf_def checked_add_def Let_def)
  moreover have "os_seq s' n \<le> os_seq s n + 1" for n
  proof -
    obtain seq where "add_ovf m (entry_or node 0 (os_next_seq s)) 1 = Ret seq"
      "map_of (os_next_seq s') = (map_of (os_next_seq s))(node \<mapsto> seq)"
      using s' by (rule os_add_Ret)
    then show ?thesis
      using small(2) add_ovf_RetD by (fastforce simp: os_seq_def entry_or_def)
  qed
  ultimately show ?thesis using os_ok_add [OF s' assms(1)] by blast
qed

lemma arb_orset_fold:
  assumes "os_ok s" "\<forall>n. os_seq s n + length ops < 2 ^ 64"
  shows "\<exists>s'. exec_fold (\<lambda>(v, node) s. os_add m v node s) ops s = Ret s' \<and> os_ok s'"
  using assms
proof (induction ops arbitrary: s)
  case (Cons x ops)
  obtain v node where x: "x = (v, node)" by (cases x)
  have "os_seq s node + 1 < 2 ^ 64" using Cons.prems(2) [rule_format, of node] by simp
  from os_add_small [OF Cons.prems(1) this] obtain s1 where
    s1: "os_add m v node s = Ret s1" "os_ok s1" "\<forall>n. os_seq s1 n \<le> os_seq s n + 1" by blast
  have "\<forall>n. os_seq s1 n + length ops < 2 ^ 64"
  proof
    fix n
    have "os_seq s1 n + length ops \<le> os_seq s n + length (x # ops)" using s1(3) [rule_format, of n] by simp
    also have "\<dots> < 2 ^ 64" using Cons.prems(2) by blast
    finally show "os_seq s1 n + length ops < 2 ^ 64" .
  qed
  from Cons.IH [OF s1(2) this] s1(1) x show ?case by auto
qed simp

lemma arb_orset_ok: "arb_orset_ops ops \<Longrightarrow> \<exists>s. arb_orset m ops = Ret s \<and> os_ok s"
  unfolding arb_orset_def by (rule arb_orset_fold) (simp_all add: os_ok_new arb_orset_ops_def)

text \<open>The reaction map of the strategy is the set of its pairs.\<close>

lemma arb_reaction_map_fold:
  "exec_fold (\<lambda>(user, i, node) r. rm_add_reaction m user (test_emojis ! i) node r) ops r =
   exec_bind (exec_fold (\<lambda>(v, node) s. os_add m v node s)
     (map (\<lambda>(user, i, node). ((user, test_emojis ! i), node)) ops) (rm_reactions r)) (\<lambda>s. Ret (r\<lparr>rm_reactions := s\<rparr>))"
proof (induction ops arbitrary: r)
  case (Cons x ops)
  obtain u i node where x: "x = (u, i, node)" by (cases x)
  show ?case
    by (cases "os_add m (u, test_emojis ! i) node (rm_reactions r)")
      (simp_all add: x rm_add_reaction_def [of m u _ node r] Cons.IH)
qed simp

lemma arb_reaction_map_ok: "arb_reaction_map_ops ops \<Longrightarrow> \<exists>r. arb_reaction_map m ops = Ret r \<and> rm_ok r"
proof -
  assume gen: "arb_reaction_map_ops ops"
  have "\<exists>s. exec_fold (\<lambda>(v, node) s. os_add m v node s)
      (map (\<lambda>(user, i, node). ((user, test_emojis ! i), node)) ops) (rm_reactions rm_new) = Ret s \<and> os_ok s"
    by (rule arb_orset_fold) (use gen in \<open>simp_all add: rm_new_def os_ok_new arb_reaction_map_ops_def\<close>)
  then show ?thesis by (auto simp: arb_reaction_map_def arb_reaction_map_fold rm_ok_def)
qed

text \<open>A generated log holds some of its messages, the last one for each clock.\<close>

lemma arb_message_log_fold:
  assumes "log_within H l" "\<forall>(h, d) \<in> set ops. H h = Some d"
  shows "log_within H (fold (\<lambda>(h, data) l. case log_append h data l of Ok l' \<Rightarrow> l' | Err e \<Rightarrow> l) ops l)"
  using assms
proof (induction ops arbitrary: l)
  case (Cons x ops)
  obtain h d where x: "x = (h, d)" by (cases x)
  have "log_within H (case log_append h d l of Ok l' \<Rightarrow> l' | Err e \<Rightarrow> l)"
  proof (cases "log_append h d l")
    case (Ok l')
    have "H h = Some d" using Cons.prems(2) x by simp
    then show ?thesis
      using Cons.prems(1) Ok by (auto simp: log_within_def log_ok_append log_map_append map_le_def)
  qed (use Cons.prems(1) in simp)
  then show ?case using Cons x by simp
qed simp

lemma arb_message_log_within:
  assumes "finite (dom H)" "card (dom H) \<le> MAX_LOG_ENTRIES" "\<forall>(h, d) \<in> set ops. H h = Some d"
  shows "log_within H (arb_message_log ops)"
  unfolding arb_message_log_def using assms
  by (intro arb_message_log_fold) (simp_all add: log_within_def log_ok_new)

section \<open>Correctness\<close>

text \<open>Register and log contents determined by the clock they were written at.\<close>

definition one_per_clock :: "(hlc \<times> 'a) list \<Rightarrow> bool" where
  "one_per_clock ops \<longleftrightarrow> list_all (\<lambda>(h, d). list_all (\<lambda>(h', d'). h = h' \<longrightarrow> d = d') ops) ops"

lemma one_per_clock_map_of: "one_per_clock ops \<Longrightarrow> (h, d) \<in> set ops \<Longrightarrow> map_of ops h = Some d"
proof -
  assume one: "one_per_clock ops" and mem: "(h, d) \<in> set ops"
  then obtain d' where "map_of ops h = Some d'"
    by (metis map_of_eq_None_iff not_Some_eq fst_conv image_eqI)
  moreover from map_of_SomeD [OF this] have "d' = d"
    using one mem by (fastforce simp: one_per_clock_def list_all_iff)
  ultimately show ?thesis by simp
qed

text \<open>
  C39. The property tests hold for every value their strategies can generate, not only those
  sampled: in both builds the functions that build a counter, a set or a reaction map return
  without a panic, and merging is commutative, associative and idempotent up to
  \<^verbatim>\<open>==\<close>; for registers and logs this needs that no clock carries two contents, which
  the strategies do not ensure.
\<close>

theorem crdt_property_tests_hold:
  assumes "arb_gcounter_ops g1" "arb_gcounter_ops g2" "arb_gcounter_ops g3"
    and "arb_orset_ops s1" "arb_orset_ops s2" "arb_orset_ops s3"
    and "arb_reaction_map_ops r1" "arb_reaction_map_ops r2" "arb_reaction_map_ops r3"
    and "arb_message_log_ops l1" "arb_message_log_ops l2" "arb_message_log_ops l3"
    and "one_per_clock (l1 @ l2 @ l3)" "one_per_clock [(t1, v1), (t2, v2), (t3, v3 :: u64)]"
  shows "(\<exists>a b c. arb_gcounter m g1 = Ret a \<and> arb_gcounter m g2 = Ret b \<and> arb_gcounter m g3 = Ret c \<and>
      crdt_laws (=) gc_merge a b c) \<and>
    crdt_laws (=) lww_merge (arb_lww_register (v1, t1)) (arb_lww_register (v2, t2)) (arb_lww_register (v3, t3)) \<and>
    (\<exists>a b c. arb_orset m s1 = Ret a \<and> arb_orset m s2 = Ret b \<and> arb_orset m s3 = Ret c \<and>
      crdt_laws os_eq os_merge a b c) \<and>
    crdt_laws log_eq log_merge (arb_message_log l1) (arb_message_log l2) (arb_message_log l3) \<and>
    (\<exists>a b c. arb_reaction_map m r1 = Ret a \<and> arb_reaction_map m r2 = Ret b \<and> arb_reaction_map m r3 = Ret c \<and>
      reaction_map_laws a b \<and> crdt_laws rm_eq rm_merge a b c)"
proof (intro conjI)
  show "\<exists>a b c. arb_gcounter m g1 = Ret a \<and> arb_gcounter m g2 = Ret b \<and> arb_gcounter m g3 = Ret c \<and>
      crdt_laws (=) gc_merge a b c"
    using arb_gcounter_ok [OF assms(1), of m] arb_gcounter_ok [OF assms(2), of m] arb_gcounter_ok [OF assms(3), of m]
    by (blast intro: gc.laws)
  show "\<exists>a b c. arb_orset m s1 = Ret a \<and> arb_orset m s2 = Ret b \<and> arb_orset m s3 = Ret c \<and>
      crdt_laws os_eq os_merge a b c"
    using arb_orset_ok [OF assms(4), of m] arb_orset_ok [OF assms(5), of m] arb_orset_ok [OF assms(6), of m]
    by (blast intro: os.laws)
  show "\<exists>a b c. arb_reaction_map m r1 = Ret a \<and> arb_reaction_map m r2 = Ret b \<and> arb_reaction_map m r3 = Ret c \<and>
      reaction_map_laws a b \<and> crdt_laws rm_eq rm_merge a b c"
  proof -
    obtain a b c where built: "arb_reaction_map m r1 = Ret a" "arb_reaction_map m r2 = Ret b"
      "arb_reaction_map m r3 = Ret c" and "rm_ok a" "rm_ok b" "rm_ok c"
      using arb_reaction_map_ok [OF assms(7), of m] arb_reaction_map_ok [OF assms(8), of m]
        arb_reaction_map_ok [OF assms(9), of m] by blast
    then have "crdt_laws rm_eq rm_merge a b c" by (blast intro: rm.laws)
    then show ?thesis using built by (simp add: reaction_map_laws_def crdt_laws_def)
  qed
  have W: "map_of [(t1, v1), (t2, v2), (t3, v3)] t1 = Some v1" "map_of [(t1, v1), (t2, v2), (t3, v3)] t2 = Some v2"
    "map_of [(t1, v1), (t2, v2), (t3, v3)] t3 = Some v3"
    by (rule one_per_clock_map_of [OF assms(14)], simp)+
  show "crdt_laws (=) lww_merge (arb_lww_register (v1, t1)) (arb_lww_register (v2, t2)) (arb_lww_register (v3, t3))"
    by (rule lww.laws [of "\<lambda>t. the (map_of [(t1, v1), (t2, v2), (t3, v3)] t)"])
      (simp_all add: arb_lww_register_def lww_new_def lww_written_def W del: map_of.simps)
  let ?H = "map_of (l1 @ l2 @ l3)"
  have "card (dom ?H) \<le> length (l1 @ l2 @ l3)"
    using card_length [of "map fst (l1 @ l2 @ l3)"] by (simp add: dom_map_of_conv_image_fst image_Un)
  also have "\<dots> \<le> MAX_LOG_ENTRIES"
    using assms(10-12) by (simp add: arb_message_log_ops_def MAX_LOG_ENTRIES_def)
  finally have within: "log_within ?H (arb_message_log ops)" if "set ops \<subseteq> set (l1 @ l2 @ l3)" for ops
    using that one_per_clock_map_of [OF assms(13)]
    by (intro arb_message_log_within) (auto simp: finite_dom_map_of simp del: map_of_append set_append)
  show "crdt_laws log_eq log_merge (arb_message_log l1) (arb_message_log l2) (arb_message_log l3)"
    by (intro mlog.laws [of ?H] within) auto
qed

theorem crdt_property_tests_hold_witness:
  "\<exists>a b. arb_gcounter Checked [(replicate 16 1, 3)] = Ret a \<and> arb_gcounter Checked [(replicate 16 2, 99)] = Ret b \<and>
     gc_merge a b = gc_merge b a"
proof -
  let ?n = "replicate 16 (1 :: u8)"
  let ?g = "[(?n, 3 :: nat)]" and ?g' = "[(replicate 16 (2 :: u8), 99 :: nat)]"
  let ?h = "\<lparr>wall_clock_ms = 5, counter = 0, node_id = ?n\<rparr>"
  let ?s = "[(7 :: u32, ?n)]" and ?r = "[(User_Id [1], 0 :: nat, ?n)]" and ?l = "[(?h, [1 :: u8])]"
  have "arb_gcounter_ops ?g" "arb_gcounter_ops ?g'" "arb_orset_ops ?s" "arb_reaction_map_ops ?r"
    "arb_message_log_ops ?l" "one_per_clock (?l @ ?l @ ?l)" "one_per_clock [(?h, 1 :: u64), (?h, 1), (?h, 1)]"
    by (simp_all add: arb_gcounter_ops_def arb_orset_ops_def arb_reaction_map_ops_def arb_message_log_ops_def
        arb_node_id_def arb_hlc_def one_per_clock_def word_le_nat_alt word_less_nat_alt)
  from crdt_property_tests_hold [OF this(1,2,1,3,3,3,4,4,4,5,5,5,6,7), of Checked]
  show ?thesis by (auto simp: crdt_laws_def prop_commutative_def Let_def)
qed

end
