(* ===== verification/Crdt_Tests.thy ===== *)
theory Crdt_Tests
  imports Crdt_Laws Delta
begin

text \<open>
  The unit tests in the files of \<^verbatim>\<open>mercury-crdt/src\<close>, run on the model: each test is
  translated with its assertions, which panic when they fail, so a test passes when it returns.
  What a test draws (clock readings, fresh user ids) is an argument, so one theorem stands for
  every run of the test. The five tests of what \<^verbatim>\<open>serde\<close> derives are left out.
\<close>

section \<open>Helpers of the tests\<close>

definition test_node :: "u8 \<Rightarrow> bytes16" where
  "test_node i = (replicate 16 0)[0 := i]"

definition test_hlc :: "u64 \<Rightarrow> u32 \<Rightarrow> u8 \<Rightarrow> hlc" where
  "test_hlc wall c node =
     \<lparr>wall_clock_ms = wall, counter = c, node_id = (replicate 16 0)[0 := node]\<rparr>"

definition delta_test_hlc :: "u64 \<Rightarrow> hlc" where
  "delta_test_hlc wall = \<lparr>wall_clock_ms = wall, counter = 0, node_id = replicate 16 0\<rparr>"

section \<open>Counter\<close>

definition test_increment_and_value :: "overflow \<Rightarrow> unit exec" where
  "test_increment_and_value m =
     exec_bind (gc_increment m (test_node 1) gc_new) (\<lambda>c.
     exec_bind (gc_increment m (test_node 1) c) (\<lambda>c.
     exec_bind (gc_increment m (test_node 2) c) (\<lambda>c.
     exec_bind (gc_value m c) (\<lambda>v. check (v = 3)))))"

definition test_merge_takes_max :: "overflow \<Rightarrow> unit exec" where
  "test_merge_takes_max m =
     exec_bind (gc_increment m (test_node 1) gc_new) (\<lambda>a.
     exec_bind (gc_increment m (test_node 1) a) (\<lambda>a.
     exec_bind (gc_increment m (test_node 1) gc_new) (\<lambda>b.
     exec_bind (gc_increment m (test_node 2) b) (\<lambda>b.
     exec_bind (gc_value m (gc_merge a b)) (\<lambda>v. check (v = 3))))))"

section \<open>Clock\<close>

definition test_tick_is_monotonic :: "int \<Rightarrow> int \<Rightarrow> unit exec" where
  "test_tick_is_monotonic t1 t2 =
     exec_bind (hlc_now t1 (test_node 1)) (\<lambda>before.
     exec_bind (hlc_tick t2 before) (\<lambda>h. check (h > before)))"

definition test_rapid_ticks_increment_counter :: "int \<Rightarrow> int \<Rightarrow> unit exec" where
  "test_rapid_ticks_increment_counter t1 t2 =
     exec_bind (hlc_now t1 (test_node 1)) (\<lambda>h0.
     let wall = wall_clock_ms h0 in
     exec_bind (hlc_tick t2 h0) (\<lambda>h.
       if wall_clock_ms h = wall then check (counter h > 0) else Ret ()))"

definition test_merge_advances_past_both :: "overflow \<Rightarrow> int \<Rightarrow> int \<Rightarrow> unit exec" where
  "test_merge_advances_past_both m t1 t2 =
     exec_bind (hlc_now t1 (test_node 1)) (\<lambda>local.
     exec_bind (add_ovf m (wall_clock_ms local) 1000) (\<lambda>wall.
     let remote = \<lparr>wall_clock_ms = wall, counter = 5, node_id = test_node 2\<rparr> in
     exec_bind (hlc_merge m t2 local remote) (\<lambda>local.
     check (wall_clock_ms local \<ge> wall_clock_ms remote))))"

definition test_ordering_is_total :: "unit exec" where
  "test_ordering_is_total =
     (let a = \<lparr>wall_clock_ms = 100, counter = 0, node_id = test_node 1\<rparr>;
          b = \<lparr>wall_clock_ms = 100, counter = 0, node_id = test_node 2\<rparr>
      in check (hlc_cmp a b \<noteq> Equal))"

section \<open>Register\<close>

definition test_newer_timestamp_wins :: "unit exec" where
  "test_newer_timestamp_wins =
     (let reg = lww_set ''new'' (test_hlc 200 0 1) (lww_new ''old'' (test_hlc 100 0 1))
      in check (lww_get reg = ''new''))"

definition test_older_timestamp_ignored :: "unit exec" where
  "test_older_timestamp_ignored =
     (let reg = lww_set ''stale'' (test_hlc 100 0 1) (lww_new ''current'' (test_hlc 200 0 1))
      in check (lww_get reg = ''current''))"

definition test_merge_takes_newer :: "unit exec" where
  "test_merge_takes_newer =
     (let a = lww_new ''a'' (test_hlc 100 0 1); b = lww_new ''b'' (test_hlc 200 0 2)
      in check (lww_get (lww_merge a b) = ''b''))"

section \<open>Set\<close>

definition test_add_and_contains :: "overflow \<Rightarrow> unit exec" where
  "test_add_and_contains m =
     exec_bind (os_add m ''a'' (test_node 1) os_new) (\<lambda>set.
     exec_bind (check (os_contains ''a'' set)) (\<lambda>_. check (os_len set = 1)))"

definition test_add_then_remove :: "overflow \<Rightarrow> unit exec" where
  "test_add_then_remove m =
     exec_bind (os_add m ''a'' (test_node 1) os_new) (\<lambda>set.
     let set = os_remove ''a'' set in
     exec_bind (check (\<not> os_contains ''a'' set)) (\<lambda>_. check (os_is_empty set)))"

definition test_concurrent_add_both_present :: "overflow \<Rightarrow> unit exec" where
  "test_concurrent_add_both_present m =
     exec_bind (os_add m ''x'' (test_node 1) os_new) (\<lambda>a.
     exec_bind (os_add m ''y'' (test_node 2) os_new) (\<lambda>b.
     let a = os_merge a b in
     exec_bind (check (os_contains ''x'' a)) (\<lambda>_. check (os_contains ''y'' a))))"

definition test_concurrent_add_and_remove_add_wins :: "overflow \<Rightarrow> unit exec" where
  "test_concurrent_add_and_remove_add_wins m =
     exec_bind (os_add m ''x'' (test_node 1) os_new) (\<lambda>a.
     exec_bind (os_add m ''x'' (test_node 2) os_new) (\<lambda>b.
     let a = os_remove ''x'' a; a = os_merge a b in
     check (os_contains ''x'' a)))"

section \<open>Reaction map\<close>

definition thumbs_up :: string where
  "thumbs_up = test_emojis ! 0"

definition heart :: string where
  "heart = test_emojis ! 1"

definition test_add_and_count :: "overflow \<Rightarrow> user_id \<Rightarrow> user_id \<Rightarrow> unit exec" where
  "test_add_and_count m u1 u2 =
     exec_bind (rm_add_reaction m u1 thumbs_up (test_node 1) rm_new) (\<lambda>rm.
     exec_bind (rm_add_reaction m u2 thumbs_up (test_node 2) rm) (\<lambda>rm.
     check (map_of (rm_counts rm) thumbs_up = Some 2)))"

definition test_same_user_same_emoji_deduped :: "overflow \<Rightarrow> user_id \<Rightarrow> unit exec" where
  "test_same_user_same_emoji_deduped m u =
     exec_bind (rm_add_reaction m u thumbs_up (test_node 1) rm_new) (\<lambda>rm.
     exec_bind (rm_add_reaction m u thumbs_up (test_node 1) rm) (\<lambda>rm.
     check (map_of (rm_counts rm) thumbs_up = Some 1)))"

definition test_remove_reaction :: "overflow \<Rightarrow> user_id \<Rightarrow> unit exec" where
  "test_remove_reaction m u =
     exec_bind (rm_add_reaction m u thumbs_up (test_node 1) rm_new) (\<lambda>rm.
     check (rm_is_empty (rm_remove_reaction u thumbs_up rm)))"

definition test_user_reactions_list :: "overflow \<Rightarrow> user_id \<Rightarrow> unit exec" where
  "test_user_reactions_list m u =
     exec_bind (rm_add_reaction m u thumbs_up (test_node 1) rm_new) (\<lambda>rm.
     exec_bind (rm_add_reaction m u heart (test_node 1) rm) (\<lambda>rm.
     check (length (sort (rm_user_reactions u rm)) = 2)))"

definition test_reaction_merge_unions :: "overflow \<Rightarrow> user_id \<Rightarrow> user_id \<Rightarrow> unit exec" where
  "test_reaction_merge_unions m u1 u2 =
     exec_bind (rm_add_reaction m u1 thumbs_up (test_node 1) rm_new) (\<lambda>a.
     exec_bind (rm_add_reaction m u2 heart (test_node 2) rm_new) (\<lambda>b.
     check (length (rm_counts (rm_merge a b)) = 2)))"

section \<open>Message log\<close>

definition test_append_and_retrieve :: "unit exec" where
  "test_append_and_retrieve =
     (let h1 = test_hlc 100 0 1; h2 = test_hlc 200 0 1 in
      exec_bind (unwrap (log_append h1 [97] log_new)) (\<lambda>log.
      exec_bind (unwrap (log_append h2 [98] log)) (\<lambda>log.
      exec_bind (check (log_len log = 2)) (\<lambda>_. check (log_latest_hlc log = Some h2)))))"

definition test_entries_after_returns_delta :: "unit exec" where
  "test_entries_after_returns_delta =
     (let h1 = test_hlc 100 0 1; h2 = test_hlc 200 0 1; h3 = test_hlc 300 0 1 in
      exec_bind (unwrap (log_append h1 [97] log_new)) (\<lambda>log.
      exec_bind (unwrap (log_append h2 [98] log)) (\<lambda>log.
      exec_bind (unwrap (log_append h3 [99] log)) (\<lambda>log.
      let delta = log_entries_after h1 log in
      exec_bind (check (length delta = 2)) (\<lambda>_. check (fst (delta ! 0) = h2))))))"

definition test_log_merge_unions :: "unit exec" where
  "test_log_merge_unions =
     exec_bind (unwrap (log_append (test_hlc 100 0 1) [97] log_new)) (\<lambda>a.
     exec_bind (unwrap (log_append (test_hlc 200 0 2) [98] log_new)) (\<lambda>b.
     check (log_len (log_merge a b) = 2)))"

definition test_log_full_error :: "unit exec" where
  "test_log_full_error =
     exec_bind (exec_fold (\<lambda>i log. unwrap (log_append (test_hlc (of_nat i) 0 1) [120] log))
        [0..<MAX_LOG_ENTRIES] log_new) (\<lambda>log.
     let result = log_append (test_hlc (of_nat MAX_LOG_ENTRIES) 0 1)
        [111, 118, 101, 114, 102, 108, 111, 119] log in
     check (\<not> is_ok result))"

section \<open>Deltas\<close>

definition test_delta_hlc_accessor :: "unit exec" where
  "test_delta_hlc_accessor =
     (let h = delta_test_hlc 42;
          d = Message_Append (replicate 16 0) (replicate 16 0) [] 0 h;
          rp = Read_Position_Update (replicate 16 0) (replicate 16 0) (replicate 16 0)
      in exec_bind (check (delta_hlc d = Some h)) (\<lambda>_. check (delta_hlc rp = None)))"

definition test_batch_validation :: "unit exec" where
  "test_batch_validation =
     (let h = delta_test_hlc 1;
          empty = \<lparr>db_channel_id = replicate 16 0, db_deltas = [], db_device_hlc = h\<rparr>;
          ok = \<lparr>db_channel_id = replicate 16 0, db_deltas = [Message_Delete (replicate 16 0) h],
                db_device_hlc = h\<rparr>;
          too_large = \<lparr>db_channel_id = replicate 16 0,
                       db_deltas = map (\<lambda>_. Message_Delete (replicate 16 0) h) [0..<1001],
                       db_device_hlc = h\<rparr>
      in exec_bind (check (delta_batch_validate empty = BV_Empty)) (\<lambda>_.
         exec_bind (check (delta_batch_validate ok = BV_Ok)) (\<lambda>_.
         check (delta_batch_validate too_large = BV_Too_Large))))"

definition test_member_add_has_hlc :: "unit exec" where
  "test_member_add_has_hlc =
     (let h = delta_test_hlc 99; d = Member_Add (replicate 16 0) (replicate 16 0) h
      in check (delta_hlc d = Some h))"

section \<open>The tests on the model\<close>

lemma test_node_simps [simp]: "test_node i = i # replicate 15 0"
  by (simp add: test_node_def numeral_eq_Suc)

lemma test_hlc_simps:
  "test_hlc w c i = \<lparr>wall_clock_ms = w, counter = c, node_id = i # replicate 15 0\<rparr>"
  by (simp add: test_hlc_def numeral_eq_Suc)

lemmas gc_run = gc_increment_def gc_new_def gc_value_def gc_merge_def bt_upsert_def entry_or_def
  add_ovf_def checked_add_def

lemma gcounter_tests_pass: "test_increment_and_value m = Ret ()" "test_merge_takes_max m = Ret ()"
  by (simp_all add: test_increment_and_value_def test_merge_takes_max_def gc_run)

lemma lww_tests_pass:
  "test_newer_timestamp_wins = Ret ()" "test_older_timestamp_ignored = Ret ()"
  "test_merge_takes_newer = Ret ()"
  by (simp_all add: test_newer_timestamp_wins_def test_older_timestamp_ignored_def
      test_merge_takes_newer_def lww_set_def lww_new_def lww_get_def lww_merge_def test_hlc_simps hlc_less_iff)

lemma delta_tests_pass:
  "test_delta_hlc_accessor = Ret ()" "test_batch_validation = Ret ()" "test_member_add_has_hlc = Ret ()"
  by (simp_all add: test_delta_hlc_accessor_def test_batch_validation_def test_member_add_has_hlc_def
      delta_batch_validate_def MAX_DELTAS_PER_BATCH_def Let_def del: upt_rec_numeral upt_Suc)

lemma os_add_new:
  obtains s where "os_add m v n (os_new :: 'a orset) = Ret s" "os_ok s"
    "\<And>w. os_contains w s \<longleftrightarrow> w = v"
proof -
  have "os_seq (os_new :: 'a orset) n + 1 < 2 ^ 64" by simp
  then obtain s where s: "os_add m v n (os_new :: 'a orset) = Ret s" "os_ok s"
    using os_add_small [OF os_ok_new, of n m v] by blast
  have "\<not> os_contains w (os_new :: 'a orset)" for w by (simp add: os_contains_def os_new_def)
  with os_set.member_add [OF os_ok_new s(1)] have "os_contains w s \<longleftrightarrow> w = v" for w
    by (simp add: set_eq_iff)
  with s that show ?thesis by blast
qed

lemma os_contains_ops:
  "os_ok a \<Longrightarrow> os_ok b \<Longrightarrow> os_contains w (os_merge a b) \<longleftrightarrow> os_contains w a \<or> os_contains w b"
  "os_ok a \<Longrightarrow> os_contains w (os_remove v a) \<longleftrightarrow> w \<noteq> v \<and> os_contains w a"
  by (auto simp: os_contains_dots os_dots_merge)

lemma orset_tests_pass:
  "test_add_and_contains m = Ret ()" "test_add_then_remove m = Ret ()"
  "test_concurrent_add_both_present m = Ret ()" "test_concurrent_add_and_remove_add_wins m = Ret ()"
proof -
  obtain a where a: "os_add m ''a'' (test_node 1) os_new = Ret a" "os_ok a" "\<And>w. os_contains w a \<longleftrightarrow> w = ''a''"
    using os_add_new by metis
  show "test_add_and_contains m = Ret ()" "test_add_then_remove m = Ret ()"
    using a(1) unfolding test_add_and_contains_def test_add_then_remove_def
    by (simp_all del: test_node_simps add: a(2,3) os_len_members os_is_empty_members os_ok_remove os_contains_ops Let_def)
  obtain x where x: "os_add m ''x'' (test_node 1) os_new = Ret x" "os_ok x" "\<And>w. os_contains w x \<longleftrightarrow> w = ''x''"
    using os_add_new by metis
  obtain y where y: "os_add m ''y'' (test_node 2) os_new = Ret y" "os_ok y" "\<And>w. os_contains w y \<longleftrightarrow> w = ''y''"
    using os_add_new by metis
  obtain x' where x': "os_add m ''x'' (test_node 2) os_new = Ret x'" "os_ok x'" "\<And>w. os_contains w x' \<longleftrightarrow> w = ''x''"
    using os_add_new by metis
  show "test_concurrent_add_both_present m = Ret ()" "test_concurrent_add_and_remove_add_wins m = Ret ()"
    using x(1) y(1) x'(1)
    unfolding test_concurrent_add_both_present_def test_concurrent_add_and_remove_add_wins_def
    by (simp_all del: test_node_simps add: x(2,3) y(2,3) x'(2,3) os_ok_remove os_contains_ops Let_def)
qed

lemma rm_add_small:
  assumes "rm_ok r" "os_seq (rm_reactions r) n + 1 < 2 ^ 64"
  obtains r' where "rm_add_reaction m u e n r = Ret r'" "rm_ok r'"
    "\<And>u' e'. reacted r' u' e' \<longleftrightarrow> (u', e') = (u, e) \<or> reacted r u' e'"
    "\<And>n'. os_seq (rm_reactions r') n' \<le> os_seq (rm_reactions r) n' + 1"
proof -
  obtain s where s: "os_add m (u, e) n (rm_reactions r) = Ret s"
    "\<And>n'. os_seq s n' \<le> os_seq (rm_reactions r) n' + 1"
    using os_add_small [of "rm_reactions r" n m "(u, e)"] assms by (auto simp: rm_ok_def)
  then have "rm_add_reaction m u e n r = Ret (r\<lparr>rm_reactions := s\<rparr>)"
    by (simp add: rm_add_reaction_def)
  with that s(2) reacted_add [OF this assms(1)] rm_ok_ops(2) [OF this assms(1)] show ?thesis by simp
qed

lemma rm_seq_new [simp]: "os_seq (rm_reactions rm_new) n = 0"
  by (simp add: rm_new_def)

lemma rm_add_new:
  obtains r where "rm_add_reaction m u e n rm_new = Ret r" "rm_ok r"
    "\<And>u' e'. reacted r u' e' \<longleftrightarrow> u' = u \<and> e' = e" "\<And>n'. os_seq (rm_reactions r) n' \<le> 1"
  using rm_add_small [OF rm_ok_ops(1), of n m u e] by (auto simp: reacted_new)

text \<open>An addition to the map of one addition.\<close>

lemma rm_add_two:
  obtains r r' where "rm_add_reaction m u e n rm_new = Ret r" "rm_add_reaction m u2 e2 n2 r = Ret r'"
    "rm_ok r'" "\<And>u' e'. reacted r' u' e' \<longleftrightarrow> (u', e') \<in> {(u, e), (u2, e2)}"
proof -
  obtain r where r: "rm_add_reaction m u e n rm_new = Ret r" "rm_ok r"
    "\<And>u' e'. reacted r u' e' \<longleftrightarrow> u' = u \<and> e' = e" "\<And>n'. os_seq (rm_reactions r) n' \<le> 1"
    using rm_add_new by metis
  have "os_seq (rm_reactions r) n2 + 1 < 2 ^ 64" using r(4) [of n2] by simp
  then obtain r' where "rm_add_reaction m u2 e2 n2 r = Ret r'" "rm_ok r'"
    "\<And>u' e'. reacted r' u' e' \<longleftrightarrow> (u', e') = (u2, e2) \<or> reacted r u' e'"
    using rm_add_small [OF r(2)] by metis
  with r(3) show ?thesis by (intro that [OF r(1)]) auto
qed

lemma emoji_distinct: "thumbs_up \<noteq> heart"
  by (simp add: thumbs_up_def heart_def test_emojis_def)

lemma rm_counts_Some:
  assumes "rm_ok r" "reactors r e = A" "A \<noteq> {}"
  shows "map_of (rm_counts r) e = Some (card A)"
  using assms by (simp add: rm_counts_eq)

lemma rm_counts_length: "rm_ok r \<Longrightarrow> length (rm_counts r) = card {e. reactors r e \<noteq> {}}"
proof -
  assume ok: "rm_ok r"
  have "bt_ok (rm_counts r)" by (simp add: rm_counts_def bt_ok_count_loop)
  then have "length (rm_counts r) = card (dom (map_of (rm_counts r)))" by (simp add: bt_card_dom)
  also have "dom (map_of (rm_counts r)) = {e. reactors r e \<noteq> {}}"
    by (auto simp: dom_def rm_counts_eq [OF ok])
  finally show ?thesis .
qed

lemma reaction_tests_pass:
  assumes "u1 \<noteq> u2"
  shows "test_add_and_count m u1 u2 = Ret ()" "test_same_user_same_emoji_deduped m u1 = Ret ()"
    "test_remove_reaction m u1 = Ret ()" "test_user_reactions_list m u1 = Ret ()"
    "test_reaction_merge_unions m u1 u2 = Ret ()"
proof -
  obtain a b where ab: "rm_add_reaction m u1 thumbs_up (test_node 1) rm_new = Ret a"
    "rm_add_reaction m u2 thumbs_up (test_node 2) a = Ret b" "rm_ok b"
    "\<And>u e. reacted b u e \<longleftrightarrow> (u, e) \<in> {(u1, thumbs_up), (u2, thumbs_up)}"
    using rm_add_two by metis
  then have "reactors b thumbs_up = {u1, u2}" by (auto simp: reactors_def)
  from rm_counts_Some [OF ab(3) this] show "test_add_and_count m u1 u2 = Ret ()"
    using ab(1,2) assms by (simp add: test_add_and_count_def del: test_node_simps)
  obtain a' b' where ab': "rm_add_reaction m u1 thumbs_up (test_node 1) rm_new = Ret a'"
    "rm_add_reaction m u1 thumbs_up (test_node 1) a' = Ret b'" "rm_ok b'"
    "\<And>u e. reacted b' u e \<longleftrightarrow> (u, e) \<in> {(u1, thumbs_up), (u1, thumbs_up)}"
    using rm_add_two by metis
  then have "reactors b' thumbs_up = {u1}" by (auto simp: reactors_def)
  from rm_counts_Some [OF ab'(3) this] show "test_same_user_same_emoji_deduped m u1 = Ret ()"
    using ab'(1,2) by (simp add: test_same_user_same_emoji_deduped_def del: test_node_simps)
  obtain r where r: "rm_add_reaction m u1 thumbs_up (test_node 1) rm_new = Ret r" "rm_ok r"
    "\<And>u e. reacted r u e \<longleftrightarrow> u = u1 \<and> e = thumbs_up"
    using rm_add_new by metis
  have "rm_is_empty (rm_remove_reaction u1 thumbs_up r)"
    using r(2) by (simp add: rm_is_empty_reacted rm_ok_ops(3) reacted_remove r(3))
  then show "test_remove_reaction m u1 = Ret ()"
    using r(1) by (simp add: test_remove_reaction_def del: test_node_simps)
  obtain c d where cd: "rm_add_reaction m u1 thumbs_up (test_node 1) rm_new = Ret c"
    "rm_add_reaction m u1 heart (test_node 1) c = Ret d" "rm_ok d"
    "\<And>u e. reacted d u e \<longleftrightarrow> (u, e) \<in> {(u1, thumbs_up), (u1, heart)}"
    using rm_add_two by metis
  then have "set (rm_user_reactions u1 d) = {thumbs_up, heart}"
    by (auto simp: rm_user_reactions_set)
  then have "length (rm_user_reactions u1 d) = 2"
    using distinct_card [OF rm_user_reactions_distinct [OF cd(3), of u1]] emoji_distinct by simp
  then show "test_user_reactions_list m u1 = Ret ()"
    using cd(1,2) by (simp add: test_user_reactions_list_def del: test_node_simps)
  obtain h where h: "rm_add_reaction m u2 heart (test_node 2) rm_new = Ret h" "rm_ok h"
    "\<And>u e. reacted h u e \<longleftrightarrow> u = u2 \<and> e = heart"
    using rm_add_new by metis
  have "{e. reactors (rm_merge r h) e \<noteq> {}} = {thumbs_up, heart}"
    using r(2,3) h(2,3) by (auto simp: reactors_def reacted_merge)
  then have "length (rm_counts (rm_merge r h)) = 2"
    using r(2) h(2) emoji_distinct by (simp add: rm_counts_length rm_ok_ops(4))
  then show "test_reaction_merge_unions m u1 u2 = Ret ()"
    using r(1) h(1) by (simp add: test_reaction_merge_unions_def del: test_node_simps)
qed

lemma hlc_now_Ret:
  "hlc_now t n = Ret h \<longleftrightarrow> 0 \<le> t \<and> t div 1000000 < 2 ^ 64 \<and>
    h = \<lparr>wall_clock_ms = of_nat (nat (t div 1000000)), counter = 0, node_id = n\<rparr>"
  by (auto simp: hlc_now_def exec_bind_eq_Ret system_time_ms_Ret)

text \<open>A reading of the system clock that \<^verbatim>\<open>now\<close> accepts.\<close>

definition readable :: "int \<Rightarrow> bool" where
  "readable t \<longleftrightarrow> 0 \<le> t \<and> t div 1000000 < 2 ^ 64"

lemma readable_now: "readable t \<Longrightarrow> system_time_ms t = Ret (of_nat (nat (t div 1000000)))"
  by (simp add: readable_def system_time_ms_Ret)

lemma tick_from_zero:
  assumes "readable t" "counter h = 0"
  obtains h' where "hlc_tick t h = Ret h'" "h < h'" "wall_clock_ms h' = wall_clock_ms h \<Longrightarrow> counter h' > 0"
proof -
  note now = readable_now [OF assms(1)]
  have "\<exists>h'. hlc_tick t h = Ret h'"
    using assms(2) by (auto simp: hlc_tick_def now checked_add_def)
  then obtain h' where h': "hlc_tick t h = Ret h'" ..
  from hlc_tick_step [OF now h'] have "stamp h < stamp h'" by simp
  with h' assms(2) show ?thesis
    by (intro that [of h']) (auto simp: stamp_less_imp stamp_less_iff)
qed

lemma hlc_tests_pass:
  assumes "readable t1" "readable t2"
  shows "test_tick_is_monotonic t1 t2 = Ret ()" "test_rapid_ticks_increment_counter t1 t2 = Ret ()"
    "t1 div 1000000 + 1000 < 2 ^ 64 \<Longrightarrow> test_merge_advances_past_both m t1 t2 = Ret ()"
    "test_ordering_is_total = Ret ()"
proof -
  define h where "h = \<lparr>wall_clock_ms = of_nat (nat (t1 div 1000000)), counter = 0, node_id = test_node 1\<rparr>"
  have now: "hlc_now t1 (test_node 1) = Ret h"
    using assms(1) by (simp add: hlc_now_Ret h_def readable_def)
  obtain h' where "hlc_tick t2 h = Ret h'" "h < h'" "wall_clock_ms h' = wall_clock_ms h \<Longrightarrow> counter h' > 0"
    using tick_from_zero [OF assms(2), of h] by (auto simp: h_def)
  then show "test_tick_is_monotonic t1 t2 = Ret ()" "test_rapid_ticks_increment_counter t1 t2 = Ret ()"
    by (simp_all add: test_tick_is_monotonic_def test_rapid_ticks_increment_counter_def now Let_def
        del: test_node_simps)
  show "test_ordering_is_total = Ret ()"
    by (simp add: test_ordering_is_total_def hlc_cmp_order)
  assume small: "t1 div 1000000 + 1000 < 2 ^ 64"
  let ?wall = "wall_clock_ms h + 1000"
  let ?r = "\<lparr>wall_clock_ms = ?wall, counter = 5, node_id = test_node 2\<rparr>"
  have "0 \<le> t1 div 1000000" using assms(1) by (simp add: readable_def pos_imp_zdiv_nonneg_iff)
  then have "uint (wall_clock_ms h) = t1 div 1000000"
    using unat_system_time [OF readable_now [OF assms(1)]] by (simp add: h_def)
  with small have "int (unat (wall_clock_ms h) + 1000) < 2 ^ 64" by simp
  then have "unat (wall_clock_ms h) + 1000 < 2 ^ 64"
    by (metis of_nat_less_iff of_nat_numeral of_nat_power)
  then have fits: "unat (wall_clock_ms h) + unat (1000 :: u64) < 2 ^ LENGTH(64)" by simp
  note sum = add_ovf_fits [OF fits, of m]
  from unat_add_no_overflow [OF fits] have less: "wall_clock_ms h < ?wall"
    by (simp add: word_less_nat_alt)
  have "add_ovf m (5 :: u32) 1 = Ret 6" by (simp add: add_ovf_def checked_add_def)
  moreover have "max (max now (wall_clock_ms h)) ?wall \<noteq> wall_clock_ms h" for now
    using less by (auto simp: max_def)
  ultimately have "\<exists>l. hlc_merge m t2 h ?r = Ret l"
    by (simp add: hlc_merge_def Let_def readable_now [OF assms(2)])
  then obtain l where l: "hlc_merge m t2 h ?r = Ret l" ..
  then have "wall_clock_ms l \<ge> ?wall"
    using hlc_merge_frame [OF readable_now [OF assms(2)] l] by simp
  with l show "test_merge_advances_past_both m t1 t2 = Ret ()"
    by (simp add: test_merge_advances_past_both_def now sum Let_def del: test_node_simps)
qed

lemma exec_fold_snoc: "exec_fold f (xs @ [x]) a = exec_bind (exec_fold f xs a) (f x)"
proof (induction xs arbitrary: a)
  case Nil
  show ?case by (cases "f x a") simp_all
next
  case (Cons y ys)
  show ?case by (cases "f y a") (simp_all add: Cons.IH)
qed

text \<open>
  The clocks of the loop of \<^verbatim>\<open>log_full_error\<close> are distinct, so every append adds an entry and
  the log is full exactly when the loop ends.
\<close>

lemma log_fill:
  "n \<le> MAX_LOG_ENTRIES \<Longrightarrow>
   \<exists>l. exec_fold (\<lambda>i l. unwrap (log_append (test_hlc (of_nat i) 0 1) d l)) [0..<n] log_new = Ret l \<and>
     log_ok l \<and> log_len l = n \<and> dom (log_map l) = (\<lambda>i. test_hlc (of_nat i) 0 1) ` {..<n}"
proof (induction n)
  case 0
  show ?case by (simp add: log_ok_new) (simp add: log_new_def log_len_def)
next
  case (Suc n)
  let ?h = "\<lambda>i. test_hlc (of_nat i) 0 1"
  obtain l where l: "exec_fold (\<lambda>i l. unwrap (log_append (?h i) d l)) [0..<n] log_new = Ret l"
    "log_ok l" "log_len l = n" "dom (log_map l) = ?h ` {..<n}"
    using Suc.IH Suc_leD [OF Suc.prems] by blast
  obtain l' where l': "log_append (?h n) d l = Ok l'"
    using l(3) Suc.prems by (simp add: log_append_Ok)
  have inj: "?h i \<noteq> ?h n" if "i < n" for i
  proof
    assume "?h i = ?h n"
    then have "(of_nat i :: u64) = of_nat n" by (simp add: test_hlc_def)
    moreover have "i < 2 ^ 64" "n < 2 ^ 64" using that Suc.prems by (simp_all add: MAX_LOG_ENTRIES_def)
    ultimately have "u64_try_from i = Some (of_nat n)" "u64_try_from n = Some (of_nat n)"
      by (simp_all only: u64_try_from_def if_True)
    then have "i = n" using try_from_SomeD(2) by blast
    with that show False by simp
  qed
  note ok = log_ok_append [OF l' l(2)]
  have dom: "dom (log_map l') = ?h ` {..<Suc n}"
    unfolding log_map_append [OF l'] dom_fun_upd lessThan_Suc image_insert l(4) by simp
  have "?h n \<notin> dom (log_map l)" unfolding l(4) by (rule, erule imageE) (use inj in \<open>metis lessThan_iff\<close>)
  then have "card (dom (log_map l')) = Suc (card (dom (log_map l)))"
    by (simp add: log_map_append [OF l'] card_insert_if)
  then have "log_len l' = Suc n" using log_card_dom [OF ok] log_card_dom [OF l(2)] l(3) by simp
  with l(1) l' ok dom show ?case
    by (intro exI [of _ l'] conjI) (simp_all add: exec_fold_snoc)
qed

lemma log_tests_pass:
  "test_append_and_retrieve = Ret ()" "test_entries_after_returns_delta = Ret ()"
  "test_log_merge_unions = Ret ()" "test_log_full_error = Ret ()"
proof -
  note run = log_append_def log_new_def MAX_LOG_ENTRIES_def test_hlc_simps hlc_less_iff Let_def
  show "test_append_and_retrieve = Ret ()" "test_entries_after_returns_delta = Ret ()"
    "test_log_merge_unions = Ret ()"
    by (simp_all add: test_append_and_retrieve_def test_entries_after_returns_delta_def run
        test_log_merge_unions_def log_len_def log_latest_hlc_def log_entries_after_def bt_after_def
        log_merge_def bt_upsert_def)
  obtain l where "exec_fold (\<lambda>i l. unwrap (log_append (test_hlc (of_nat i) 0 1) [120] l))
      [0..<MAX_LOG_ENTRIES] log_new = Ret l" "log_len l = MAX_LOG_ENTRIES"
    using log_fill [OF order_refl] by blast
  then show "test_log_full_error = Ret ()"
    by (simp add: test_log_full_error_def log_append_def log_len_def)
qed

section \<open>All of them\<close>

definition crdt_unit_tests :: "overflow \<Rightarrow> int \<Rightarrow> int \<Rightarrow> user_id \<Rightarrow> user_id \<Rightarrow> unit exec list" where
  "crdt_unit_tests m t1 t2 u1 u2 =
     [test_increment_and_value m, test_merge_takes_max m,
      test_tick_is_monotonic t1 t2, test_rapid_ticks_increment_counter t1 t2,
      test_merge_advances_past_both m t1 t2, test_ordering_is_total,
      test_newer_timestamp_wins, test_older_timestamp_ignored, test_merge_takes_newer,
      test_add_and_contains m, test_add_then_remove m, test_concurrent_add_both_present m,
      test_concurrent_add_and_remove_add_wins m,
      test_add_and_count m u1 u2, test_same_user_same_emoji_deduped m u1, test_remove_reaction m u1,
      test_user_reactions_list m u1, test_reaction_merge_unions m u1 u2,
      test_append_and_retrieve, test_entries_after_returns_delta, test_log_merge_unions,
      test_log_full_error,
      test_delta_hlc_accessor, test_batch_validation, test_member_add_has_hlc]"

text \<open>
  The 25 tests translated here (all of the crate but the five of derived JSON and MessagePack)
  pass, with overflow checks or without, for any two distinct user ids a test draws and any two
  readings of the system clock, even when the clock goes back between them, as long as they are
  not before the epoch and a second before the end of the 64-bit range.
\<close>

theorem crdt_unit_tests_pass:
  assumes "0 \<le> t1" "t1 div 1000000 + 1000 < 2 ^ 64" "0 \<le> t2" "t2 div 1000000 < 2 ^ 64" "u1 \<noteq> u2"
  shows "list_all (\<lambda>test. test = Ret ()) (crdt_unit_tests m t1 t2 u1 u2)"
proof -
  have "readable t1" "readable t2" using assms by (simp_all add: readable_def)
  note hlc = hlc_tests_pass(1,2,4) [OF this] hlc_tests_pass(3) [OF this assms(2)]
  show ?thesis
    by (simp only: crdt_unit_tests_def list.pred_inject gcounter_tests_pass hlc lww_tests_pass
        orset_tests_pass reaction_tests_pass [OF assms(5)] log_tests_pass delta_tests_pass simp_thms)
qed

text \<open>With a clock that stands at 1970-01-01 00:00:01 and then steps back.\<close>

theorem crdt_unit_tests_pass_witness:
  "list_all (\<lambda>test. test = Ret ())
     (crdt_unit_tests Checked 1000000000 999000000 (User_Id (replicate 16 1)) (User_Id (replicate 16 2)))"
  by (rule crdt_unit_tests_pass) simp_all

end
