(* ===== verification/Core_Tests.thy ===== *)
theory Core_Tests
  imports Message Channel Tenant Time_Bucket Proto Stubs
begin

text \<open>
  The unit tests in the files of \<^verbatim>\<open>mercury-core/src\<close>, run on the model like those of
  \<^verbatim>\<open>mercury-crdt\<close>. The random ids a test draws are a sequence of byte strings; the text form
  of ids and the Cap'n Proto runtime are the parameters of the model, so that the tests pass for
  every crate that keeps its laws. Left out are \<^verbatim>\<open>message_id_has_timestamp\<close>, which reads
  the system clock around the generator of the \<^verbatim>\<open>ulid\<close> crate, and
  \<^verbatim>\<open>envelope_is_compact\<close>, which measures the encoder of the \<^verbatim>\<open>capnp\<close> crate.
\<close>

section \<open>Channels\<close>

definition make_channel :: "(nat \<Rightarrow> bytes16) \<Rightarrow> channel_type \<Rightarrow> string option \<Rightarrow> channel" where
  "make_channel fresh ty name =
     \<lparr>ch_tenant_id = tenant_id_new (fresh 0), ch_id = channel_id_new (fresh 1), ch_channel_type = ty,
      ch_name = name, ch_member_ids = [], ch_created_by = user_id_new (fresh 2),
      ch_created_at = 1700000000000\<rparr>"

text \<open>The next \<open>n\<close> user ids drawn after those of the channel.\<close>

definition new_users :: "(nat \<Rightarrow> bytes16) \<Rightarrow> nat \<Rightarrow> user_id list" where
  "new_users fresh n = map (\<lambda>i. user_id_new (fresh (3 + i))) [0..<n]"

definition expect_channel :: "bool \<Rightarrow> channel \<Rightarrow> unit exec" where
  "expect_channel ok ch = exec_bind (channel_validate ch) (\<lambda>r. check (is_ok r = ok))"

definition test_valid_dm :: "(nat \<Rightarrow> bytes16) \<Rightarrow> unit exec" where
  "test_valid_dm fresh = expect_channel True (make_channel fresh Dm None)"

definition test_dm_with_name_rejected :: "(nat \<Rightarrow> bytes16) \<Rightarrow> unit exec" where
  "test_dm_with_name_rejected fresh = expect_channel False (make_channel fresh Dm (Some ''oops''))"

definition test_valid_group :: "(nat \<Rightarrow> bytes16) \<Rightarrow> unit exec" where
  "test_valid_group fresh = expect_channel True (make_channel fresh Group (Some ''general''))"

definition test_group_without_name_rejected :: "(nat \<Rightarrow> bytes16) \<Rightarrow> unit exec" where
  "test_group_without_name_rejected fresh = expect_channel False (make_channel fresh Group None)"

definition test_name_too_long_rejected :: "(nat \<Rightarrow> bytes16) \<Rightarrow> unit exec" where
  "test_name_too_long_rejected fresh =
     expect_channel False
       (make_channel fresh Group (Some (concat (replicate (MAX_NAME_LEN + 1) ''a''))))"

definition test_empty_name_rejected :: "(nat \<Rightarrow> bytes16) \<Rightarrow> unit exec" where
  "test_empty_name_rejected fresh = expect_channel False (make_channel fresh Group (Some []))"

definition test_dm_with_two_members_valid :: "(nat \<Rightarrow> bytes16) \<Rightarrow> unit exec" where
  "test_dm_with_two_members_valid fresh =
     expect_channel True ((make_channel fresh Dm None)\<lparr>ch_member_ids := new_users fresh 2\<rparr>)"

definition test_dm_with_one_member_rejected :: "(nat \<Rightarrow> bytes16) \<Rightarrow> unit exec" where
  "test_dm_with_one_member_rejected fresh =
     expect_channel False ((make_channel fresh Dm None)\<lparr>ch_member_ids := new_users fresh 1\<rparr>)"

definition test_dm_with_three_members_rejected :: "(nat \<Rightarrow> bytes16) \<Rightarrow> unit exec" where
  "test_dm_with_three_members_rejected fresh =
     expect_channel False ((make_channel fresh Dm None)\<lparr>ch_member_ids := new_users fresh 3\<rparr>)"

definition test_group_exceeding_max_members_rejected :: "(nat \<Rightarrow> bytes16) \<Rightarrow> unit exec" where
  "test_group_exceeding_max_members_rejected fresh =
     expect_channel False
       ((make_channel fresh Group (Some ''big''))\<lparr>ch_member_ids := new_users fresh 1001\<rparr>)"

definition test_group_at_max_members_valid :: "(nat \<Rightarrow> bytes16) \<Rightarrow> unit exec" where
  "test_group_at_max_members_valid fresh =
     expect_channel True
       ((make_channel fresh Group (Some ''big''))\<lparr>ch_member_ids := new_users fresh 1000\<rparr>)"

section \<open>Messages and tenants\<close>

definition make_message :: "(nat \<Rightarrow> bytes16) \<Rightarrow> bytes \<Rightarrow> content_type \<Rightarrow> message" where
  "make_message fresh content ty =
     \<lparr>msg_tenant_id = tenant_id_new (fresh 0), msg_channel_id = channel_id_new (fresh 1),
      msg_id = message_id_new (fresh 2), msg_sender_id = user_id_new (fresh 3),
      msg_encrypted_content = content, msg_content_type = ty, msg_reply_to = None,
      msg_created_at = 1700000000000, msg_edited_at = None, msg_server_received_at = None\<rparr>"

definition expect_message :: "bool \<Rightarrow> message \<Rightarrow> unit exec" where
  "expect_message ok msg = exec_bind (message_validate msg) (\<lambda>r. check (is_ok r = ok))"

definition test_valid_text_message :: "(nat \<Rightarrow> bytes16) \<Rightarrow> unit exec" where
  "test_valid_text_message fresh =
     expect_message True (make_message fresh [104, 101, 108, 108, 111] Text)"

definition test_empty_content_rejected :: "(nat \<Rightarrow> bytes16) \<Rightarrow> unit exec" where
  "test_empty_content_rejected fresh = expect_message False (make_message fresh [] Text)"

definition test_empty_content_ok_for_delete :: "(nat \<Rightarrow> bytes16) \<Rightarrow> unit exec" where
  "test_empty_content_ok_for_delete fresh = expect_message True (make_message fresh [] Delete)"

definition test_oversized_content_rejected :: "(nat \<Rightarrow> bytes16) \<Rightarrow> unit exec" where
  "test_oversized_content_rejected fresh =
     expect_message False (make_message fresh (replicate (MAX_CONTENT_SIZE + 1) 0) Text)"

definition test_self_reply_rejected :: "(nat \<Rightarrow> bytes16) \<Rightarrow> unit exec" where
  "test_self_reply_rejected fresh =
     (let msg = make_message fresh [104, 101, 108, 108, 111] Text
      in expect_message False (msg\<lparr>msg_reply_to := Some (msg_id msg)\<rparr>))"

definition test_default_limits :: "(nat \<Rightarrow> bytes16) \<Rightarrow> unit exec" where
  "test_default_limits fresh =
     (let ctx = tenant_context_new (tenant_id_new (fresh 0)) in
      exec_bind (check (tc_max_users ctx = 1000)) (\<lambda>_.
      exec_bind (check (tc_rate_limit_per_user ctx = 100)) (\<lambda>_.
      check (tc_signup_mode ctx = Open))))"

section \<open>Time buckets\<close>

definition test_known_timestamp :: "unit exec" where
  "test_known_timestamp =
     (let ts = 1704067200000 in
      exec_bind (tb_from_timestamp_ms ts) (\<lambda>bucket.
      let expected_days = ts div MS_PER_DAY;
          expected_bucket = expected_days div DAYS_PER_BUCKET
      in check ((ucast (tb_as_u32 bucket) :: u64) = expected_bucket)))"

definition test_same_bucket_within_10_days :: "unit exec" where
  "test_same_bucket_within_10_days =
     (let bucket_start = 1972 * DAYS_PER_BUCKET * MS_PER_DAY;
          day9 = bucket_start + 9 * MS_PER_DAY in
      exec_bind (tb_from_timestamp_ms bucket_start) (\<lambda>a.
      exec_bind (tb_from_timestamp_ms day9) (\<lambda>b. check (a = b))))"

definition test_different_bucket_after_10_days :: "unit exec" where
  "test_different_bucket_after_10_days =
     (let bucket_start = 1972 * DAYS_PER_BUCKET * MS_PER_DAY;
          day10 = bucket_start + 10 * MS_PER_DAY in
      exec_bind (tb_from_timestamp_ms bucket_start) (\<lambda>a.
      exec_bind (tb_from_timestamp_ms day10) (\<lambda>b. check (a \<noteq> b))))"

definition test_from_message_id :: "(bytes16 \<Rightarrow> u64) \<Rightarrow> (nat \<Rightarrow> bytes16) \<Rightarrow> unit exec" where
  "test_from_message_id ulid_timestamp fresh =
     (let id = message_id_new (fresh 0) in
      exec_bind (tb_from_message_id ulid_timestamp id) (\<lambda>bucket_from_id.
      exec_bind (tb_from_timestamp_ms (message_id_timestamp_ms ulid_timestamp id)) (\<lambda>bucket_from_ts.
      check (bucket_from_id = bucket_from_ts))))"

section \<open>Identifiers\<close>

definition test_tenant_id_roundtrip :: "'e id_text \<Rightarrow> (nat \<Rightarrow> bytes16) \<Rightarrow> unit exec" where
  "test_tenant_id_roundtrip uuid fresh =
     (let id = tenant_id_new (fresh 0); s = tenant_id_fmt uuid id in
      exec_bind (unwrap (tenant_id_from_str uuid s)) (\<lambda>parsed. check (id = parsed)))"

definition test_tenant_id_bytes_roundtrip :: "(nat \<Rightarrow> bytes16) \<Rightarrow> unit exec" where
  "test_tenant_id_bytes_roundtrip fresh =
     (let id = tenant_id_new (fresh 0); bytes = tenant_id_as_bytes id;
          restored = tenant_id_from_bytes bytes
      in check (id = restored))"

definition test_message_id_roundtrip :: "'e id_text \<Rightarrow> (nat \<Rightarrow> bytes16) \<Rightarrow> unit exec" where
  "test_message_id_roundtrip ulid fresh =
     (let id = message_id_new (fresh 0); s = message_id_fmt ulid id in
      exec_bind (unwrap (message_id_from_str ulid s)) (\<lambda>parsed. check (id = parsed)))"

definition test_message_id_bytes_roundtrip :: "(nat \<Rightarrow> bytes16) \<Rightarrow> unit exec" where
  "test_message_id_bytes_roundtrip fresh =
     (let id = message_id_new (fresh 0); bytes = message_id_as_bytes id;
          restored = message_id_from_bytes bytes
      in check (id = restored))"

definition test_message_id_ordering :: "(nat \<Rightarrow> bytes16) \<Rightarrow> unit exec" where
  "test_message_id_ordering fresh =
     (let a = message_id_new (fresh 0); b = message_id_new (fresh 1) in check (a < b))"

definition test_channel_id_roundtrip :: "'e id_text \<Rightarrow> (nat \<Rightarrow> bytes16) \<Rightarrow> unit exec" where
  "test_channel_id_roundtrip uuid fresh =
     (let id = channel_id_new (fresh 0); s = channel_id_fmt uuid id in
      exec_bind (unwrap (channel_id_from_str uuid s)) (\<lambda>parsed. check (id = parsed)))"

definition test_user_id_roundtrip :: "(nat \<Rightarrow> bytes16) \<Rightarrow> unit exec" where
  "test_user_id_roundtrip fresh =
     (let id = user_id_new (fresh 0); bytes = user_id_as_bytes id;
          restored = user_id_from_bytes bytes
      in check (id = restored))"

definition test_device_id_roundtrip :: "'e id_text \<Rightarrow> (nat \<Rightarrow> bytes16) \<Rightarrow> unit exec" where
  "test_device_id_roundtrip uuid fresh =
     (let id = device_id_new (fresh 0); s = device_id_fmt uuid id in
      exec_bind (unwrap (device_id_from_str uuid s)) (\<lambda>parsed. check (id = parsed)))"

section \<open>Wire format\<close>

definition test_roundtrip_envelope :: "('b, 'm, 'r, 'l, 'e) capnp \<Rightarrow> unit exec" where
  "test_roundtrip_envelope api =
     (let tid = replicate 16 1; cid = replicate 16 2; sid = replicate 16 3; mid = replicate 16 4;
          ts = 1700000000000; payload = [104, 101, 108, 108, 111, 32, 99, 97, 112, 110, 112] in
      exec_bind (envelope_encode api tid cid sid mid ts payload) (\<lambda>encoded.
      exec_bind (unwrap (envelope_decode api encoded)) (\<lambda>decoded.
      exec_bind (check (de_tenant_id decoded = tid)) (\<lambda>_.
      exec_bind (check (de_channel_id decoded = cid)) (\<lambda>_.
      exec_bind (check (de_sender_id decoded = sid)) (\<lambda>_.
      exec_bind (check (de_message_id decoded = mid)) (\<lambda>_.
      exec_bind (check (de_timestamp decoded = ts)) (\<lambda>_.
      check (de_payload decoded = payload)))))))))"

definition test_roundtrip_typing :: "('b, 'm, 'r, 'l, 'e) capnp \<Rightarrow> unit exec" where
  "test_roundtrip_typing api =
     (let uid = replicate 16 7 in
      exec_bind (typing_encode api uid) (\<lambda>encoded.
      exec_bind (unwrap (typing_decode api encoded)) (\<lambda>decoded. check (decoded = uid))))"

definition test_roundtrip_read_receipt :: "('b, 'm, 'r, 'l, 'e) capnp \<Rightarrow> unit exec" where
  "test_roundtrip_read_receipt api =
     (let uid = replicate 16 8; mid = replicate 16 9 in
      exec_bind (read_receipt_encode api uid mid) (\<lambda>encoded.
      exec_bind (unwrap (read_receipt_decode api encoded)) (\<lambda>decoded.
      exec_bind (check (dr_user_id decoded = uid)) (\<lambda>_. check (dr_message_id decoded = mid)))))"

definition test_roundtrip_mls_key_package :: "('b, 'm, 'r, 'l, 'e) capnp \<Rightarrow> unit exec" where
  "test_roundtrip_mls_key_package api =
     (let kp = replicate 256 42 in
      exec_bind (mls_key_package_encode api kp) (\<lambda>encoded.
      exec_bind (unwrap (mls_key_package_decode api encoded)) (\<lambda>decoded. check (decoded = kp))))"

definition test_roundtrip_mls_key_package_list :: "('b, 'm, 'r, 'l, 'e) capnp \<Rightarrow> unit exec" where
  "test_roundtrip_mls_key_package_list api =
     (let pkgs = [replicate 64 1, replicate 128 2] in
      exec_bind (mls_key_package_list_encode api pkgs) (\<lambda>encoded.
      exec_bind (unwrap (mls_key_package_list_decode api encoded)) (\<lambda>decoded.
      check (decoded = pkgs))))"

definition test_roundtrip_mls_commit :: "('b, 'm, 'r, 'l, 'e) capnp \<Rightarrow> unit exec" where
  "test_roundtrip_mls_commit api =
     (let commit = replicate 100 55 in
      exec_bind (mls_commit_encode api commit) (\<lambda>encoded.
      exec_bind (unwrap (mls_commit_decode api encoded)) (\<lambda>decoded. check (decoded = commit))))"

definition test_roundtrip_mls_welcome :: "('b, 'm, 'r, 'l, 'e) capnp \<Rightarrow> unit exec" where
  "test_roundtrip_mls_welcome api =
     (let welcome = replicate 200 66; uid = replicate 16 77 in
      exec_bind (mls_welcome_encode api welcome uid) (\<lambda>encoded.
      exec_bind (unwrap (mls_welcome_decode api encoded)) (\<lambda>decoded.
      exec_bind (check (dw_welcome decoded = welcome)) (\<lambda>_. check (dw_user_id decoded = uid)))))"

section \<open>The tests on the model\<close>

text \<open>A validation test passes when its object keeps the rules, or does not.\<close>

lemma expect_channel_rules:
  "ch_created_at ch \<noteq> 0 \<Longrightarrow> expect_channel ok ch = Ret () \<longleftrightarrow> channel_rules ch = ok"
  using channel_validate_cases [of ch]
  by (cases "channel_rules ch") (auto simp: expect_channel_def)

lemma expect_message_rules:
  "msg_created_at m \<noteq> 0 \<Longrightarrow> expect_message ok m = Ret () \<longleftrightarrow> message_rules m = ok"
  by (simp add: expect_message_def message_validate_cases)

lemma length_concat_units: "length (concat (replicate n [c])) = n"
  by (induction n) simp_all

lemma channel_tests_pass:
  "test_valid_dm f = Ret ()" "test_dm_with_name_rejected f = Ret ()" "test_valid_group f = Ret ()"
  "test_group_without_name_rejected f = Ret ()" "test_name_too_long_rejected f = Ret ()"
  "test_empty_name_rejected f = Ret ()" "test_dm_with_two_members_valid f = Ret ()"
  "test_dm_with_one_member_rejected f = Ret ()" "test_dm_with_three_members_rejected f = Ret ()"
  "test_group_exceeding_max_members_rejected f = Ret ()" "test_group_at_max_members_valid f = Ret ()"
  by (simp_all add: test_valid_dm_def test_dm_with_name_rejected_def test_valid_group_def
      test_group_without_name_rejected_def test_name_too_long_rejected_def test_empty_name_rejected_def
      test_dm_with_two_members_valid_def test_dm_with_one_member_rejected_def
      test_dm_with_three_members_rejected_def test_group_exceeding_max_members_rejected_def
      test_group_at_max_members_valid_def expect_channel_rules make_channel_def channel_rules_def
      new_users_def length_concat_units MAX_NAME_LEN_def del: upt_rec_numeral)

lemma message_tests_pass:
  "test_valid_text_message f = Ret ()" "test_empty_content_rejected f = Ret ()"
  "test_empty_content_ok_for_delete f = Ret ()" "test_oversized_content_rejected f = Ret ()"
  "test_self_reply_rejected f = Ret ()" "test_default_limits f = Ret ()"
  by (simp_all add: test_valid_text_message_def test_empty_content_rejected_def
      test_empty_content_ok_for_delete_def test_oversized_content_rejected_def
      test_self_reply_rejected_def test_default_limits_def tenant_context_new_def Let_def
      expect_message_rules make_message_def message_rules_def MAX_CONTENT_SIZE_def)

lemma bucket_tests_pass:
  "test_known_timestamp = Ret ()" "test_same_bucket_within_10_days = Ret ()"
  "test_different_bucket_after_10_days = Ret ()"
  "unat (ulid_timestamp (f 0)) < 2 ^ 48 \<Longrightarrow> test_from_message_id ulid_timestamp f = Ret ()"
proof -
  show "test_known_timestamp = Ret ()" "test_same_bucket_within_10_days = Ret ()"
    "test_different_bucket_after_10_days = Ret ()"
    by (simp_all add: test_known_timestamp_def test_same_bucket_within_10_days_def
        test_different_bucket_after_10_days_def tb_from_timestamp_ms_eq MS_PER_DAY_def DAYS_PER_BUCKET_def)
  let ?id = "message_id_new (f 0)"
  assume "unat (ulid_timestamp (f 0)) < 2 ^ 48"
  then have "unat (message_id_timestamp_ms ulid_timestamp ?id) < 2 ^ 48" by (simp add: message_id_new_def)
  then obtain b where "tb_from_message_id ulid_timestamp ?id = Ret b"
    using tb_from_message_id_48 by blast
  then show "test_from_message_id ulid_timestamp f = Ret ()"
    by (simp add: test_from_message_id_def Let_def tb_from_message_id_def)
qed

text \<open>What the tests rely on of the two crates that print and parse ids.\<close>

definition text_law :: "'e id_text \<Rightarrow> bool" where
  "text_law crate \<longleftrightarrow> (\<forall>b. length b = 16 \<longrightarrow> it_from_str crate (it_fmt crate b) = Ok b)"

lemma id_tests_pass:
  assumes "text_law uuid" "text_law ulid" "length (f 0) = 16"
  shows "test_tenant_id_roundtrip uuid f = Ret ()" "test_tenant_id_bytes_roundtrip f = Ret ()"
    "test_message_id_roundtrip ulid f = Ret ()" "test_message_id_bytes_roundtrip f = Ret ()"
    "test_channel_id_roundtrip uuid f = Ret ()" "test_user_id_roundtrip f = Ret ()"
    "test_device_id_roundtrip uuid f = Ret ()"
  using assms
  by (simp_all add: test_tenant_id_roundtrip_def test_tenant_id_bytes_roundtrip_def
      test_message_id_roundtrip_def test_message_id_bytes_roundtrip_def test_channel_id_roundtrip_def
      test_user_id_roundtrip_def test_device_id_roundtrip_def text_law_def id_defs)

lemma message_id_ordering_passes:
  fixes ulid_timestamp :: "bytes16 \<Rightarrow> u64"
  assumes "\<And>b. length b = 16 \<Longrightarrow> unat (ulid_timestamp b) = be_nat (take 6 b)"
    and "length (f 0) = 16" "length (f 1) = 16" "ulid_timestamp (f 0) < ulid_timestamp (f 1)"
  shows "test_message_id_ordering f = Ret ()"
  using message_id_order [of ulid_timestamp "message_id_new (f 0)" "message_id_new (f 1)"] assms
  by (simp add: test_message_id_ordering_def message_id_new_def)

lemma proto_tests_pass:
  assumes laws: "capnp_laws api content limit" and limit: "256 \<le> limit"
  shows "test_roundtrip_envelope api = Ret ()" "test_roundtrip_typing api = Ret ()"
    "test_roundtrip_read_receipt api = Ret ()" "test_roundtrip_mls_key_package api = Ret ()"
    "test_roundtrip_mls_key_package_list api = Ret ()" "test_roundtrip_mls_commit api = Ret ()"
    "test_roundtrip_mls_welcome api = Ret ()"
proof -
  have fits: "length v + length w \<le> limit" if "length v + length w \<le> 256" for v w :: bytes
    using that limit by simp
  obtain out where "envelope_encode api (replicate 16 1) (replicate 16 2) (replicate 16 3) (replicate 16 4)
      1700000000000 [104, 101, 108, 108, 111, 32, 99, 97, 112, 110, 112] = Ret out"
    "envelope_decode api out = Ok \<lparr>de_tenant_id = replicate 16 1, de_channel_id = replicate 16 2,
      de_sender_id = replicate 16 3, de_message_id = replicate 16 4, de_timestamp = 1700000000000,
      de_payload = [104, 101, 108, 108, 111, 32, 99, 97, 112, 110, 112]\<rparr>"
    using envelope_carries [OF laws, of "replicate 16 1" "replicate 16 2" "replicate 16 3" "replicate 16 4"
        "[104, 101, 108, 108, 111, 32, 99, 97, 112, 110, 112]" 1700000000000] limit
    by (simp only: length_replicate list.size) auto
  then show "test_roundtrip_envelope api = Ret ()"
    by (simp add: test_roundtrip_envelope_def Let_def)
  note events = events_carry [OF laws fits]
  show "test_roundtrip_typing api = Ret ()"
    using events [of "replicate 16 7" "[]"]
    unfolding test_roundtrip_typing_def Let_def length_replicate list.size by fastforce
  show "test_roundtrip_mls_key_package api = Ret ()"
    using events [of "replicate 256 42" "[]"]
    unfolding test_roundtrip_mls_key_package_def Let_def length_replicate list.size by fastforce
  show "test_roundtrip_mls_commit api = Ret ()"
    using events [of "replicate 100 55" "[]"]
    unfolding test_roundtrip_mls_commit_def Let_def length_replicate list.size by fastforce
  show "test_roundtrip_read_receipt api = Ret ()"
    using events [of "replicate 16 8" "replicate 16 9"]
    unfolding test_roundtrip_read_receipt_def Let_def length_replicate list.size by fastforce
  show "test_roundtrip_mls_welcome api = Ret ()"
    using events [of "replicate 200 66" "replicate 16 77"]
    unfolding test_roundtrip_mls_welcome_def Let_def length_replicate list.size by fastforce
  show "test_roundtrip_mls_key_package_list api = Ret ()"
    using key_package_list_carries [OF laws, of "[replicate 64 1, replicate 128 2]"] limit
    unfolding test_roundtrip_mls_key_package_list_def Let_def list.map length_replicate list.size
    by fastforce
qed

section \<open>All of them\<close>

definition core_unit_tests ::
  "('b, 'm, 'r, 'l, 'e) capnp \<Rightarrow> 'f id_text \<Rightarrow> 'g id_text \<Rightarrow> (bytes16 \<Rightarrow> u64) \<Rightarrow> (nat \<Rightarrow> bytes16) \<Rightarrow>
   unit exec list" where
  "core_unit_tests api uuid ulid ulid_timestamp fresh =
     [test_valid_dm fresh, test_dm_with_name_rejected fresh, test_valid_group fresh,
      test_group_without_name_rejected fresh, test_name_too_long_rejected fresh,
      test_empty_name_rejected fresh, test_dm_with_two_members_valid fresh,
      test_dm_with_one_member_rejected fresh, test_dm_with_three_members_rejected fresh,
      test_group_exceeding_max_members_rejected fresh, test_group_at_max_members_valid fresh,
      test_valid_text_message fresh, test_empty_content_rejected fresh,
      test_empty_content_ok_for_delete fresh, test_oversized_content_rejected fresh,
      test_self_reply_rejected fresh, test_default_limits fresh,
      test_known_timestamp, test_same_bucket_within_10_days, test_different_bucket_after_10_days,
      test_from_message_id ulid_timestamp fresh,
      test_tenant_id_roundtrip uuid fresh, test_tenant_id_bytes_roundtrip fresh,
      test_message_id_roundtrip ulid fresh, test_message_id_bytes_roundtrip fresh,
      test_message_id_ordering fresh, test_channel_id_roundtrip uuid fresh,
      test_user_id_roundtrip fresh, test_device_id_roundtrip uuid fresh,
      test_roundtrip_envelope api, test_roundtrip_typing api, test_roundtrip_read_receipt api,
      test_roundtrip_mls_key_package api, test_roundtrip_mls_key_package_list api,
      test_roundtrip_mls_commit api, test_roundtrip_mls_welcome api,
      test_db_works, test_transport_works]"

text \<open>
  The unit tests translated here, all of the core crate but the two named above and those of the
  two placeholder crates, pass for every runtime of the wire format that keeps its
  laws up to messages of 256 bytes, every crate that reads back the ids it prints, and every
  draw of ids of sixteen bytes in which the second ULID is at least a millisecond after the
  first.
\<close>

theorem core_unit_tests_pass:
  assumes "capnp_laws api content limit" "256 \<le> limit" "text_law uuid" "text_law ulid"
    and "\<And>b. length b = 16 \<Longrightarrow> unat (ulid_timestamp b) = be_nat (take 6 b)"
    and "\<And>n. length (fresh n) = 16" "ulid_timestamp (fresh 0) < ulid_timestamp (fresh 1)"
  shows "list_all (\<lambda>test. test = Ret ()) (core_unit_tests api uuid ulid ulid_timestamp fresh)"
proof -
  have "be_nat (take 6 (fresh 0)) < 2 ^ 48"
    using be_nat_bound [of "take 6 (fresh 0)"] assms(6) [of 0] by simp
  then have "unat (ulid_timestamp (fresh 0)) < 2 ^ 48" using assms(5,6) by simp
  note buckets = bucket_tests_pass(1-3) bucket_tests_pass(4) [of ulid_timestamp fresh, OF this]
  note ids = id_tests_pass [of uuid ulid fresh, OF assms(3,4) assms(6)]
    message_id_ordering_passes [of ulid_timestamp fresh, OF assms(5) assms(6,6,7)]
  show ?thesis
    by (simp only: core_unit_tests_def list.pred_inject channel_tests_pass message_tests_pass buckets ids
        proto_tests_pass [OF assms(1,2)] stub_tests_pass simp_thms)
qed

text \<open>With the ids of characters and the runtime of chunks.\<close>

theorem core_unit_tests_pass_witness:
  "list_all (\<lambda>test. test = Ret ())
     (core_unit_tests chunk_capnp char_text char_text ulid_prefix
       (\<lambda>n. [0, 0, 0, 0, 0, of_nat n] @ replicate 10 7))"
proof (rule core_unit_tests_pass [OF chunk_capnp_laws])
  show "ulid_prefix ([0, 0, 0, 0, 0, of_nat 0] @ replicate 10 7) <
      ulid_prefix ([0, 0, 0, 0, 0, of_nat 1] @ replicate 10 7)"
    by (simp add: ulid_prefix_def be_nat_def)
qed (simp_all add: text_law_def char_text_roundtrip unat_ulid_prefix)

end
