(* ===== verification/Mls_Tests.thy ===== *)
theory Mls_Tests
  imports Mls_Lifecycle
begin

text \<open>
  Unit tests in \<^verbatim>\<open>crates/mercury-crypto/src/mls.rs\<close>, run on the model for every library
  that keeps the laws of a group's life. Left out are the tests of the library alone: that two
  key packages differ, and that it refuses what is no message.
\<close>

definition ascii :: "string \<Rightarrow> bytes" where
  "ascii s = map (\<lambda>c. of_nat (of_char c)) s"

text \<open>\<^verbatim>\<open>unwrap()\<close> of the result of a method that changes the manager.\<close>

definition st_unwrap :: "'m \<times> ('e, 'a) result \<Rightarrow> ('m \<times> 'a) exec" where
  "st_unwrap mr = exec_bind (unwrap (snd mr)) (\<lambda>a. Ret (fst mr, a))"

lemma st_unwrap_Ok [simp]: "st_unwrap (m, Ok a) = Ret (m, a)"
  by (simp add: st_unwrap_def)

text \<open>A device of a test: the fresh provider, the key pair that was generated and the identity.\<close>

type_synonym ('p, 's) device = "'p \<times> 's"

definition test_new ::
  "('p, 'c, 's, 'g, 'o) openmls \<Rightarrow> ('p, 's) device \<Rightarrow> string \<Rightarrow> ('p, 'c, 's, 'g) mls_manager exec" where
  "test_new api d name = exec_bind (mls_new api (fst d) (Some (snd d)) (ascii name)) unwrap"

section \<open>Tests\<close>

definition test_create_group_and_encrypt ::
  "('p, 'c, 's, 'g, 'o) openmls \<Rightarrow> ('p, 's) device \<Rightarrow> unit exec" where
  "test_create_group_and_encrypt api d =
     exec_bind (test_new api d ''alice'') (\<lambda>alice.
     exec_bind (exec_bind (mls_create_group api (ascii ''chan1'') alice) st_unwrap) (\<lambda>(alice, _).
     exec_bind (exec_bind (mls_encrypt api (ascii ''chan1'') (ascii ''hello'') alice) st_unwrap) (\<lambda>(alice, ct).
     check (ct \<noteq> []))))"

definition test_two_party_encrypt_decrypt ::
  "('p, 'c, 's, 'g, 'o) openmls \<Rightarrow> ('p, 's) device \<Rightarrow> ('p, 's) device \<Rightarrow> unit exec" where
  "test_two_party_encrypt_decrypt api d1 d2 =
     (let chan = ascii ''chan1'' in
      exec_bind (test_new api d1 ''alice'') (\<lambda>alice.
      exec_bind (test_new api d2 ''bob'') (\<lambda>bob.
      exec_bind (st_unwrap (mls_generate_key_package api bob)) (\<lambda>(bob, bob_kp).
      exec_bind (exec_bind (mls_create_group api chan alice) st_unwrap) (\<lambda>(alice, _).
      exec_bind (st_unwrap (mls_add_member api chan bob_kp alice)) (\<lambda>(alice, commit, welcome).
      exec_bind (st_unwrap (mls_process_welcome api welcome bob)) (\<lambda>(bob, group_id).
      exec_bind (check (group_id = chan)) (\<lambda>_.
      exec_bind (exec_bind (mls_encrypt api chan (ascii ''hello bob'') alice) st_unwrap) (\<lambda>(alice, ct).
      exec_bind (st_unwrap (mls_decrypt api chan ct bob)) (\<lambda>(bob, pt).
      exec_bind (check (pt = ascii ''hello bob'')) (\<lambda>_.
      exec_bind (exec_bind (mls_encrypt api chan (ascii ''hi alice'') bob) st_unwrap) (\<lambda>(bob, ct2).
      exec_bind (st_unwrap (mls_decrypt api chan ct2 alice)) (\<lambda>(alice, pt2).
      check (pt2 = ascii ''hi alice''))))))))))))))"

definition test_three_party_group ::
  "('p, 'c, 's, 'g, 'o) openmls \<Rightarrow> ('p, 's) device \<Rightarrow> ('p, 's) device \<Rightarrow> ('p, 's) device \<Rightarrow> unit exec" where
  "test_three_party_group api d1 d2 d3 =
     (let gid = ascii ''group3'' in
      exec_bind (test_new api d1 ''alice'') (\<lambda>alice.
      exec_bind (test_new api d2 ''bob'') (\<lambda>bob.
      exec_bind (test_new api d3 ''carol'') (\<lambda>carol.
      exec_bind (st_unwrap (mls_generate_key_package api bob)) (\<lambda>(bob, bob_kp).
      exec_bind (st_unwrap (mls_generate_key_package api carol)) (\<lambda>(carol, carol_kp).
      exec_bind (exec_bind (mls_create_group api gid alice) st_unwrap) (\<lambda>(alice, _).
      exec_bind (st_unwrap (mls_add_member api gid bob_kp alice)) (\<lambda>(alice, commit1, welcome1).
      exec_bind (st_unwrap (mls_process_welcome api welcome1 bob)) (\<lambda>(bob, _).
      exec_bind (st_unwrap (mls_add_member api gid carol_kp alice)) (\<lambda>(alice, commit2, welcome2).
      exec_bind (st_unwrap (mls_process_commit api gid commit2 bob)) (\<lambda>(bob, _).
      exec_bind (st_unwrap (mls_process_welcome api welcome2 carol)) (\<lambda>(carol, _).
      exec_bind (check (mls_member_count api gid alice = Some 3)) (\<lambda>_.
      exec_bind (check (mls_member_count api gid bob = Some 3)) (\<lambda>_.
      exec_bind (check (mls_member_count api gid carol = Some 3)) (\<lambda>_.
      exec_bind (exec_bind (mls_encrypt api gid (ascii ''hello everyone'') alice) st_unwrap) (\<lambda>(alice, ct).
      exec_bind (st_unwrap (mls_decrypt api gid ct bob)) (\<lambda>(bob, pt).
      check (pt = ascii ''hello everyone''))))))))))))))))))"

definition test_group_not_found_errors ::
  "('p, 'c, 's, 'g, 'o) openmls \<Rightarrow> ('p, 's) device \<Rightarrow> unit exec" where
  "test_group_not_found_errors api d =
     exec_bind (test_new api d ''test'') (\<lambda>mgr.
     exec_bind (mls_encrypt api (ascii ''nonexistent'') (ascii ''hello'') mgr) (\<lambda>(mgr, r).
     exec_bind (check (\<not> is_ok r)) (\<lambda>_.
     check (\<not> is_ok (snd (mls_decrypt api (ascii ''nonexistent'') (ascii ''garbage'') mgr))))))"

definition test_duplicate_group_errors ::
  "('p, 'c, 's, 'g, 'o) openmls \<Rightarrow> ('p, 's) device \<Rightarrow> unit exec" where
  "test_duplicate_group_errors api d =
     exec_bind (test_new api d ''test'') (\<lambda>mgr.
     exec_bind (exec_bind (mls_create_group api (ascii ''g1'') mgr) st_unwrap) (\<lambda>(mgr, _).
     exec_bind (mls_create_group api (ascii ''g1'') mgr) (\<lambda>(mgr, r). check (\<not> is_ok r))))"

text \<open>This test must panic, with a text that begins with \<open>message exceeds\<close>.\<close>

definition test_oversized_message_panics ::
  "('p, 'c, 's, 'g, 'o) openmls \<Rightarrow> ('p, 's) device \<Rightarrow> unit exec" where
  "test_oversized_message_panics api d =
     exec_bind (test_new api d ''test'') (\<lambda>mgr.
     exec_bind (exec_bind (mls_create_group api (ascii ''g'') mgr) st_unwrap) (\<lambda>(mgr, _).
     let big = replicate (MAX_MESSAGE_SIZE + 1) 0 in
     exec_bind (mls_encrypt api (ascii ''g'') big mgr) (\<lambda>_. Ret ())))"

definition test_welcome_flow ::
  "('p, 'c, 's, 'g, 'o) openmls \<Rightarrow> ('p, 's) device \<Rightarrow> ('p, 's) device \<Rightarrow> unit exec" where
  "test_welcome_flow api d1 d2 =
     (let wt = ascii ''welcome_test'' in
      exec_bind (test_new api d1 ''alice'') (\<lambda>alice.
      exec_bind (test_new api d2 ''bob'') (\<lambda>bob.
      exec_bind (st_unwrap (mls_generate_key_package api bob)) (\<lambda>(bob, bob_kp).
      exec_bind (exec_bind (mls_create_group api wt alice) st_unwrap) (\<lambda>(alice, _).
      exec_bind (st_unwrap (mls_add_member api wt bob_kp alice)) (\<lambda>(alice, commit, welcome).
      exec_bind (st_unwrap (mls_process_welcome api welcome bob)) (\<lambda>(bob, gid).
      exec_bind (check (gid = wt)) (\<lambda>_.
      check (mls_member_count api gid bob = Some 2)))))))))"

definition test_remove_member_cannot_decrypt ::
  "('p, 'c, 's, 'g, 'o) openmls \<Rightarrow> ('p, 's) device \<Rightarrow> ('p, 's) device \<Rightarrow> unit exec" where
  "test_remove_member_cannot_decrypt api d1 d2 =
     (let rm = ascii ''rm_group'' in
      exec_bind (test_new api d1 ''alice_rm'') (\<lambda>alice.
      exec_bind (test_new api d2 ''bob_rm'') (\<lambda>bob.
      exec_bind (st_unwrap (mls_generate_key_package api bob)) (\<lambda>(bob, bob_kp).
      exec_bind (exec_bind (mls_create_group api rm alice) st_unwrap) (\<lambda>(alice, _).
      exec_bind (st_unwrap (mls_add_member api rm bob_kp alice)) (\<lambda>(alice, commit, welcome).
      exec_bind (st_unwrap (mls_process_welcome api welcome bob)) (\<lambda>(bob, bob_gid).
      exec_bind (exec_bind (mls_encrypt api rm (ascii ''before removal'') alice) st_unwrap) (\<lambda>(alice, ct).
      exec_bind (st_unwrap (mls_decrypt api bob_gid ct bob)) (\<lambda>(bob, pt).
      exec_bind (check (pt = ascii ''before removal'')) (\<lambda>_.
      exec_bind (st_unwrap (mls_remove_member api rm 1 alice)) (\<lambda>(alice, remove_commit).
      exec_bind (exec_bind (mls_encrypt api rm (ascii ''after removal'') alice) st_unwrap) (\<lambda>(alice, ct_after).
      check (\<not> is_ok (snd (mls_decrypt api bob_gid ct_after bob)))))))))))))))"

section \<open>What they rely on\<close>

text \<open>
  The laws of groups, and that the library's operations that the tests unwrap succeed: storing
  the signer, building key packages and groups, and giving them bytes.
\<close>

definition group_laws ::
  "('p, 'c, 's, 'g, 'o) openmls \<Rightarrow> (bytes \<Rightarrow> ('p, 's, 'g) mls_member list \<Rightarrow> bool) \<Rightarrow>
   (('p, 's, 'g) mls_member list \<Rightarrow> 'p \<times> 'g \<Rightarrow> bool) \<Rightarrow> ('g \<Rightarrow> u32) \<Rightarrow> bool" where
  "group_laws api epoch outside leaf \<longleftrightarrow> (\<forall>gid. mls_laws api gid (epoch gid) outside leaf)"

lemma group_lawsD:
  assumes "group_laws api epoch outside leaf"
  shows "create_law api gid (epoch gid) leaf" "roster_law api gid (epoch gid)"
    "send_law api (epoch gid) outside leaf" "add_law api (epoch gid) outside leaf"
    "remove_law api (epoch gid) outside leaf"
  using assms mls_lawsD [of api gid "epoch gid" outside leaf] by (simp_all add: group_laws_def)

definition mls_healthy :: "('p, 'c, 's, 'g, 'o) openmls \<Rightarrow> bool" where
  "mls_healthy api \<longleftrightarrow>
     (\<forall>s p. snd (om_store_signer api s p) = Some ()) \<and>
     (\<forall>s c p. \<exists>kp b. snd (om_build_key_package api s c p) = Some kp \<and> om_tls_serialize api kp = Some b) \<and>
     (\<forall>gid s c p. snd (om_build_group api gid s c p) \<noteq> None) \<and>
     (\<forall>obj. om_tls_serialize api obj \<noteq> Some [])"

lemma ascii_eq_Nil [simp]: "ascii s = [] \<longleftrightarrow> s = []"
  by (simp add: ascii_def)

lemma length_ascii [simp]: "length (ascii s) = length s"
  by (simp add: ascii_def)

lemma test_new_Ret:
  assumes "mls_healthy api" "name \<noteq> []"
  obtains a where "test_new api d name = Ret a" "mg_signer a = snd d" "mg_groups a = []"
proof -
  obtain p' where "om_store_signer api (snd d) (fst d) = (p', Some ())"
    using assms(1) unfolding mls_healthy_def by (metis prod.collapse)
  with that assms(2) show ?thesis by (simp add: test_new_def mls_new_def)
qed

lemma create_Ret:
  assumes "mls_healthy api" "gid \<noteq> []" "map_of (mg_groups a) gid = None"
  obtains a' where "mls_create_group api gid a = Ret (a', Ok ())" "mg_signer a' = mg_signer a"
    "map_of (mg_groups a') gid \<noteq> None"
proof -
  obtain p' g where "om_build_group api gid (mg_signer a) (mg_credential_with_key a) (mg_provider a) =
      (p', Some g)"
    using assms(1) unfolding mls_healthy_def by (metis not_None_eq prod.collapse)
  with that assms(2,3) show ?thesis by (simp add: mls_create_group_def)
qed

lemma package_Ret:
  assumes "mls_healthy api"
  obtains b kp where "mls_generate_key_package api a = (b, Ok kp)" "mg_signer b = mg_signer a"
proof -
  obtain q o' kp where "om_build_key_package api (mg_signer a) (mg_credential_with_key a) (mg_provider a) =
      (q, Some o')" "om_tls_serialize api o' = Some kp"
    using assms unfolding mls_healthy_def by (metis prod.collapse)
  with that show ?thesis by (simp add: mls_generate_key_package_def to_bytes_def)
qed

section \<open>The tests on the model\<close>

lemma simple_tests_pass:
  assumes "mls_healthy api" "group_laws api epoch outside leaf"
  shows "test_create_group_and_encrypt api d = Ret ()" "test_group_not_found_errors api d = Ret ()"
    "test_duplicate_group_errors api d = Ret ()"
    "test_oversized_message_panics api d = Panic (Assertion_Failed ''message exceeds 65536 bytes'')"
proof -
  obtain a where a: "test_new api d ''alice'' = Ret a" "mg_groups a = []"
    using test_new_Ret [OF assms(1), of "''alice''" d] by auto
  obtain a' where a': "mls_create_group api (ascii ''chan1'') a = Ret (a', Ok ())"
    using create_Ret [OF assms(1), of "ascii ''chan1''" a] a(2) by auto
  have "mls_session (epoch (ascii ''chan1'')) outside (ascii ''chan1'') [a'] []"
    using create_session [OF group_lawsD(1) [OF assms(2)] a'] by simp
  from session_say [OF group_lawsD(3) [OF assms(2)] this, of 0 "ascii ''hello''"]
  obtain b ct where ct: "mls_encrypt api (ascii ''chan1'') (ascii ''hello'') a' = Ret (b, Ok ct)"
    by simp blast
  have "ct \<noteq> []"
  proof -
    obtain o' where "om_tls_serialize api o' = Some ct"
      using ct by (auto simp: mls_encrypt_def with_group_def st_bind_def st_lift_def st_context_def to_bytes_def
          split: option.splits prod.splits result.splits)
    then show ?thesis using assms(1) by (auto simp: mls_healthy_def)
  qed
  then show "test_create_group_and_encrypt api d = Ret ()"
    by (simp add: test_create_group_and_encrypt_def a(1) a' ct)
  obtain t where t: "test_new api d ''test'' = Ret t" "mg_groups t = []"
    using test_new_Ret [OF assms(1), of "''test''" d] by auto
  then show "test_group_not_found_errors api d = Ret ()"
    by (simp add: test_group_not_found_errors_def mls_encrypt_def mls_decrypt_def MAX_MESSAGE_SIZE_def)
  obtain t' where t': "mls_create_group api (ascii ''g1'') t = Ret (t', Ok ())"
    "map_of (mg_groups t') (ascii ''g1'') \<noteq> None"
    using create_Ret [OF assms(1), of "ascii ''g1''" t] t(2) by simp blast
  then have "mls_create_group api (ascii ''g1'') t' = Ret (t', Err ''group already exists'')"
    by (simp add: mls_create_group_def)
  then show "test_duplicate_group_errors api d = Ret ()"
    by (simp add: test_duplicate_group_errors_def t(1) t'(1))
  obtain u where u: "mls_create_group api (ascii ''g'') t = Ret (u, Ok ())"
    using create_Ret [OF assms(1), of "ascii ''g''" t] t(2) by auto
  have "mls_encrypt api (ascii ''g'') (replicate (MAX_MESSAGE_SIZE + 1) 0) u =
      Panic (Assertion_Failed ''message exceeds 65536 bytes'')"
    by (simp add: mls_encrypt_def MAX_MESSAGE_SIZE_def show_nat.simps digit_char_def del: replicate.simps)
  then show "test_oversized_message_panics api d = Panic (Assertion_Failed ''message exceeds 65536 bytes'')"
    by (simp add: test_oversized_message_panics_def t(1) u Let_def del: replicate.simps)
qed

lemma pair_upt: "[0..<length [a, b]] = [0, 1]" "[0..<length [a]] = [0]"
  by (simp_all add: upt_rec)

text \<open>Two devices get into one group; the tests with two devices begin so.\<close>

lemma pair_calls:
  assumes healthy: "mls_healthy api" and laws: "group_laws api epoch outside leaf" and signers: "snd d1 \<noteq> snd d2"
    and names: "n1 \<noteq> []" "n2 \<noteq> []" "gid \<noteq> []"
  obtains a b b1 kp a1 a2 c w b2 where
    "test_new api d1 n1 = Ret a" "test_new api d2 n2 = Ret b"
    "mls_generate_key_package api b = (b1, Ok kp)" "mls_create_group api gid a = Ret (a1, Ok ())"
    "mls_add_member api gid kp a1 = (a2, Ok (c, w))" "mls_process_welcome api w b1 = (b2, Ok gid)"
    "mls_session (epoch gid) outside gid [a2, b2] []" "mg_signer a2 = snd d1" "mg_signer b2 = snd d2"
    "leaf_at leaf gid b2 = 1"
proof -
  obtain a where a: "test_new api d1 n1 = Ret a" "mg_signer a = snd d1" "mg_groups a = []"
    using test_new_Ret [OF healthy names(1)] .
  obtain b where b: "test_new api d2 n2 = Ret b" "mg_signer b = snd d2" "mg_groups b = []"
    using test_new_Ret [OF healthy names(2)] .
  obtain b1 kp where kp: "mls_generate_key_package api b = (b1, Ok kp)"
    using package_Ret [OF healthy] .
  obtain a1 where a1: "mls_create_group api gid a = Ret (a1, Ok ())" "mg_signer a1 = mg_signer a"
    using create_Ret [OF healthy names(3), of a] a(3) by auto
  have session: "mls_session (epoch gid) outside gid [a1] []" "leaf_at leaf gid a1 = 0"
    using create_session [OF group_lawsD(1) [OF laws] a1(1)] by auto
  have "mg_signer b \<notin> mg_signer ` set [a1]" "0 < length [a1]" "length [a1] < 1000"
    using a(2) b(2) a1(2) signers by simp_all
  from session_invite [OF group_lawsD(4,2) [OF laws] session(1) this(2,3) kp this(1)]
  obtain c w b2 ds es where inv: "mls_add_member api gid kp ([a1] ! 0) = (ds 0, Ok (c, w))"
    "mls_process_welcome api w b1 = (b2, Ok gid)"
    "\<forall>j < length [a1]. j \<noteq> 0 \<longrightarrow> mls_process_commit api gid c ([a1] ! j) = (ds j, Ok ())"
    "\<forall>x \<in> set []. mls_process_commit api gid c x = (es x, Err ''failed to process commit'')"
    "\<forall>j < length [a1]. same_member leaf gid ([a1] ! j) (ds j)" "mg_signer b2 = mg_signer b"
    "mls_session (epoch gid) outside gid (map ds [0..<length [a1]] @ [b2]) (map es [])"
    "leaf_at leaf gid b2 = free_leaf (map (leaf_at leaf gid) [a1])"
    "bears_loss api (epoch gid) outside leaf (map (member_of gid) (map ds [0..<length [a1]] @ [b2]))" .
  have "free_leaf [0] = 1" by (simp add: free_leaf_def)
  then have "leaf_at leaf gid b2 = 1" using inv(8) session(2) by simp
  moreover have "mls_session (epoch gid) outside gid [ds 0, b2] []" using inv(7) unfolding pair_upt by simp
  moreover have "mg_signer (ds 0) = snd d1" using inv(5) a1(2) a(2) by (simp add: same_member_def)
  moreover have "mls_add_member api gid kp a1 = (ds 0, Ok (c, w))" using inv(1) by simp
  ultimately show ?thesis using a(1) b(1,2) kp a1(1) inv(2,6) by (intro that) auto
qed

text \<open>Either of them says something to the other.\<close>

lemma say_pair:
  assumes laws: "group_laws api epoch outside leaf" and session: "mls_session (epoch gid) outside gid [x, y] []"
    and pt: "length pt \<le> 65536"
  obtains x' ct y' where "mls_encrypt api gid pt x = Ret (x', Ok ct)" "mls_decrypt api gid ct y = (y', Ok pt)"
    "mls_session (epoch gid) outside gid [x', y'] []" "leaf_at leaf gid y' = leaf_at leaf gid y"
proof -
  have "0 < length [x, y]" by simp
  from session_say [OF group_lawsD(3) [OF laws] session this pt]
  obtain ct ds es where say: "mls_encrypt api gid pt ([x, y] ! 0) = Ret (ds 0, Ok ct)"
    "\<forall>j < length [x, y]. j \<noteq> 0 \<longrightarrow> mls_decrypt api gid ct ([x, y] ! j) = (ds j, Ok pt)"
    "\<forall>x \<in> set []. mls_decrypt api gid ct x = (es x, Err ''failed to process MLS message'')"
    "\<forall>j < length [x, y]. same_member leaf gid ([x, y] ! j) (ds j)"
    "mls_session (epoch gid) outside gid (map ds [0..<length [x, y]]) (map es [])"
    .
  have "mls_encrypt api gid pt x = Ret (ds 0, Ok ct)" using say(1) by simp
  moreover have "mls_decrypt api gid ct y = (ds 1, Ok pt)" using say(2) by simp
  moreover have "mls_session (epoch gid) outside gid [ds 0, ds 1] []" using say(5) unfolding pair_upt by simp
  moreover have "leaf_at leaf gid (ds 1) = leaf_at leaf gid y"
    using say(4) [rule_format, of 1] by (simp add: same_member_def)
  ultimately show ?thesis by (rule that)
qed

lemma say_pair_back:
  assumes laws: "group_laws api epoch outside leaf" and session: "mls_session (epoch gid) outside gid [x, y] []"
    and pt: "length pt \<le> 65536"
  obtains y' ct x' where "mls_encrypt api gid pt y = Ret (y', Ok ct)" "mls_decrypt api gid ct x = (x', Ok pt)"
proof -
  have "1 < length [x, y]" by simp
  from session_say [OF group_lawsD(3) [OF laws] session this pt]
  obtain ct ds es where say: "mls_encrypt api gid pt ([x, y] ! 1) = Ret (ds 1, Ok ct)"
    "\<forall>j < length [x, y]. j \<noteq> 1 \<longrightarrow> mls_decrypt api gid ct ([x, y] ! j) = (ds j, Ok pt)"
    "\<forall>x \<in> set []. mls_decrypt api gid ct x = (es x, Err ''failed to process MLS message'')"
    "\<forall>j < length [x, y]. same_member leaf gid ([x, y] ! j) (ds j)"
    "mls_session (epoch gid) outside gid (map ds [0..<length [x, y]]) (map es [])"
    .
  have "mls_encrypt api gid pt y = Ret (ds 1, Ok ct)" using say(1) by simp
  moreover have "mls_decrypt api gid ct x = (ds 0, Ok pt)" using say(2) [rule_format, of 0] by simp
  ultimately show ?thesis by (rule that)
qed

lemma two_party_tests_pass:
  assumes "mls_healthy api" "group_laws api epoch outside leaf" "snd d1 \<noteq> snd d2"
  shows "test_two_party_encrypt_decrypt api d1 d2 = Ret ()" "test_welcome_flow api d1 d2 = Ret ()"
proof -
  let ?chan = "ascii ''chan1''"
  obtain a b b1 kp a1 a2 c w b2 where pair: "test_new api d1 ''alice'' = Ret a" "test_new api d2 ''bob'' = Ret b"
    "mls_generate_key_package api b = (b1, Ok kp)" "mls_create_group api ?chan a = Ret (a1, Ok ())"
    "mls_add_member api ?chan kp a1 = (a2, Ok (c, w))" "mls_process_welcome api w b1 = (b2, Ok ?chan)"
    "mls_session (epoch ?chan) outside ?chan [a2, b2] []"
    by (rule pair_calls [OF assms, of "''alice''" "''bob''" ?chan]) simp_all
  obtain a3 ct b3 where hello: "mls_encrypt api ?chan (ascii ''hello bob'') a2 = Ret (a3, Ok ct)"
    "mls_decrypt api ?chan ct b2 = (b3, Ok (ascii ''hello bob''))" "mls_session (epoch ?chan) outside ?chan [a3, b3] []"
    by (rule say_pair [OF assms(2) pair(7), of "ascii ''hello bob''"]) simp
  obtain b4 ct2 a4 where hi: "mls_encrypt api ?chan (ascii ''hi alice'') b3 = Ret (b4, Ok ct2)"
    "mls_decrypt api ?chan ct2 a3 = (a4, Ok (ascii ''hi alice''))"
    by (rule say_pair_back [OF assms(2) hello(3), of "ascii ''hi alice''"]) simp
  show "test_two_party_encrypt_decrypt api d1 d2 = Ret ()"
    by (simp add: test_two_party_encrypt_decrypt_def Let_def pair(1-6) hello(1,2) hi)
  let ?wt = "ascii ''welcome_test''"
  obtain a b b1 kp a1 a2 c w b2 where join: "test_new api d1 ''alice'' = Ret a" "test_new api d2 ''bob'' = Ret b"
    "mls_generate_key_package api b = (b1, Ok kp)" "mls_create_group api ?wt a = Ret (a1, Ok ())"
    "mls_add_member api ?wt kp a1 = (a2, Ok (c, w))" "mls_process_welcome api w b1 = (b2, Ok ?wt)"
    "mls_session (epoch ?wt) outside ?wt [a2, b2] []"
    by (rule pair_calls [OF assms, of "''alice''" "''bob''" ?wt]) simp_all
  have "roster_law api ?wt (epoch ?wt)" by (rule group_lawsD(2) [OF assms(2)])
  then obtain g where "map_of (mg_groups b2) ?wt = Some g" "om_member_count api g = length [a2, b2]"
    "om_group_id api g = ?wt"
    by (rule session_member [OF join(7), where a = b2]) simp_all
  then have "mls_member_count api ?wt b2 = Some 2" by (simp add: mls_member_count_def)
  then show "test_welcome_flow api d1 d2 = Ret ()"
    by (simp add: test_welcome_flow_def Let_def join(1-6))
qed

lemma triple_upt: "[0..<length [a, b, c]] = [0, 1, 2]"
  by (simp add: upt_rec)

text \<open>What a former member gets from the messages after its removal.\<close>

lemma remove_test_passes:
  assumes "mls_healthy api" and laws: "group_laws api epoch outside leaf" and "snd d1 \<noteq> snd d2"
  shows "test_remove_member_cannot_decrypt api d1 d2 = Ret ()"
proof -
  let ?rm = "ascii ''rm_group''"
  obtain a b b1 kp a1 a2 c w b2 where pair: "test_new api d1 ''alice_rm'' = Ret a" "test_new api d2 ''bob_rm'' = Ret b"
    "mls_generate_key_package api b = (b1, Ok kp)" "mls_create_group api ?rm a = Ret (a1, Ok ())"
    "mls_add_member api ?rm kp a1 = (a2, Ok (c, w))" "mls_process_welcome api w b1 = (b2, Ok ?rm)"
    "mls_session (epoch ?rm) outside ?rm [a2, b2] []" "leaf_at leaf ?rm b2 = 1"
    by (rule pair_calls [OF assms, of "''alice_rm''" "''bob_rm''" ?rm]) simp_all
  obtain a3 ct b3 where before: "mls_encrypt api ?rm (ascii ''before removal'') a2 = Ret (a3, Ok ct)"
    "mls_decrypt api ?rm ct b2 = (b3, Ok (ascii ''before removal''))"
    "mls_session (epoch ?rm) outside ?rm [a3, b3] []" "leaf_at leaf ?rm b3 = leaf_at leaf ?rm b2"
    by (rule say_pair [OF laws pair(7), of "ascii ''before removal''"]) simp
  have "0 < length [a3, b3]" "1 < length [a3, b3]" "(0 :: nat) \<noteq> 1" by simp_all
  from session_expel [OF group_lawsD(5) [OF laws] before(3) this]
  obtain rc ds es where rem: "mls_remove_member api ?rm (leaf_at leaf ?rm ([a3, b3] ! 1)) ([a3, b3] ! 0) = (ds 0, Ok rc)"
    "\<forall>j < length [a3, b3]. j \<noteq> 0 \<longrightarrow> mls_process_commit api ?rm rc ([a3, b3] ! j) = (ds j, Ok ())"
    "\<forall>x \<in> set []. mls_process_commit api ?rm rc x = (es x, Err ''failed to process commit'')"
    "\<forall>j < length [a3, b3]. same_member leaf ?rm ([a3, b3] ! j) (ds j)"
    "\<forall>told. mls_session (epoch ?rm) outside ?rm (map ds [j \<leftarrow> [0..<length [a3, b3]]. j \<noteq> 1])
      ((if told then ds 1 else [a3, b3] ! 1) # map es [])" .
  have out: "mls_session (epoch ?rm) outside ?rm [ds 0] [b3]"
    using rem(5) [rule_format, of False] unfolding pair_upt by simp
  have "mls_remove_member api ?rm 1 a3 = (ds 0, Ok rc)"
    using rem(1) pair(8) before(4) by simp
  moreover have "0 < length [ds 0]" "length (ascii ''after removal'') \<le> 65536" by simp_all
  from session_say [OF group_lawsD(3) [OF laws] out this]
  obtain ct2 as5 es where "mls_encrypt api ?rm (ascii ''after removal'') ([ds 0] ! 0) = Ret (as5 0, Ok ct2)"
    "\<forall>j < length [ds 0]. j \<noteq> 0 \<longrightarrow>
      mls_decrypt api ?rm ct2 ([ds 0] ! j) = (as5 j, Ok (ascii ''after removal''))"
    "\<forall>x \<in> set [b3]. mls_decrypt api ?rm ct2 x = (es x, Err ''failed to process MLS message'')"
    "\<forall>j < length [ds 0]. same_member leaf ?rm ([ds 0] ! j) (as5 j)"
    "mls_session (epoch ?rm) outside ?rm (map as5 [0..<length [ds 0]]) (map es [b3])" .
  ultimately show ?thesis
    by (simp add: test_remove_member_cannot_decrypt_def Let_def pair(1-6) before(1,2) del: One_nat_def)
qed

lemma three_party_test_passes:
  assumes healthy: "mls_healthy api" and laws: "group_laws api epoch outside leaf"
    and signers: "snd d1 \<noteq> snd d2" "snd d3 \<noteq> snd d1" "snd d3 \<noteq> snd d2"
  shows "test_three_party_group api d1 d2 d3 = Ret ()"
proof -
  let ?gid = "ascii ''group3''"
  obtain a b b1 kp a1 a2 c1 w1 b2 where pair: "test_new api d1 ''alice'' = Ret a" "test_new api d2 ''bob'' = Ret b"
    "mls_generate_key_package api b = (b1, Ok kp)" "mls_create_group api ?gid a = Ret (a1, Ok ())"
    "mls_add_member api ?gid kp a1 = (a2, Ok (c1, w1))" "mls_process_welcome api w1 b1 = (b2, Ok ?gid)"
    "mls_session (epoch ?gid) outside ?gid [a2, b2] []" "mg_signer a2 = snd d1" "mg_signer b2 = snd d2"
    by (rule pair_calls [OF healthy laws signers(1), of "''alice''" "''bob''" ?gid]) simp_all
  obtain c where carol: "test_new api d3 ''carol'' = Ret c" "mg_signer c = snd d3"
    by (rule test_new_Ret [OF healthy, of "''carol''" d3]) simp_all
  obtain c' kpc where kpc: "mls_generate_key_package api c = (c', Ok kpc)"
    by (rule package_Ret [OF healthy])
  have fresh: "mg_signer c \<notin> mg_signer ` set [a2, b2]" using pair(8,9) carol(2) signers by simp
  have in_range: "0 < length [a2, b2]" "length [a2, b2] < 1000" by simp_all
  from session_invite [OF group_lawsD(4,2) [OF laws] pair(7) in_range kpc fresh]
  obtain c2 w2 c3 ds es where add: "mls_add_member api ?gid kpc ([a2, b2] ! 0) = (ds 0, Ok (c2, w2))"
    "mls_process_welcome api w2 c' = (c3, Ok ?gid)"
    "\<forall>j < length [a2, b2]. j \<noteq> 0 \<longrightarrow> mls_process_commit api ?gid c2 ([a2, b2] ! j) = (ds j, Ok ())"
    "\<forall>x \<in> set []. mls_process_commit api ?gid c2 x = (es x, Err ''failed to process commit'')"
    "\<forall>j < length [a2, b2]. same_member leaf ?gid ([a2, b2] ! j) (ds j)" "mg_signer c3 = mg_signer c"
    "mls_session (epoch ?gid) outside ?gid (map ds [0..<length [a2, b2]] @ [c3]) (map es [])"
    "leaf_at leaf ?gid c3 = free_leaf (map (leaf_at leaf ?gid) [a2, b2])"
    "bears_loss api (epoch ?gid) outside leaf (map (member_of ?gid) (map ds [0..<length [a2, b2]] @ [c3]))" .
  have added: "mls_add_member api ?gid kpc a2 = (ds 0, Ok (c2, w2))"
    "mls_process_commit api ?gid c2 b2 = (ds 1, Ok ())"
    using add(1,3) by simp_all
  have session: "mls_session (epoch ?gid) outside ?gid [ds 0, ds 1, c3] []"
    using add(7) unfolding pair_upt by simp
  have count: "mls_member_count api ?gid m = Some 3" if "m \<in> set [ds 0, ds 1, c3]" for m
  proof -
    note m = that
    obtain g where "map_of (mg_groups m) ?gid = Some g" "om_member_count api g = length [ds 0, ds 1, c3]"
      "om_group_id api g = ?gid"
      using session_member [OF session group_lawsD(2) [OF laws] m] .
    then show ?thesis by (simp add: mls_member_count_def)
  qed
  have first: "0 < length [ds 0, ds 1, c3]" "length (ascii ''hello everyone'') \<le> 65536" by simp_all
  from session_say [OF group_lawsD(3) [OF laws] session first]
  obtain ct hs es where say: "mls_encrypt api ?gid (ascii ''hello everyone'') ([ds 0, ds 1, c3] ! 0) = Ret (hs 0, Ok ct)"
    "\<forall>j < length [ds 0, ds 1, c3]. j \<noteq> 0 \<longrightarrow>
      mls_decrypt api ?gid ct ([ds 0, ds 1, c3] ! j) = (hs j, Ok (ascii ''hello everyone''))"
    "\<forall>x \<in> set []. mls_decrypt api ?gid ct x = (es x, Err ''failed to process MLS message'')"
    "\<forall>j < length [ds 0, ds 1, c3]. same_member leaf ?gid ([ds 0, ds 1, c3] ! j) (hs j)"
    "mls_session (epoch ?gid) outside ?gid (map hs [0..<length [ds 0, ds 1, c3]]) (map es [])" .
  have said: "mls_encrypt api ?gid (ascii ''hello everyone'') (ds 0) = Ret (hs 0, Ok ct)"
    "mls_decrypt api ?gid ct (ds 1) = (hs 1, Ok (ascii ''hello everyone''))"
    using say(1) say(2) [rule_format, of 1] by simp_all
  show ?thesis
    by (simp add: test_three_party_group_def Let_def pair(1-6) carol(1) kpc added add(2) count said
        del: One_nat_def)
qed

section \<open>All of them\<close>

definition mls_unit_tests ::
  "('p, 'c, 's, 'g, 'o) openmls \<Rightarrow> ('p, 's) device \<Rightarrow> ('p, 's) device \<Rightarrow> ('p, 's) device \<Rightarrow> unit exec list" where
  "mls_unit_tests api d1 d2 d3 =
     [test_create_group_and_encrypt api d1, test_two_party_encrypt_decrypt api d1 d2,
      test_three_party_group api d1 d2 d3, test_group_not_found_errors api d1,
      test_duplicate_group_errors api d1, test_welcome_flow api d1 d2,
      test_remove_member_cannot_decrypt api d1 d2]"

lemma mls_unit_tests_pass:
  assumes "mls_healthy api" "group_laws api epoch outside leaf" "distinct [snd d1, snd d2, snd d3]"
  shows "list_all (\<lambda>test. test = Ret ()) (mls_unit_tests api d1 d2 d3) \<and>
    test_oversized_message_panics api d1 = Panic (Assertion_Failed ''message exceeds 65536 bytes'')"
proof -
  have signers: "snd d1 \<noteq> snd d2" "snd d3 \<noteq> snd d1" "snd d3 \<noteq> snd d2" using assms(3) by auto
  show ?thesis
    by (simp add: mls_unit_tests_def simple_tests_pass [OF assms(1,2)]
        two_party_tests_pass [OF assms(1,2) signers(1)] three_party_test_passes [OF assms(1,2) signers]
        remove_test_passes [OF assms(1,2) signers(1)])
qed

text \<open>The stand-in library keeps all the laws.\<close>

lemma leaf_group_laws: "group_laws leaf_openmls leaf_epoch leaf_outside lg_own"
  by (simp add: group_laws_def leaf_laws)

lemma leaf_healthy: "mls_healthy leaf_openmls"
  by (simp add: mls_healthy_def leaf_openmls_def)

end
