(* ===== verification/Sdk_Tests.thy ===== *)
theory Sdk_Tests
  imports Mls_Tests Encryptor Sdk "HOL-Library.Sublist"
begin

text \<open>
  The unit tests of \<^verbatim>\<open>crates/mercury-crypto/src/encryptor.rs\<close> and
  \<^verbatim>\<open>crates/mercury-sdk-core/src/lib.rs\<close>, run on the model. Left out are those of the JSON
  parser and of the length of a ULID's text, which test the crates \<^verbatim>\<open>serde_json\<close> and
  \<^verbatim>\<open>ulid\<close>.
\<close>

section \<open>Tests\<close>

definition test_noop_roundtrip :: "unit exec" where
  "test_noop_roundtrip =
     (let plaintext = ascii ''hello world'' in
      exec_bind (exec_bind (noop_encrypt (ascii ''group1'') plaintext ()) st_unwrap) (\<lambda>(enc, ct).
      exec_bind (check (ct = plaintext)) (\<lambda>_.
      exec_bind (st_unwrap (noop_decrypt (ascii ''group1'') ct enc)) (\<lambda>(enc, pt).
      check (pt = plaintext)))))"

definition test_noop_as_trait_object :: "unit exec" where
  "test_noop_as_trait_object =
     exec_bind (exec_bind (noop_encrypt (ascii ''g'') (ascii ''data'') ()) st_unwrap) (\<lambda>(enc, ct).
     exec_bind (st_unwrap (noop_decrypt (ascii ''g'') ct enc)) (\<lambda>(enc, pt).
     check (pt = ascii ''data'')))"

definition test_time_bucket_known_value :: "unit exec" where
  "test_time_bucket_known_value =
     exec_bind (sdk_compute_time_bucket 1704067200000) (\<lambda>bucket. check (bucket = 1972))"

definition test_validate_ok :: "unit exec" where
  "test_validate_ok = check (sdk_validate_message (ascii ''hello'') 0 = [])"

definition test_validate_empty_rejected :: "unit exec" where
  "test_validate_empty_rejected = check (sdk_validate_message [] 0 \<noteq> [])"

definition test_validate_delete_empty_ok :: "unit exec" where
  "test_validate_delete_empty_ok = check (sdk_validate_message [] 5 = [])"

definition test_validate_batch_too_large :: "unit exec" where
  "test_validate_batch_too_large = check (sublist ''too large'' (sdk_validate_delta_batch 1001))"

definition test_validate_batch_empty :: "unit exec" where
  "test_validate_batch_empty = check (sdk_validate_delta_batch 0 \<noteq> [])"

definition test_validate_batch_ok :: "unit exec" where
  "test_validate_batch_ok = check (sdk_validate_delta_batch 500 = [])"

definition test_generate_key_package_succeeds ::
  "('p, 'c, 's, 'g, 'o) openmls \<Rightarrow> ('p, 's) device \<Rightarrow> unit exec" where
  "test_generate_key_package_succeeds api d =
     exec_bind (exec_bind (sdk_generate_key_package api (fst d) (Some (snd d)) (ascii ''test-device-001'')) unwrap)
       (\<lambda>kp. check (kp \<noteq> []))"

section \<open>The tests on the model\<close>

lemma noop_tests_pass: "test_noop_roundtrip = Ret ()" "test_noop_as_trait_object = Ret ()"
  by (simp_all add: test_noop_roundtrip_def test_noop_as_trait_object_def noop_encrypt_def noop_decrypt_def
      Let_def)

lemma too_large_text: "sublist ''too large'' (''batch too large: '' @ rest)"
proof -
  have "''batch too large: '' @ rest = ''batch '' @ ''too large'' @ '': '' @ rest" by simp
  then show ?thesis by (metis sublist_appendI)
qed

lemma sdk_tests_pass:
  "test_time_bucket_known_value = Ret ()" "test_validate_ok = Ret ()"
  "test_validate_empty_rejected = Ret ()" "test_validate_delete_empty_ok = Ret ()"
  "test_validate_batch_too_large = Ret ()" "test_validate_batch_empty = Ret ()"
  "test_validate_batch_ok = Ret ()"
  using too_large_text [of "show_nat 1001 @ '' deltas''"]
  by (simp_all add: test_time_bucket_known_value_def sdk_compute_time_bucket_def tb_from_timestamp_ms_eq
      test_validate_ok_def test_validate_empty_rejected_def test_validate_delete_empty_ok_def
      sdk_validate_message_def test_validate_batch_too_large_def test_validate_batch_empty_def
      test_validate_batch_ok_def sdk_validate_delta_batch_def MAX_DELTAS_PER_BATCH_def)

lemma key_package_test_passes:
  assumes "mls_healthy api"
  shows "test_generate_key_package_succeeds api d = Ret ()"
proof -
  obtain a where a: "test_new api d ''test-device-001'' = Ret a"
    by (rule test_new_Ret [OF assms, of "''test-device-001''" d]) simp_all
  then have new: "mls_new api (fst d) (Some (snd d)) (ascii ''test-device-001'') = Ret (Ok a)"
    by (auto simp: test_new_def)
  obtain b kp where kp: "mls_generate_key_package api a = (b, Ok kp)"
    by (rule package_Ret [OF assms])
  obtain obj where "om_tls_serialize api obj = Some kp"
    using kp by (auto simp: mls_generate_key_package_def to_bytes_def split: prod.splits)
  then have "kp \<noteq> []" using assms by (auto simp: mls_healthy_def)
  then show ?thesis by (simp add: test_generate_key_package_succeeds_def sdk_generate_key_package_def new kp)
qed

section \<open>All of them\<close>

definition client_unit_tests ::
  "('p, 'c, 's, 'g, 'o) openmls \<Rightarrow> ('p, 's) device \<Rightarrow> ('p, 's) device \<Rightarrow> ('p, 's) device \<Rightarrow> unit exec list" where
  "client_unit_tests api d1 d2 d3 =
     mls_unit_tests api d1 d2 d3 @
     [test_noop_roundtrip, test_noop_as_trait_object, test_time_bucket_known_value, test_validate_ok,
      test_validate_empty_rejected, test_validate_delete_empty_ok, test_validate_batch_too_large,
      test_validate_batch_empty, test_validate_batch_ok, test_generate_key_package_succeeds api d1]"

text \<open>
  The unit tests translated here, of the group manager, of the pass-through encryptor and of the
  WebAssembly functions, pass for every library that keeps the laws of a group's life and whose
  calls that the tests unwrap succeed (\<open>mls_healthy\<close>: storing a signer, building a key package
  and a group), on any devices with keys of their own: the conversations of two and three devices, the errors on an unknown group
  and on a second group of one id, the validations; and the test that must panic on a message
  above 64 KB panics with the text it expects.
\<close>

theorem client_unit_tests_pass:
  assumes "mls_healthy api" "group_laws api epoch outside leaf" "distinct [snd d1, snd d2, snd d3]"
  shows "list_all (\<lambda>test. test = Ret ()) (client_unit_tests api d1 d2 d3) \<and>
    test_oversized_message_panics api d1 = Panic (Assertion_Failed ''message exceeds 65536 bytes'')"
  using mls_unit_tests_pass [OF assms]
  by (simp add: client_unit_tests_def noop_tests_pass sdk_tests_pass key_package_test_passes [OF assms(1)])

theorem client_unit_tests_pass_witness:
  "list_all (\<lambda>test. test = Ret ()) (client_unit_tests leaf_openmls (0, 1) (7, 2) (0, 3))"
  using client_unit_tests_pass [OF leaf_healthy leaf_group_laws, of "(0, 1)" "(7, 2)" "(0, 3)"] by simp

end
