(* ===== verification/Spec2Isabelle.thy ===== *)
theory Spec2Isabelle
  imports Collections Hlc_Cluster Gcounter Lww_Register Ids Orset_Replicas Reaction_Map Message_Log
    Log_System Gcounter_Refinement Log_Refinement Orset_Refinement Delta Message Channel Tenant Time_Bucket Proto Stubs
    Mls Mls_Typing Mls_Lifecycle Encryptor Nif Sdk Sdk_Refinement Js_Client Gateway Js_Channel Js_Sync
    Crdt_Laws Crdt_Tests Core_Tests Sdk_Tests
begin

text \<open>
  A verification development of Mercury's Rust crates (\<^verbatim>\<open>crates/\<close>): the replicated
  data types and clocks that keep devices consistent, the domain rules, the wire format, the
  end-to-end encryption manager, and the two boundaries through which the rest of the system
  calls them (NIFs for the Elixir server, WebAssembly for the browser SDK). Every function of
  the crates that holds logic is translated as it is written, with its guards, early returns,
  errors and panics in the source's order, and is executable.

  Conventions (\<open>Prelude\<close>, \<open>Collections\<close>). An integer is a word of its width.
  \<open>exec\<close> is a computation that may panic, \<open>result\<close> Rust's \<^verbatim>\<open>Result\<close>, and
  \<open>st_result\<close> code that changes a state and may return early, keeping the changes made
  so far. Unchecked additions take the build's \<open>overflow\<close> behaviour: \<open>Checked\<close>
  panics, \<open>Wrapping\<close> wraps. A hash map is an association list with distinct keys in some
  iteration order (results hold whatever the order is, up to \<^verbatim>\<open>==\<close>), a B-tree map or set
  an ascending list. Strings are their bytes. The system clock is an argument, in nanoseconds
  from the epoch; so are random ids. A method that changes \<^verbatim>\<open>self\<close> returns the new state.

  The theories and the code they model:

  \<^item> \<open>Hlc\<close>, \<open>Gcounter\<close>, \<open>Lww_Register\<close>, \<open>Orset\<close>, \<open>Reaction_Map\<close>,
    \<open>Message_Log\<close>, \<open>Delta\<close>: the files of \<^verbatim>\<open>mercury-crdt/src\<close> of those names
    (\<open>Message_Log\<close> also \<^verbatim>\<open>error.rs\<close>). \<open>Mergeable\<close> is the trait
    \<^verbatim>\<open>Mergeable\<close> as a locale, which every data type interprets and whose consequence is
    convergence. Each theory shows what its operations do, the trait's laws on well-formed
    states, and where they fail.
  \<^item> \<open>Hlc_Cluster\<close>, \<open>Orset_Replicas\<close>, the last part of \<open>Gcounter\<close>, and
    \<open>Log_System\<close>: systems of devices as step relations over those operations, with any
    interleaving, delay, repetition and loss. They show causality, uniqueness and bounded drift
    of clocks, uniqueness of dots, exact counting, and the convergence and durability of the
    logs of devices that stamp messages with their clocks. What rests on the order of clocks is
    shown for builds with overflow checks, and for release builds, in which \<^verbatim>\<open>merge\<close>
    wraps its counter, as long as a run has fewer than \<open>2 ^ 32\<close> clock events, which is when no
    counter can wrap (\<open>no_wrap\<close>).
  \<^item> \<open>Event_Store\<close>: what such a system promises its users, stated without clocks, slots or
    bounds: devices that know sets of events, which grow by creation and by the arrival of what
    another device knew, and fair runs, in which every event is eventually known by all. The
    locale \<open>event_refinement\<close> carries this to an implementation; \<open>Gcounter_Refinement\<close>
    and \<open>Log_Refinement\<close> interpret it on the counter, whose events are single increments,
    and on the log, whose events are messages. \<open>Orset_Refinement\<close> interprets it on the set
    twice, on sequence numbers in all runs and on dots in runs without removals, in which the
    replicas end up equal.
  \<^item> \<open>Ids\<close>, \<open>Core_Error\<close>, \<open>Message\<close>, \<open>Channel\<close>, \<open>Tenant\<close>,
    \<open>Time_Bucket\<close>: the files of \<^verbatim>\<open>mercury-core/src\<close>, with the exact domains on which
    validation accepts, refuses and panics, and the partition arithmetic.
  \<^item> \<open>Proto\<close>: \<^verbatim>\<open>mercury-core/src/proto.rs\<close> over the Cap'n Proto runtime and the code
    generated from \<^verbatim>\<open>schema/\<close>, which are the parameter \<open>capnp\<close> with the hypothesis
    \<open>capnp_laws\<close>: round trips of every message.
  \<^item> \<open>Mls\<close>: \<^verbatim>\<open>mercury-crypto/src/mls.rs\<close> over the \<^verbatim>\<open>openmls\<close> crate, the
    parameter \<open>openmls\<close>: isolation of groups, refusals, the member limit, the table's
    invariant. \<open>Mls_Typing\<close>: preconditions, types of the replies and well-typed tables over
    whole sequences of calls. \<open>Mls_Group\<close> and \<open>Mls_Lifecycle\<close>: all clients of a group
    together, members and former members, from its creation through any history of messages,
    invitations and removals, given what MLS promises an epoch (\<open>mls_laws\<close>); \<open>Mls_Leaves\<close>
    is a library without cryptography that keeps these laws. \<open>Encryptor\<close>: the trait of \<^verbatim>\<open>encryptor.rs\<close> as a locale, interpreted on
    the manager and on the pass-through; whole conversations are delivered, given
    \<open>delivery_law\<close>, what MLS promises two members in one epoch.
  \<^item> \<open>Nif\<close>: \<^verbatim>\<open>mercury-nif/src/lib.rs\<close>, with the mutex of the MLS resource and its
    poisoning by a panic. \<open>Sdk\<close>: \<^verbatim>\<open>mercury-sdk-core/src/lib.rs\<close>, with the
    JavaScript function that unpacks its one packed result; \<open>Sdk_Refinement\<close> shows that the
    JavaScript class is the manager, call for call, behind prefixed errors and packed pairs.
  \<^item> \<open>Js_Client\<close>, \<open>Gateway\<close> and \<open>Js_Channel\<close>: what runs on those two boundaries, the
    classes \<^verbatim>\<open>MlsClient\<close> and \<^verbatim>\<open>Channel\<close> of the browser SDK
    (\<^verbatim>\<open>sdks/mercury-sdk-js/src/mls.ts\<close>, \<^verbatim>\<open>channel.ts\<close>) and the socket handlers of
    the Elixir gateway (\<^verbatim>\<open>apps/gateway/lib/gateway/binary_socket.ex\<close>) that pass a channel's
    traffic, over the browser's AES-GCM, which is the parameter \<open>webcrypto\<close> with the
    hypothesis \<open>aes_law\<close>. Their composition is the whole path of a message, an invitation and
    a removal between all clients of a channel, through any history.
  \<^item> \<open>Frames\<close>, \<open>Gateway_Sync\<close> and \<open>Js_Sync\<close>: catching up after a disconnection,
    from the browser's local store and offline queue (\<^verbatim>\<open>sync.ts\<close>, \<^verbatim>\<open>offline-queue.ts\<close>,
    \<^verbatim>\<open>store.ts\<close>, \<^verbatim>\<open>frame.ts\<close>, \<^verbatim>\<open>channel.ts\<close>) over the gateway's handlers of
    \<^verbatim>\<open>sync:request\<close> and \<^verbatim>\<open>sync:push\<close> to the table of messages
    (\<^verbatim>\<open>apps/persistence/lib/persistence/sync.ex\<close>, \<^verbatim>\<open>messages.ex\<close>). They show what one
    pull fetches and stores, that a backlog longer than a page is never fetched in full, and that
    messages written offline are delivered without their content.
  \<^item> \<open>Stubs\<close>: the placeholder crates \<^verbatim>\<open>mercury-db\<close> and \<^verbatim>\<open>mercury-transport\<close>.
  \<^item> \<open>Crdt_Laws\<close>: the generators and laws of \<^verbatim>\<open>mercury-crdt/tests/crdt_laws.rs\<close>, shown
    for every value that can be generated. \<open>Crdt_Tests\<close>, \<open>Core_Tests\<close>,
    \<open>Mls_Tests\<close>, \<open>Sdk_Tests\<close>: the unit tests inside the sources, translated with
    their assertions; those translated return without a panic, for the values they draw and under
    the laws of the libraries they call that each theory states.
  \<^item> This theory: the properties that span them, agreement of the validators and the path of
    a message from one member's plaintext to another's.

  How the parts interact: the NIF and SDK functions call the core validators, the time buckets,
  the clocks, the wire format and the manager; the manager runs behind a lock in the NIFs and
  directly in the browser, where it carries the content key of a channel to new members; the reaction map uses the set through the interface
  \<open>observed_set\<close>; the log is keyed by clocks, which makes its laws rest on the clocks'
  uniqueness (\<open>Log_System\<close>).

  Bounds. The log holds \<open>MAX_LOG_ENTRIES\<close> (100000) messages; convergence is stated for
  histories that fit, and what happens at the bound separately. The wire format's limit is a
  parameter; the witnesses use 64 MiB, the runtime's default. A page of a
  sync holds 100 messages. Every loop of the Rust sources is a structural recursion over the
  collection it walks; the browser's loop over the pages of a sync, which ends when the server
  has no more, recurs over the moments at which the server answers, one for each turn, and is
  \<open>None\<close> when they run out.

  Parameters beside those named above: the text form of ids (\<open>id_text\<close>, the crates
  \<^verbatim>\<open>uuid\<close> and \<^verbatim>\<open>ulid\<close>), the timestamp in a ULID, and the JSON parser.

  Not modelled: the random generators of the \<^verbatim>\<open>uuid\<close> and \<^verbatim>\<open>ulid\<close> crates, JSON and
  MessagePack serialisation derived by \<^verbatim>\<open>serde\<close> and its tests, the encoding of Elixir
  terms, the benchmarks, and the parts of the repository in other languages but for the
  handlers above: in the Elixir server the database beyond the table of messages, presence,
  sync cursors, history, fan-out and supervision, in the TypeScript SDK the transport, history and
  its own Cap'n Proto codec, which reads and writes the format of \<open>Proto\<close>. Of the unit tests, those that only
  test another crate are left out, as each theory of tests says. Equality of ids as Rust
  compares them is equality of their bytes.
\<close>

section \<open>Across the boundaries\<close>

text \<open>
  C31. The validators agree where they overlap: for ids of sixteen bytes and a readable clock the
  Elixir NIF accepts a message exactly when its content type is one of the six and the
  WebAssembly validator answers the empty text; on those types that text is the reason of the
  core's own error, word for word. The WebAssembly validator alone takes no notice of an
  unknown content type.
\<close>

theorem validators_agree:
  assumes "1000000 \<le> now" "now div 1000000 < 2 ^ 64"
    and "length tid = 16" "length cid = 16" "length sid = 16"
  shows "(nif_validate_message now fresh tid cid sid content ct = Ret (A_Ok, A_Ok) \<longleftrightarrow>
      ct \<le> 5 \<and> sdk_validate_message content ct = []) \<and>
    (parse_content_type ct = Ok (msg_content_type m) \<and> msg_encrypted_content m = content \<and>
      msg_reply_to m = None \<and> msg_created_at m \<noteq> 0 \<longrightarrow>
      message_validate m = Ret (if sdk_validate_message content ct = [] then Ok ()
        else Err (Invalid_Message (sdk_validate_message content ct)))) \<and>
    (sdk_validate_message content ct = [] \<longleftrightarrow>
      (content = [] \<longrightarrow> ct = 5) \<and> length content \<le> 262144)"
proof (intro conjI impI)
  have shown: "show_nat 262144 = ''262144''" by (simp add: show_nat.simps digit_char_def)
  show sdk: "sdk_validate_message content ct = [] \<longleftrightarrow>
      (content = [] \<longrightarrow> ct = 5) \<and> length content \<le> 262144"
    by (auto simp: sdk_validate_message_def)
  show "nif_validate_message now fresh tid cid sid content ct = Ret (A_Ok, A_Ok) \<longleftrightarrow>
      ct \<le> 5 \<and> sdk_validate_message content ct = []"
    unfolding sdk nif_validate_message_eq [OF assms(1,2)] using assms(3-5) by auto
  assume m: "parse_content_type ct = Ok (msg_content_type m) \<and> msg_encrypted_content m = content \<and>
      msg_reply_to m = None \<and> msg_created_at m \<noteq> 0"
  then have "msg_content_type m = Delete \<longleftrightarrow> ct = 5"
    by (auto simp: parse_content_type_Ok(1))
  then show "message_validate m = Ret (if sdk_validate_message content ct = [] then Ok ()
      else Err (Invalid_Message (sdk_validate_message content ct)))"
    using m shown
    by (auto simp: message_validate_cases message_rules_def sdk_validate_message_def)
qed

theorem validators_agree_witness:
  "nif_validate_message 1704067200000000000 (Message_Id []) (replicate 16 1) (replicate 16 2)
     (replicate 16 3) [7] 9 \<noteq> Ret (A_Ok, A_Ok) \<and>
   sdk_validate_message [7] 9 = [] \<and>
   nif_validate_message 1704067200000000000 (Message_Id []) (replicate 16 1) (replicate 16 2)
     (replicate 16 3) [7] 0 = Ret (A_Ok, A_Ok)"
proof -
  have "(1000000 :: int) \<le> 1704067200000000000"
    "(1704067200000000000 :: int) div 1000000 < 2 ^ 64" by simp_all
  note agree = validators_agree [OF this, of "replicate 16 1" "replicate 16 2" "replicate 16 3"
      "Message_Id []" "[7]"]
  from agree [of 9] agree [of 0] show ?thesis by (simp add: word_le_nat_alt)
qed

text \<open>
  A message crosses the system: a plaintext of at most 64 KB encrypted through the NIFs by
  one member, put in an envelope, taken out of it and decrypted by another member of the group
  in the same epoch arrives as it was sent, with the envelope's routing fields intact and no
  panic on the way, as long as the ciphertext fits the wire format's limit.
\<close>

theorem wire_delivery:
  assumes "capnp_laws capi content limit" "delivery_law api rel"
    and "\<not> mx_poisoned a" "\<not> mx_poisoned b"
    and "map_of (mg_groups (mx_value a)) gid = Some g" "map_of (mg_groups (mx_value b)) gid = Some h"
    and "rel (mg_signer (mx_value a)) (mg_provider (mx_value a), g) (mg_provider (mx_value b), h)"
    and "length pt \<le> 65536"
    and "\<And>a' ct. nif_mls_encrypt api gid pt a = (a', Ret (Ok (A_Ok, ct))) \<Longrightarrow>
      length t + length c + length s + length m + length ct \<le> limit"
  shows "\<exists>a' ct wire b'. nif_mls_encrypt api gid pt a = (a', Ret (Ok (A_Ok, ct))) \<and>
    nif_envelope_encode capi t c s m ts ct = Ret wire \<and>
    nif_envelope_decode capi show_error wire = Ok (t, c, s, m, ts, ct) \<and>
    nif_mls_decrypt api gid ct b = (b', Ret (Ok (A_Ok, pt)))"
proof -
  have "mls_linked api rel gid (mx_value a) (mx_value b)"
    using assms(2,5-7) by (auto simp: mls_linked_def)
  then obtain a' ct b' where sent: "mls_encrypt api gid pt (mx_value a) = Ret (a', Ok ct)"
    and received: "mls_decrypt api gid ct (mx_value b) = (b', Ok pt)"
    using mls.delivers assms(8) by blast
  have enc: "nif_mls_encrypt api gid pt a = (a\<lparr>mx_value := a'\<rparr>, Ret (Ok (A_Ok, ct)))"
    using sent assms(3) by (simp add: nif_mls_encrypt_def with_lock_def reply_map_def)
  obtain wire where "envelope_encode capi t c s m ts ct = Ret wire"
    "envelope_decode capi wire = Ok \<lparr>de_tenant_id = t, de_channel_id = c, de_sender_id = s,
      de_message_id = m, de_timestamp = ts, de_payload = ct\<rparr>"
    using envelope_carries [OF assms(1) assms(9) [OF enc]] by blast
  moreover have "nif_mls_decrypt api gid ct b = (b\<lparr>mx_value := b'\<rparr>, Ret (Ok (A_Ok, pt)))"
    using received assms(4) by (simp add: nif_mls_decrypt_def with_lock_def reply_map_def)
  ultimately show ?thesis
    using enc by (auto simp: nif_envelope_encode_def nif_envelope_decode_def)
qed

theorem wire_delivery_witness:
  "\<exists>a' ct wire b'.
     nif_mls_encrypt plain_openmls [1] [7, 8] \<lparr>mx_value = plain_manager, mx_poisoned = False\<rparr> =
       (a', Ret (Ok (A_Ok, ct))) \<and>
     nif_envelope_encode chunk_capnp [1] [2] [] [4] 99 ct = Ret wire \<and>
     nif_envelope_decode chunk_capnp id wire = Ok ([1], [2], [], [4], 99, ct) \<and>
     nif_mls_decrypt plain_openmls [1] ct \<lparr>mx_value = plain_manager, mx_poisoned = False\<rparr> =
       (b', Ret (Ok (A_Ok, [7, 8])))"
proof (rule wire_delivery [OF chunk_capnp_laws, where rel = "\<lambda>_ _ _. True"])
  show "delivery_law plain_openmls (\<lambda>_ _ _. True)"
    by (auto simp: delivery_law_def plain_openmls_def)
  show "length [1] + length [2] + length [] + length [4] + length ct \<le> 67108864"
    if "nif_mls_encrypt plain_openmls [1] [7, 8] \<lparr>mx_value = plain_manager, mx_poisoned = False\<rparr> =
       (a', Ret (Ok (A_Ok, ct)))" for a' ct
    using that
    by (auto simp: nif_mls_encrypt_def with_lock_def mls_encrypt_def MAX_MESSAGE_SIZE_def
        with_group_def plain_manager_def plain_openmls_def st_bind_context st_lift_def to_bytes_def
        reply_map_def)
qed (simp_all add: plain_manager_def)

end
